(* ===== verification/Ruix_Error.thy ===== *)
theory Ruix_Error
  imports Ruix_Prelude
begin

text \<open>
  The kernel's error types (\<^verbatim>\<open>src/error.rs\<close>): one datatype per Rust enum with its
  constructors in the source's order, the \<^verbatim>\<open>Display\<close> implementations as string functions,
  the \<^verbatim>\<open>From\<close> conversions behind \<^verbatim>\<open>kerror!\<close>, the lines that
  \<^verbatim>\<open>log_error\<close> prints, and the choice of a recovery strategy.
\<close>

section \<open>Error enums\<close>

datatype AllocError = OutOfMemory | BadAlignment | AlreadyInUse | InvalidAddress | PermissionDenied

datatype ProcessError = InvalidPid | NotFound | AlreadyExists | InvalidState
  | StackAllocationFailed | ContextSwitchFailed

datatype SyscallError = InvalidNumber | InvalidArgs | PermissionDenied | ResourceUnavailable
  | NotSupported | BufferTooSmall

datatype IpcError = ChannelNotFound | ChannelExists | MessageTooLarge | NoMessage
  | InvalidChannelId | ConnectionRefused | InvalidSender | ChannelFull | HandleNotFound
  | InvalidRange | AccessDenied | TransferFailed | MappingFailed | UnmappingFailed
  | InvalidAddress | InvalidProcess | CircularTransfer

datatype HardwareError = DeviceNotFound | DeviceBusy | IoFailed | InvalidPort | Timeout

datatype GeneralError = InvalidOperation | NotImplemented | Internal | InvalidState

datatype KernelError = Memory AllocError | Process ProcessError | Syscall SyscallError
  | Ipc IpcError | Hardware HardwareError | General GeneralError

type_synonym 'a KernelResult = "KernelError + 'a"

section \<open>Display\<close>

fun AllocError_fmt :: "AllocError \<Rightarrow> string" where
  "AllocError_fmt AllocError.OutOfMemory = ''Out of memory''"
| "AllocError_fmt AllocError.BadAlignment = ''Bad memory alignment''"
| "AllocError_fmt AllocError.AlreadyInUse = ''Memory region already in use''"
| "AllocError_fmt AllocError.InvalidAddress = ''Invalid memory address''"
| "AllocError_fmt AllocError.PermissionDenied = ''Permission denied''"

fun ProcessError_fmt :: "ProcessError \<Rightarrow> string" where
  "ProcessError_fmt ProcessError.InvalidPid = ''Invalid process ID''"
| "ProcessError_fmt ProcessError.NotFound = ''Process not found''"
| "ProcessError_fmt ProcessError.AlreadyExists = ''Process already exists''"
| "ProcessError_fmt ProcessError.InvalidState = ''Invalid process state''"
| "ProcessError_fmt ProcessError.StackAllocationFailed = ''Stack allocation failed''"
| "ProcessError_fmt ProcessError.ContextSwitchFailed = ''Context switch failed''"

fun SyscallError_fmt :: "SyscallError \<Rightarrow> string" where
  "SyscallError_fmt SyscallError.InvalidNumber = ''Invalid system call number''"
| "SyscallError_fmt SyscallError.InvalidArgs = ''Invalid arguments''"
| "SyscallError_fmt SyscallError.PermissionDenied = ''Permission denied''"
| "SyscallError_fmt SyscallError.ResourceUnavailable = ''Resource unavailable''"
| "SyscallError_fmt SyscallError.NotSupported = ''Operation not supported''"
| "SyscallError_fmt SyscallError.BufferTooSmall = ''Buffer too small''"

fun IpcError_fmt :: "IpcError \<Rightarrow> string" where
  "IpcError_fmt IpcError.ChannelNotFound = ''Channel not found''"
| "IpcError_fmt IpcError.ChannelExists = ''Channel already exists''"
| "IpcError_fmt IpcError.MessageTooLarge = ''Message too large''"
| "IpcError_fmt IpcError.NoMessage = ''No message available''"
| "IpcError_fmt IpcError.InvalidChannelId = ''Invalid channel ID''"
| "IpcError_fmt IpcError.ConnectionRefused = ''Connection refused''"
| "IpcError_fmt IpcError.InvalidSender = ''Invalid sender''"
| "IpcError_fmt IpcError.ChannelFull = ''Channel full''"
| "IpcError_fmt IpcError.HandleNotFound = ''Handle not found''"
| "IpcError_fmt IpcError.InvalidRange = ''Invalid memory range''"
| "IpcError_fmt IpcError.AccessDenied = ''Access denied''"
| "IpcError_fmt IpcError.TransferFailed = ''Transfer failed''"
| "IpcError_fmt IpcError.MappingFailed = ''Mapping failed''"
| "IpcError_fmt IpcError.UnmappingFailed = ''Unmapping failed''"
| "IpcError_fmt IpcError.InvalidAddress = ''Invalid address''"
| "IpcError_fmt IpcError.InvalidProcess = ''Invalid process''"
| "IpcError_fmt IpcError.CircularTransfer = ''Circular transfer detected''"

fun HardwareError_fmt :: "HardwareError \<Rightarrow> string" where
  "HardwareError_fmt HardwareError.DeviceNotFound = ''Device not found''"
| "HardwareError_fmt HardwareError.DeviceBusy = ''Device busy''"
| "HardwareError_fmt HardwareError.IoFailed = ''IO operation failed''"
| "HardwareError_fmt HardwareError.InvalidPort = ''Invalid port''"
| "HardwareError_fmt HardwareError.Timeout = ''Timeout''"

fun GeneralError_fmt :: "GeneralError \<Rightarrow> string" where
  "GeneralError_fmt GeneralError.InvalidOperation = ''Invalid operation''"
| "GeneralError_fmt GeneralError.NotImplemented = ''Not implemented''"
| "GeneralError_fmt GeneralError.Internal = ''Internal error''"
| "GeneralError_fmt GeneralError.InvalidState = ''Invalid state''"

fun KernelError_fmt :: "KernelError \<Rightarrow> string" where
  "KernelError_fmt (KernelError.Memory e) = ''Memory error: '' @ AllocError_fmt e"
| "KernelError_fmt (KernelError.Process e) = ''Process error: '' @ ProcessError_fmt e"
| "KernelError_fmt (KernelError.Syscall e) = ''Syscall error: '' @ SyscallError_fmt e"
| "KernelError_fmt (KernelError.Ipc e) = ''IPC error: '' @ IpcError_fmt e"
| "KernelError_fmt (KernelError.Hardware e) = ''Hardware error: '' @ HardwareError_fmt e"
| "KernelError_fmt (KernelError.General e) = ''General error: '' @ GeneralError_fmt e"

section \<open>Conversions, logging, recovery\<close>

definition from_AllocError :: "AllocError \<Rightarrow> KernelError" where
  "from_AllocError err = KernelError.Memory err"

definition from_ProcessError :: "ProcessError \<Rightarrow> KernelError" where
  "from_ProcessError err = KernelError.Process err"

definition from_SyscallError :: "SyscallError \<Rightarrow> KernelError" where
  "from_SyscallError err = KernelError.Syscall err"

definition from_IpcError :: "IpcError \<Rightarrow> KernelError" where
  "from_IpcError err = KernelError.Ipc err"

definition from_HardwareError :: "HardwareError \<Rightarrow> KernelError" where
  "from_HardwareError err = KernelError.Hardware err"

definition from_GeneralError :: "GeneralError \<Rightarrow> KernelError" where
  "from_GeneralError err = KernelError.General err"

text \<open>\<^verbatim>\<open>kerror!(e)\<close>, with the conversion that Rust selects from the type of \<^verbatim>\<open>e\<close>.\<close>

definition kerror :: "('e \<Rightarrow> KernelError) \<Rightarrow> 'e \<Rightarrow> 'a KernelResult" where
  "kerror conv e = Inl (conv e)"

text \<open>The two lines that \<^verbatim>\<open>log_error\<close> prints.\<close>

fun log_error :: "KernelError \<Rightarrow> string list" where
  "log_error err = [''KERNEL ERROR: '' @ KernelError_fmt err,
     (case err of
        KernelError.Memory e \<Rightarrow> ''  Memory subsystem: '' @ AllocError_fmt e
      | KernelError.Process e \<Rightarrow> ''  Process subsystem: '' @ ProcessError_fmt e
      | KernelError.Syscall e \<Rightarrow> ''  Syscall subsystem: '' @ SyscallError_fmt e
      | KernelError.Ipc e \<Rightarrow> ''  IPC subsystem: '' @ IpcError_fmt e
      | KernelError.Hardware e \<Rightarrow> ''  Hardware subsystem: '' @ HardwareError_fmt e
      | KernelError.General e \<Rightarrow> ''  General: '' @ GeneralError_fmt e)]"

datatype RecoveryStrategy = Retry | Skip | Abort | Reboot | Panic

fun get_recovery_strategy :: "KernelError \<Rightarrow> RecoveryStrategy" where
  "get_recovery_strategy (KernelError.Memory AllocError.OutOfMemory) = Abort"
| "get_recovery_strategy (KernelError.Memory _) = Retry"
| "get_recovery_strategy (KernelError.Process _) = Abort"
| "get_recovery_strategy (KernelError.Syscall _) = Skip"
| "get_recovery_strategy (KernelError.Ipc _) = Retry"
| "get_recovery_strategy (KernelError.Hardware HardwareError.DeviceNotFound) = Abort"
| "get_recovery_strategy (KernelError.Hardware _) = Retry"
| "get_recovery_strategy (KernelError.General GeneralError.Internal) = Panic"
| "get_recovery_strategy (KernelError.General _) = Abort"

section \<open>Messages identify errors\<close>

lemma AllocError_fmt_inject: "AllocError_fmt a = AllocError_fmt b \<longleftrightarrow> a = b"
  by (cases a; cases b) simp_all

lemma ProcessError_fmt_inject: "ProcessError_fmt a = ProcessError_fmt b \<longleftrightarrow> a = b"
  by (cases a; cases b) simp_all

lemma SyscallError_fmt_inject: "SyscallError_fmt a = SyscallError_fmt b \<longleftrightarrow> a = b"
  by (cases a; cases b) simp_all

lemma IpcError_fmt_inject: "IpcError_fmt a = IpcError_fmt b \<longleftrightarrow> a = b"
  by (cases a; cases b) simp_all

lemma HardwareError_fmt_inject: "HardwareError_fmt a = HardwareError_fmt b \<longleftrightarrow> a = b"
  by (cases a; cases b) simp_all

lemma GeneralError_fmt_inject: "GeneralError_fmt a = GeneralError_fmt b \<longleftrightarrow> a = b"
  by (cases a; cases b) simp_all

lemmas fmt_inject = AllocError_fmt_inject ProcessError_fmt_inject SyscallError_fmt_inject
  IpcError_fmt_inject HardwareError_fmt_inject GeneralError_fmt_inject

lemma KernelError_fmt_inject: "KernelError_fmt a = KernelError_fmt b \<longleftrightarrow> a = b"
  by (cases a; cases b) (simp_all add: fmt_inject)

section \<open>Properties\<close>

text \<open>
  Log lines identify errors. The two lines that the kernel logs determine the error value,
  and equal log lines mean the same recovery strategy; the strategy is \<open>Panic\<close> exactly for
  the internal error, and \<open>Reboot\<close> is never chosen.
\<close>

theorem log_error_identifies:
  "(log_error a = log_error b \<longleftrightarrow> a = b)
   \<and> (get_recovery_strategy a = Panic \<longleftrightarrow> a = from_GeneralError GeneralError.Internal)
   \<and> get_recovery_strategy a \<noteq> Reboot"
proof (intro conjI)
  show "log_error a = log_error b \<longleftrightarrow> a = b" by (auto simp: KernelError_fmt_inject)
  show "get_recovery_strategy a = Panic \<longleftrightarrow> a = from_GeneralError GeneralError.Internal"
    by (cases a rule: get_recovery_strategy.cases) (simp_all add: from_GeneralError_def)
  show "get_recovery_strategy a \<noteq> Reboot"
    by (cases a rule: get_recovery_strategy.cases) simp_all
qed

end
