(* ===== verification/Ruix_Interfaces.thy ===== *)
theory Ruix_Interfaces
  imports Ruix_Prelude
begin

text \<open>
  The contracts that several components of the kernel share, as locales, with the lemmas that
  their clients need proved once: state machines that keep an invariant, FIFO conservation,
  sources of identifiers, ordered maps and registries of records found by identifier. The last
  section models the operations of \<^verbatim>\<open>alloc::collections::BTreeMap\<close> that the sources use
  (insertion, removal, lookup, iteration in key order) and interprets the ordered map contract
  on them.
\<close>

section \<open>Runs of operations\<close>

text \<open>
  A run applies the operations from left to right; \<open>outputs\<close> collects what an observation of
  each operation (made in the state in which it is called) yields along the run.
\<close>

abbreviation run :: "('op \<Rightarrow> 's \<Rightarrow> 's) \<Rightarrow> 'op list \<Rightarrow> 's \<Rightarrow> 's" where
  "run step ops s \<equiv> fold step ops s"

fun outputs :: "('op \<Rightarrow> 's \<Rightarrow> 'a list) \<Rightarrow> ('op \<Rightarrow> 's \<Rightarrow> 's) \<Rightarrow> 'op list \<Rightarrow> 's \<Rightarrow> 'a list" where
  "outputs obs step [] s = []"
| "outputs obs step (x # xs) s = obs x s @ outputs obs step xs (step x s)"

locale invariant_system =
  fixes step :: "'op \<Rightarrow> 's \<Rightarrow> 's"
    and inv :: "'s \<Rightarrow> bool"
  assumes inv_step: "inv s \<Longrightarrow> inv (step x s)"
begin

lemma inv_run: "inv s \<Longrightarrow> inv (run step xs s)"
  by (induction xs arbitrary: s) (auto intro: inv_step)

end

text \<open>
  FIFO conservation: what a queue holds, followed by what a step puts in, is what the step takes
  out followed by what the queue holds afterwards. Over a run this says that elements leave in
  the order in which they entered and that none is lost or duplicated.
\<close>

locale fifo = invariant_system step inv
  for step :: "'op \<Rightarrow> 's \<Rightarrow> 's" and inv :: "'s \<Rightarrow> bool" +
  fixes taken :: "'op \<Rightarrow> 's \<Rightarrow> 'a list"
    and given :: "'op \<Rightarrow> 's \<Rightarrow> 'a list"
    and content :: "'s \<Rightarrow> 'a list"
    and capacity :: nat
  assumes conserve: "inv s \<Longrightarrow> content s @ taken x s = given x s @ content (step x s)"
    and bounded: "inv s \<Longrightarrow> length (content s) \<le> capacity"
begin

lemma conserve_run:
  "inv s \<Longrightarrow> content s @ outputs taken step xs s = outputs given step xs s @ content (run step xs s)"
proof (induction xs arbitrary: s)
  case Nil
  then show ?case by simp
next
  case (Cons x xs)
  have "content s @ outputs taken step (x # xs) s
      = given x s @ content (step x s) @ outputs taken step xs (step x s)"
    using conserve [OF Cons.prems, of x] by simp
  also have "\<dots> = given x s @ outputs given step xs (step x s) @ content (run step xs (step x s))"
    using Cons.IH [OF inv_step [OF Cons.prems]] by simp
  finally show ?case by simp
qed

lemma bounded_run: "inv s \<Longrightarrow> length (content (run step xs s)) \<le> capacity"
  by (intro bounded inv_run)

lemma given_prefix:
  assumes "inv s" and "content s = []"
  shows "\<exists>rest. outputs taken step xs s = outputs given step xs s @ rest \<and> length rest \<le> capacity"
  using conserve_run [OF assms(1), of xs] assms bounded_run [OF assms(1), of xs] by auto

end

text \<open>
  A source of identifiers: a step either issues nothing and leaves the counter alone, or issues
  the counter's value and increments it.
\<close>

locale id_source =
  fixes step :: "'op \<Rightarrow> 's \<Rightarrow> 's"
    and issued :: "'op \<Rightarrow> 's \<Rightarrow> u64 list"
    and counter :: "'s \<Rightarrow> u64"
  assumes issue: "issued x s = [] \<and> counter (step x s) = counter s
      \<or> issued x s = [counter s] \<and> counter (step x s) = counter s + 1"
begin

lemma issued_run:
  "outputs issued step xs s
     = map (\<lambda>i. counter s + of_nat i) [0..<length (outputs issued step xs s)]"
proof (induction xs arbitrary: s)
  case Nil
  then show ?case by simp
next
  case (Cons x xs)
  let ?n = "length (outputs issued step xs (step x s))"
  from issue [of x s] show ?case
  proof
    assume "issued x s = [] \<and> counter (step x s) = counter s"
    with Cons.IH [of "step x s"] show ?thesis by simp
  next
    assume i: "issued x s = [counter s] \<and> counter (step x s) = counter s + 1"
    with Cons.IH [of "step x s"] have
      "outputs issued step xs (step x s) = map (\<lambda>i. counter s + of_nat (Suc i)) [0..<?n]"
      by (simp add: add.commute add.left_commute)
    also have "\<dots> = map (\<lambda>i. counter s + of_nat i) [Suc 0..<Suc ?n]"
      by (simp add: map_Suc_upt [symmetric] del: upt_Suc)
    finally have "outputs issued step (x # xs) s
        = (counter s + of_nat 0) # map (\<lambda>i. counter s + of_nat i) [Suc 0..<Suc ?n]"
      using i by simp
    also have "\<dots> = map (\<lambda>i. counter s + of_nat i) [0..<Suc ?n]"
      by (simp add: upt_conv_Cons del: upt_Suc)
    finally show ?thesis using i by simp
  qed
qed

lemma issued_distinct:
  assumes "length (outputs issued step xs s) \<le> 2 ^ 64"
  shows "distinct (outputs issued step xs s)"
proof -
  have "inj_on (\<lambda>i. counter s + of_nat i) {0..<length (outputs issued step xs s)}"
  proof (rule inj_onI)
    fix i j
    assume "i \<in> {0..<length (outputs issued step xs s)}"
      and "j \<in> {0..<length (outputs issued step xs s)}"
      and eq: "counter s + of_nat i = counter s + of_nat j"
    with assms have "i < 2 ^ 64" and "j < 2 ^ 64" by auto
    moreover from eq have "unat (of_nat i :: u64) = unat (of_nat j :: u64)" by simp
    ultimately show "i = j" by (simp add: unat_of_nat)
  qed
  then show ?thesis
    by (subst issued_run) (simp add: distinct_map)
qed

end

section \<open>Records found by identifier\<close>

text \<open>
  A registry keeps records under unique identifiers; \<open>modify\<close> changes the record with a given
  identifier in place.
\<close>

locale registry =
  fixes key :: "'a \<Rightarrow> 'k"
    and lookup :: "'k \<Rightarrow> 'r \<Rightarrow> 'a option"
    and modify :: "'k \<Rightarrow> ('a \<Rightarrow> 'a) \<Rightarrow> 'r \<Rightarrow> 'r"
    and elements :: "'r \<Rightarrow> 'a list"
    and inv :: "'r \<Rightarrow> bool"
  assumes lookup_iff: "inv r \<Longrightarrow> lookup k r = Some x \<longleftrightarrow> x \<in> set (elements r) \<and> key x = k"
    and elements_modify:
      "inv r \<Longrightarrow> (\<And>x. key (f x) = key x) \<Longrightarrow>
         elements (modify k f r) = map (\<lambda>x. if key x = k then f x else x) (elements r)"
    and inv_modify: "inv r \<Longrightarrow> (\<And>x. key (f x) = key x) \<Longrightarrow> inv (modify k f r)"
begin

lemma lookup_key: "inv r \<Longrightarrow> lookup k r = Some x \<Longrightarrow> key x = k"
  by (simp add: lookup_iff)

lemma lookup_in: "inv r \<Longrightarrow> lookup k r = Some x \<Longrightarrow> x \<in> set (elements r)"
  by (simp add: lookup_iff)

lemma lookup_None_iff: "inv r \<Longrightarrow> lookup k r = None \<longleftrightarrow> (\<forall>x \<in> set (elements r). key x \<noteq> k)"
  using lookup_iff [of r k] by (cases "lookup k r") auto

lemma lookup_modify:
  assumes "inv r" and "\<And>x. key (f x) = key x"
  shows "lookup k (modify k' f r) = (if k = k' then map_option f (lookup k r) else lookup k r)"
proof -
  have i: "inv (modify k' f r)" using assms by (rule inv_modify)
  show ?thesis
  proof (cases "lookup k r")
    case None
    then have "\<forall>x \<in> set (elements r). key x \<noteq> k" using assms(1) by (simp add: lookup_None_iff)
    then have "lookup k (modify k' f r) = None"
      using assms i by (auto simp: lookup_None_iff elements_modify)
    with None show ?thesis by auto
  next
    case (Some x)
    then have x: "x \<in> set (elements r)" "key x = k" using assms(1) by (simp_all add: lookup_iff)
    have "lookup k (modify k' f r) = Some (if key x = k' then f x else x)"
      using x assms i by (subst lookup_iff) (auto simp: elements_modify)
    with Some x show ?thesis by auto
  qed
qed

lemma modify_other: "inv r \<Longrightarrow> (\<And>x. key (f x) = key x) \<Longrightarrow> k \<noteq> k' \<Longrightarrow>
    lookup k (modify k' f r) = lookup k r"
  by (simp add: lookup_modify)

end

text \<open>A list of records, searched for the first match, is a registry when the keys are distinct.\<close>

definition keyed_lookup :: "('a \<Rightarrow> 'k) \<Rightarrow> 'k \<Rightarrow> 'a list \<Rightarrow> 'a option" where
  "keyed_lookup key k xs = find (\<lambda>x. key x = k) xs"

definition keyed_modify :: "('a \<Rightarrow> 'k) \<Rightarrow> 'k \<Rightarrow> ('a \<Rightarrow> 'a) \<Rightarrow> 'a list \<Rightarrow> 'a list" where
  "keyed_modify key k f xs = upd_first (\<lambda>x. key x = k) f xs"

lemma keyed_lookup_iff:
  "distinct (map key xs) \<Longrightarrow> keyed_lookup key k xs = Some x \<longleftrightarrow> x \<in> set xs \<and> key x = k"
  by (induction xs) (auto simp: keyed_lookup_def rev_image_eqI)

lemma keyed_modify_map:
  "distinct (map key xs) \<Longrightarrow> (\<And>x. key (f x) = key x) \<Longrightarrow>
     keyed_modify key k f xs = map (\<lambda>x. if key x = k then f x else x) xs"
proof (induction xs)
  case Nil
  then show ?case by (simp add: keyed_modify_def)
next
  case (Cons x xs)
  have "map (\<lambda>y. if key y = k then f y else y) xs = xs" if "key x = k"
    using that Cons.prems(1) by (intro map_idI) (auto simp: rev_image_eqI)
  with Cons show ?case by (auto simp: keyed_modify_def)
qed

lemma keyed_modify_keys: "(\<And>x. key (f x) = key x) \<Longrightarrow> map key (keyed_modify key k f xs) = map key xs"
  unfolding keyed_modify_def by (rule map_upd_first) simp

interpretation keyed: registry key "keyed_lookup key" "keyed_modify key" "\<lambda>xs. xs"
  "\<lambda>xs. distinct (map key xs)" for key
proof unfold_locales
  fix r :: "'a list" and f k
  assume d: "distinct (map key r)" and f: "\<And>x. key (f x) = key x"
  show "keyed_modify key k f r = map (\<lambda>x. if key x = k then f x else x) r"
    using d f by (rule keyed_modify_map)
  show "distinct (map key (keyed_modify key k f r))"
    using d f by (simp only: keyed_modify_keys)
qed (rule keyed_lookup_iff)

section \<open>Ordered maps\<close>

locale ordered_map =
  fixes get :: "'m \<Rightarrow> 'k::linorder \<Rightarrow> 'v option"
    and insert :: "'k \<Rightarrow> 'v \<Rightarrow> 'm \<Rightarrow> 'm"
    and remove :: "'k \<Rightarrow> 'm \<Rightarrow> 'm"
    and entries :: "'m \<Rightarrow> ('k \<times> 'v) list"
    and inv :: "'m \<Rightarrow> bool"
  assumes get_insert: "inv m \<Longrightarrow> get (insert k v m) = (get m)(k \<mapsto> v)"
    and get_remove: "inv m \<Longrightarrow> get (remove k m) = (get m)(k := None)"
    and entries_get: "inv m \<Longrightarrow> (k, v) \<in> set (entries m) \<longleftrightarrow> get m k = Some v"
    and entries_sorted: "inv m \<Longrightarrow> sorted (map fst (entries m)) \<and> distinct (map fst (entries m))"
    and inv_insert: "inv m \<Longrightarrow> inv (insert k v m)"
    and inv_remove: "inv m \<Longrightarrow> inv (remove k m)"
begin

lemma inv_inserts: "inv m \<Longrightarrow> inv (fold (\<lambda>k. insert k v) ks m)"
  by (induction ks arbitrary: m) (auto intro: inv_insert)

lemma get_inserts:
  "inv m \<Longrightarrow> get (fold (\<lambda>k. insert k v) ks m) = (\<lambda>k. if k \<in> set ks then Some v else get m k)"
  by (induction ks arbitrary: m) (auto simp: get_insert inv_insert fun_eq_iff)

lemma keys_with_value:
  "inv m \<Longrightarrow> set (map fst (filter (\<lambda>(k, w). w = v) (entries m))) = {k. get m k = Some v}"
  by (auto simp: entries_get [symmetric] image_iff)

end

text \<open>\<^verbatim>\<open>BTreeMap\<close> as the list of its entries in key order.\<close>

type_synonym ('k, 'v) btree_map = "('k \<times> 'v) list"

fun btree_insert :: "'k::linorder \<Rightarrow> 'v \<Rightarrow> ('k, 'v) btree_map \<Rightarrow> ('k, 'v) btree_map" where
  "btree_insert k v [] = [(k, v)]"
| "btree_insert k v ((l, w) # m) =
     (if k < l then (k, v) # (l, w) # m
      else if k = l then (k, v) # m
      else (l, w) # btree_insert k v m)"

fun btree_remove :: "'k::linorder \<Rightarrow> ('k, 'v) btree_map \<Rightarrow> ('k, 'v) btree_map" where
  "btree_remove k [] = []"
| "btree_remove k ((l, w) # m) = (if k = l then m else (l, w) # btree_remove k m)"

definition btree_wf :: "('k::linorder, 'v) btree_map \<Rightarrow> bool" where
  "btree_wf m \<longleftrightarrow> sorted_wrt (<) (map fst m)"

lemma btree_wf_Nil [simp]: "btree_wf []"
  by (simp add: btree_wf_def)

lemma btree_wf_Cons: "btree_wf ((k, v) # m) \<longleftrightarrow> (\<forall>l \<in> fst ` set m. k < l) \<and> btree_wf m"
  by (simp add: btree_wf_def)

lemma fst_btree_insert: "fst ` set (btree_insert k v m) = insert k (fst ` set m)"
  by (induction k v m rule: btree_insert.induct) auto

lemma fst_btree_remove: "fst ` set (btree_remove k m) \<subseteq> fst ` set m"
  by (induction k m rule: btree_remove.induct) auto

lemma btree_insert_wf: "btree_wf m \<Longrightarrow> btree_wf (btree_insert k v m)"
  by (induction k v m rule: btree_insert.induct) (auto simp: btree_wf_Cons fst_btree_insert)

lemma btree_remove_wf: "btree_wf m \<Longrightarrow> btree_wf (btree_remove k m)"
  using fst_btree_remove
  by (induction k m rule: btree_remove.induct) (fastforce simp: btree_wf_Cons)+

lemma btree_get_insert: "map_of (btree_insert k v m) = (map_of m)(k \<mapsto> v)"
  by (induction k v m rule: btree_insert.induct) auto

lemma btree_get_remove: "btree_wf m \<Longrightarrow> map_of (btree_remove k m) = (map_of m)(k := None)"
proof (induction k m rule: btree_remove.induct)
  case (1 k)
  then show ?case by simp
next
  case (2 k l w m)
  have "map_of m l = None"
    using 2(2) by (auto simp: btree_wf_Cons map_of_eq_None_iff)
  with 2 show ?case by (auto simp: btree_wf_Cons fun_eq_iff)
qed

interpretation btm: ordered_map map_of btree_insert btree_remove "\<lambda>m. m" btree_wf
proof unfold_locales
  fix m :: "('a \<times> 'b) list" and k v
  assume "btree_wf m"
  then have d: "distinct (map fst m)" and "sorted (map fst m)"
    by (simp_all add: btree_wf_def strict_sorted_iff)
  then show "sorted (map fst m) \<and> distinct (map fst m)" by simp
  from d show "(k, v) \<in> set m \<longleftrightarrow> map_of m k = Some v" by simp
qed (simp_all add: btree_get_insert btree_get_remove btree_insert_wf btree_remove_wf)

end
