(* ===== verification/Ruix_Channel.thy ===== *)
theory Ruix_Channel
  imports Ruix_Error Ruix_Interfaces
begin

text \<open>
  Message passing (\<^verbatim>\<open>src/ipc.rs\<close>, first half): messages with a fixed 256 byte buffer,
  bidirectional channels with one bounded queue per direction, and the registry that owns the
  channels and numbers them. The channel and message operations of the module
  \<^verbatim>\<open>syscalls\<close> are here as well; the current process is an argument, read by the caller from
  the CPU data.
\<close>

section \<open>Messages\<close>

definition MAX_QUEUE_SIZE :: nat where
  "MAX_QUEUE_SIZE = 1000"

record Message =
  sender_pid :: u64
  msg_type :: u32
  msg_data :: "u8 list"
  data_len :: nat

text \<open>
  \<^verbatim>\<open>msg_data[..len].copy_from_slice(&data[..len])\<close> on a zeroed array of 256 bytes.
\<close>

definition Message_new :: "u64 \<Rightarrow> u32 \<Rightarrow> u8 list \<Rightarrow> Message" where
  "Message_new sender mtype data =
     (let buf = replicate 256 0; len = min (length data) 256
      in \<lparr>sender_pid = sender, msg_type = mtype,
          msg_data = take len data @ drop len buf, data_len = len\<rparr>)"

definition Message_data :: "Message \<Rightarrow> u8 list" where
  "Message_data m = take (data_len m) (msg_data m)"

definition Message_wf :: "Message \<Rightarrow> bool" where
  "Message_wf m \<longleftrightarrow> length (msg_data m) = 256 \<and> data_len m \<le> 256"

lemma Message_new_wf [simp, intro]: "Message_wf (Message_new s t d)"
  by (simp add: Message_wf_def Message_new_def Let_def)

lemma Message_data_new: "Message_data (Message_new s t d) = take 256 d"
  by (simp add: Message_data_def Message_new_def Let_def min_def)

lemma Message_new_sender [simp]: "sender_pid (Message_new s t d) = s"
  and Message_new_type [simp]: "msg_type (Message_new s t d) = t"
  by (simp_all add: Message_new_def Let_def)

section \<open>Channels\<close>

record Channel =
  ch_id :: u64
  endpoint1 :: u64
  endpoint2 :: u64
  queue1_to_2 :: "Message list"
  queue2_to_1 :: "Message list"

definition Channel_new :: "u64 \<Rightarrow> u64 \<Rightarrow> u64 \<Rightarrow> Channel" where
  "Channel_new i pid1 pid2 =
     \<lparr>ch_id = i, endpoint1 = pid1, endpoint2 = pid2, queue1_to_2 = [], queue2_to_1 = []\<rparr>"

definition Channel_send :: "u64 \<Rightarrow> Message \<Rightarrow> Channel \<Rightarrow> (IpcError + unit) \<times> Channel" where
  "Channel_send sender message c =
     (if sender = endpoint1 c then
        if MAX_QUEUE_SIZE \<le> length (queue1_to_2 c) then (Inl IpcError.ChannelFull, c)
        else (Inr (), c\<lparr>queue1_to_2 := queue1_to_2 c @ [message]\<rparr>)
      else if sender = endpoint2 c then
        if MAX_QUEUE_SIZE \<le> length (queue2_to_1 c) then (Inl IpcError.ChannelFull, c)
        else (Inr (), c\<lparr>queue2_to_1 := queue2_to_1 c @ [message]\<rparr>)
      else (Inl IpcError.InvalidSender, c))"

text \<open>\<^verbatim>\<open>VecDeque::pop_front\<close>.\<close>

fun pop_front :: "'a list \<Rightarrow> 'a option \<times> 'a list" where
  "pop_front [] = (None, [])"
| "pop_front (x # xs) = (Some x, xs)"

definition Channel_receive :: "u64 \<Rightarrow> Channel \<Rightarrow> Message option \<times> Channel" where
  "Channel_receive receiver c =
     (if receiver = endpoint1 c then
        (case pop_front (queue2_to_1 c) of (m, q) \<Rightarrow> (m, c\<lparr>queue2_to_1 := q\<rparr>))
      else if receiver = endpoint2 c then
        (case pop_front (queue1_to_2 c) of (m, q) \<Rightarrow> (m, c\<lparr>queue1_to_2 := q\<rparr>))
      else (None, c))"

definition has_endpoint :: "u64 \<Rightarrow> Channel \<Rightarrow> bool" where
  "has_endpoint pid c \<longleftrightarrow> pid = endpoint1 c \<or> pid = endpoint2 c"

section \<open>The registry\<close>

record ChannelRegistry =
  channels :: "Channel list"
  next_id :: u64

definition ChannelRegistry_new :: ChannelRegistry where
  "ChannelRegistry_new = \<lparr>channels = [], next_id = 1\<rparr>"

definition ChannelRegistry_create_channel ::
    "u64 \<Rightarrow> u64 \<Rightarrow> ChannelRegistry \<Rightarrow> (IpcError + u64) \<times> ChannelRegistry" where
  "ChannelRegistry_create_channel pid1 pid2 r =
     (let channel_id = next_id r
      in (Inr channel_id,
          r\<lparr>next_id := next_id r + 1, channels := channels r @ [Channel_new channel_id pid1 pid2]\<rparr>))"

definition get_channel :: "u64 \<Rightarrow> ChannelRegistry \<Rightarrow> Channel option" where
  "get_channel channel_id r = find (\<lambda>c. ch_id c = channel_id) (channels r)"

text \<open>
  A call of \<^verbatim>\<open>get_channel_mut\<close> followed by a mutation through the reference it
  returns.
\<close>

definition get_channel_mut :: "u64 \<Rightarrow> (Channel \<Rightarrow> Channel) \<Rightarrow> ChannelRegistry \<Rightarrow> ChannelRegistry" where
  "get_channel_mut channel_id f r = r\<lparr>channels := upd_first (\<lambda>c. ch_id c = channel_id) f (channels r)\<rparr>"

definition get_channels_for_process :: "u64 \<Rightarrow> ChannelRegistry \<Rightarrow> Channel list" where
  "get_channels_for_process pid r = filter (has_endpoint pid) (channels r)"

definition cleanup_process_channels :: "u64 \<Rightarrow> ChannelRegistry \<Rightarrow> ChannelRegistry" where
  "cleanup_process_channels pid r =
     (let channels_to_remove = map ch_id (filter (has_endpoint pid) (channels r))
      in fold (\<lambda>channel_id r'. r'\<lparr>channels := filter (\<lambda>c. ch_id c \<noteq> channel_id) (channels r')\<rparr>)
           channels_to_remove r)"

section \<open>System calls on channels\<close>

definition ipc_create_channel :: "u64 \<Rightarrow> u64 \<Rightarrow> ChannelRegistry \<Rightarrow> (IpcError + u64) \<times> ChannelRegistry" where
  "ipc_create_channel current_pid target_pid r =
     (if current_pid = target_pid then (Inl IpcError.CircularTransfer, r)
      else ChannelRegistry_create_channel current_pid target_pid r)"

definition ipc_send_message ::
    "u64 \<Rightarrow> u64 \<Rightarrow> u32 \<Rightarrow> u8 list \<Rightarrow> ChannelRegistry \<Rightarrow> (IpcError + unit) \<times> ChannelRegistry" where
  "ipc_send_message current_pid channel_id mtype data r =
     (let message = Message_new current_pid mtype data
      in case get_channel channel_id r of
           Some c \<Rightarrow> (fst (Channel_send current_pid message c),
                      get_channel_mut channel_id (\<lambda>c. snd (Channel_send current_pid message c)) r)
         | None \<Rightarrow> (Inl IpcError.ChannelNotFound, r))"

definition ipc_receive_message ::
    "u64 \<Rightarrow> u64 \<Rightarrow> ChannelRegistry \<Rightarrow> (IpcError + Message option) \<times> ChannelRegistry" where
  "ipc_receive_message current_pid channel_id r =
     (case get_channel channel_id r of
        Some c \<Rightarrow> (Inr (fst (Channel_receive current_pid c)),
                   get_channel_mut channel_id (\<lambda>c. snd (Channel_receive current_pid c)) r)
      | None \<Rightarrow> (Inl IpcError.ChannelNotFound, r))"

section \<open>One channel: conservation in both directions\<close>

text \<open>
  The operations of a channel as events, issued by any process in any order. What process
  \<open>e\<close> put into the channel and what process \<open>e\<close> got out of it are observed through the results
  of the operations themselves.
\<close>

datatype channel_op = Send u64 Message | Receive u64

fun channel_step :: "channel_op \<Rightarrow> Channel \<Rightarrow> Channel" where
  "channel_step (Send p m) c = snd (Channel_send p m c)"
| "channel_step (Receive p) c = snd (Channel_receive p c)"

fun sent_by :: "u64 \<Rightarrow> channel_op \<Rightarrow> Channel \<Rightarrow> Message list" where
  "sent_by e (Send p m) c = (if p = e \<and> fst (Channel_send p m c) = Inr () then [m] else [])"
| "sent_by e (Receive p) c = []"

fun received_by :: "u64 \<Rightarrow> channel_op \<Rightarrow> Channel \<Rightarrow> Message list" where
  "received_by e (Send p m) c = []"
| "received_by e (Receive p) c =
     (if p = e then (case fst (Channel_receive p c) of Some m \<Rightarrow> [m] | None \<Rightarrow> []) else [])"

definition Channel_inv :: "u64 \<Rightarrow> u64 \<Rightarrow> Channel \<Rightarrow> bool" where
  "Channel_inv e1 e2 c \<longleftrightarrow> endpoint1 c = e1 \<and> endpoint2 c = e2 \<and> e1 \<noteq> e2
     \<and> length (queue1_to_2 c) \<le> MAX_QUEUE_SIZE \<and> length (queue2_to_1 c) \<le> MAX_QUEUE_SIZE"

lemma Channel_new_inv: "pid1 \<noteq> pid2 \<Longrightarrow> Channel_inv pid1 pid2 (Channel_new i pid1 pid2)"
  by (simp add: Channel_inv_def Channel_new_def)

lemma Channel_send_frame [simp]:
  "ch_id (snd (Channel_send p m c)) = ch_id c"
  "endpoint1 (snd (Channel_send p m c)) = endpoint1 c"
  "endpoint2 (snd (Channel_send p m c)) = endpoint2 c"
  by (simp_all add: Channel_send_def)

lemma Channel_receive_frame [simp]:
  "ch_id (snd (Channel_receive p c)) = ch_id c"
  "endpoint1 (snd (Channel_receive p c)) = endpoint1 c"
  "endpoint2 (snd (Channel_receive p c)) = endpoint2 c"
  by (simp_all add: Channel_receive_def split: prod.splits)

lemma pop_front_length: "length (snd (pop_front q)) \<le> length q"
  by (cases q) auto

lemma pop_front_set: "set (snd (pop_front q)) \<subseteq> set q"
  by (cases q) auto

lemma pop_front_conserve: "q = (case fst (pop_front q) of Some m \<Rightarrow> [m] | None \<Rightarrow> []) @ snd (pop_front q)"
  by (cases q) auto

lemma Channel_send_length:
  assumes "length (queue1_to_2 c) \<le> MAX_QUEUE_SIZE" and "length (queue2_to_1 c) \<le> MAX_QUEUE_SIZE"
  shows "length (queue1_to_2 (snd (Channel_send p m c))) \<le> MAX_QUEUE_SIZE
    \<and> length (queue2_to_1 (snd (Channel_send p m c))) \<le> MAX_QUEUE_SIZE"
  using assms by (auto simp: Channel_send_def)

lemma Channel_receive_length:
  "length (queue1_to_2 (snd (Channel_receive p c))) \<le> length (queue1_to_2 c)
   \<and> length (queue2_to_1 (snd (Channel_receive p c))) \<le> length (queue2_to_1 c)"
  using pop_front_length [of "queue1_to_2 c"] pop_front_length [of "queue2_to_1 c"]
  by (auto simp: Channel_receive_def split: prod.splits)

lemma channel_step_inv [ruix_inv]: "Channel_inv e1 e2 c \<Longrightarrow> Channel_inv e1 e2 (channel_step x c)"
proof (cases x)
  case (Send p m)
  assume "Channel_inv e1 e2 c"
  with Send show ?thesis
    using Channel_send_length [of c p m] by (simp add: Channel_inv_def)
next
  case (Receive p)
  assume "Channel_inv e1 e2 c"
  with Receive show ?thesis
    using Channel_receive_length [of p c] by (auto simp: Channel_inv_def)
qed

lemma conserve_forward:
  assumes "Channel_inv e1 e2 c"
  shows "queue1_to_2 c @ sent_by e1 x c = received_by e2 x c @ queue1_to_2 (channel_step x c)"
proof (cases x)
  case (Send p m)
  with assms show ?thesis by (auto simp: Channel_inv_def Channel_send_def)
next
  case (Receive p)
  with assms show ?thesis
    using pop_front_conserve [of "queue1_to_2 c"]
    by (auto simp: Channel_inv_def Channel_receive_def split: prod.splits)
qed

lemma conserve_backward:
  assumes "Channel_inv e1 e2 c"
  shows "queue2_to_1 c @ sent_by e2 x c = received_by e1 x c @ queue2_to_1 (channel_step x c)"
proof (cases x)
  case (Send p m)
  with assms show ?thesis by (auto simp: Channel_inv_def Channel_send_def)
next
  case (Receive p)
  with assms show ?thesis
    using pop_front_conserve [of "queue2_to_1 c"]
    by (auto simp: Channel_inv_def Channel_receive_def split: prod.splits)
qed

interpretation forward: fifo channel_step "Channel_inv e1 e2" "sent_by e1" "received_by e2"
  queue1_to_2 MAX_QUEUE_SIZE for e1 e2
  by unfold_locales (simp_all add: channel_step_inv conserve_forward, simp add: Channel_inv_def)

interpretation backward: fifo channel_step "Channel_inv e1 e2" "sent_by e2" "received_by e1"
  queue2_to_1 MAX_QUEUE_SIZE for e1 e2
  by unfold_locales (simp_all add: conserve_backward, simp add: Channel_inv_def)

section \<open>The registry through its system calls\<close>

datatype ipc_op = CreateChannel u64 u64 | SendMessage u64 u64 u32 "u8 list" | ReceiveMessage u64 u64

fun ipc_step :: "ipc_op \<Rightarrow> ChannelRegistry \<Rightarrow> ChannelRegistry" where
  "ipc_step (CreateChannel cur tgt) r = snd (ipc_create_channel cur tgt r)"
| "ipc_step (SendMessage cur ch ty d) r = snd (ipc_send_message cur ch ty d r)"
| "ipc_step (ReceiveMessage cur ch) r = snd (ipc_receive_message cur ch r)"

text \<open>
  The messages that the calls of process \<open>e\<close> on channel \<open>k\<close> put in and got out, and the
  identifiers that channel creation handed out.
\<close>

fun messages_sent :: "u64 \<Rightarrow> u64 \<Rightarrow> ipc_op \<Rightarrow> ChannelRegistry \<Rightarrow> Message list" where
  "messages_sent k e (SendMessage cur ch ty d) r =
     (if ch = k \<and> cur = e \<and> fst (ipc_send_message cur ch ty d r) = Inr ()
      then [Message_new cur ty d] else [])"
| "messages_sent k e _ r = []"

fun messages_received :: "u64 \<Rightarrow> u64 \<Rightarrow> ipc_op \<Rightarrow> ChannelRegistry \<Rightarrow> Message list" where
  "messages_received k e (ReceiveMessage cur ch) r =
     (if ch = k \<and> cur = e
      then case fst (ipc_receive_message cur ch r) of Inr (Some m) \<Rightarrow> [m] | _ \<Rightarrow> []
      else [])"
| "messages_received k e _ r = []"

fun channels_issued :: "ipc_op \<Rightarrow> ChannelRegistry \<Rightarrow> u64 list" where
  "channels_issued (CreateChannel cur tgt) r =
     (case fst (ipc_create_channel cur tgt r) of Inr i \<Rightarrow> [i] | Inl _ \<Rightarrow> [])"
| "channels_issued _ r = []"

text \<open>What a call does to channel \<open>k\<close>, as an event of that channel.\<close>

fun channel_event :: "u64 \<Rightarrow> ipc_op \<Rightarrow> channel_op option" where
  "channel_event k (SendMessage cur ch ty d) = (if ch = k then Some (Send cur (Message_new cur ty d)) else None)"
| "channel_event k (ReceiveMessage cur ch) = (if ch = k then Some (Receive cur) else None)"
| "channel_event k (CreateChannel cur tgt) = None"

lemma get_channel_mut_lookup:
  assumes "\<And>c. ch_id (f c) = ch_id c"
  shows "get_channel k (get_channel_mut k' f r)
    = (if k = k' then map_option f (get_channel k r) else get_channel k r)"
  using assms
  by (auto simp: get_channel_def get_channel_mut_def find_upd_first_same intro!: find_upd_first_other)

lemma get_channel_create:
  "get_channel k r = Some c \<Longrightarrow> get_channel k (snd (ipc_create_channel cur tgt r)) = Some c"
  by (auto simp: get_channel_def ipc_create_channel_def ChannelRegistry_create_channel_def Let_def
      find_append_Some)

lemma ipc_step_channel:
  assumes "get_channel k r = Some c"
  shows "get_channel k (ipc_step x r)
    = Some (case channel_event k x of Some ev \<Rightarrow> channel_step ev c | None \<Rightarrow> c)"
  using assms
  by (cases x)
    (auto simp: get_channel_create ipc_send_message_def ipc_receive_message_def Let_def
      get_channel_mut_lookup split: option.splits)

lemma messages_sent_event:
  assumes "get_channel k r = Some c"
  shows "messages_sent k e x r = (case channel_event k x of Some ev \<Rightarrow> sent_by e ev c | None \<Rightarrow> [])"
  using assms by (cases x) (auto simp: ipc_send_message_def Let_def)

lemma messages_received_event:
  assumes "get_channel k r = Some c"
  shows "messages_received k e x r
    = (case channel_event k x of Some ev \<Rightarrow> received_by e ev c | None \<Rightarrow> [])"
  using assms by (cases x) (auto simp: ipc_receive_message_def split: option.splits)

text \<open>Channel \<open>k\<close> connects \<open>a\<close> and \<open>b\<close>, in either order; the messages waiting for \<open>b\<close>.\<close>

definition channel_between :: "u64 \<Rightarrow> u64 \<Rightarrow> u64 \<Rightarrow> ChannelRegistry \<Rightarrow> bool" where
  "channel_between k a b r \<longleftrightarrow>
     (\<exists>c. get_channel k r = Some c \<and> (Channel_inv a b c \<or> Channel_inv b a c))"

definition pending :: "u64 \<Rightarrow> u64 \<Rightarrow> ChannelRegistry \<Rightarrow> Message list" where
  "pending k b r = (case get_channel k r of
       Some c \<Rightarrow> if b = endpoint1 c then queue2_to_1 c else queue1_to_2 c
     | None \<Rightarrow> [])"

lemma channel_between_step:
  "channel_between k a b r \<Longrightarrow> channel_between k a b (ipc_step x r)"
  by (auto simp: channel_between_def ipc_step_channel channel_step_inv split: option.splits)

lemma channel_between_conserve:
  assumes "channel_between k a b r"
  shows "pending k b r @ messages_sent k a x r = messages_received k b x r @ pending k b (ipc_step x r)"
proof -
  from assms obtain c where c: "get_channel k r = Some c"
    and inv: "Channel_inv a b c \<or> Channel_inv b a c" by (auto simp: channel_between_def)
  show ?thesis
  proof (cases "channel_event k x")
    case None
    with c show ?thesis
      by (simp add: messages_sent_event messages_received_event pending_def ipc_step_channel)
  next
    case (Some ev)
    have frame: "endpoint1 (channel_step ev c) = endpoint1 c" by (cases ev) simp_all
    from inv show ?thesis
    proof
      assume i: "Channel_inv a b c"
      then have "b \<noteq> endpoint1 c" by (auto simp: Channel_inv_def)
      with forward.conserve [OF i, of ev] c Some frame show ?thesis
        by (simp add: messages_sent_event messages_received_event pending_def ipc_step_channel)
    next
      assume i: "Channel_inv b a c"
      then have "b = endpoint1 c" by (auto simp: Channel_inv_def)
      with backward.conserve [OF i, of ev] c Some frame show ?thesis
        by (simp add: messages_sent_event messages_received_event pending_def ipc_step_channel)
    qed
  qed
qed

lemma channel_between_bounded: "channel_between k a b r \<Longrightarrow> length (pending k b r) \<le> MAX_QUEUE_SIZE"
  by (auto simp: channel_between_def pending_def Channel_inv_def)

interpretation mailbox: fifo ipc_step "channel_between k a b" "messages_sent k a"
  "messages_received k b" "pending k b" MAX_QUEUE_SIZE for k a b
  by unfold_locales
    (simp_all add: channel_between_step channel_between_conserve channel_between_bounded)

interpretation channel_ids: id_source ipc_step channels_issued next_id
proof unfold_locales
  fix x r
  show "channels_issued x r = [] \<and> next_id (ipc_step x r) = next_id r
      \<or> channels_issued x r = [next_id r] \<and> next_id (ipc_step x r) = next_id r + 1"
    by (cases x)
      (auto simp: ipc_create_channel_def ChannelRegistry_create_channel_def Let_def
        ipc_send_message_def ipc_receive_message_def get_channel_mut_def split: option.splits)
qed

section \<open>The registry's invariant\<close>

text \<open>
  A channel of a well-formed registry connects two different processes, its queues respect the
  bound, and every queued message is well formed and carries the sender that its direction
  implies. Identifiers are unique, not zero and below the counter.
\<close>

definition Channel_ok :: "Channel \<Rightarrow> bool" where
  "Channel_ok c \<longleftrightarrow> Channel_inv (endpoint1 c) (endpoint2 c) c
     \<and> (\<forall>m \<in> set (queue1_to_2 c). sender_pid m = endpoint1 c \<and> Message_wf m)
     \<and> (\<forall>m \<in> set (queue2_to_1 c). sender_pid m = endpoint2 c \<and> Message_wf m)"

definition ChannelRegistry_inv :: "ChannelRegistry \<Rightarrow> bool" where
  "ChannelRegistry_inv r \<longleftrightarrow> distinct (map ch_id (channels r)) \<and> 0 < unat (next_id r)
     \<and> (\<forall>c \<in> set (channels r). Channel_ok c \<and> ch_id c \<noteq> 0 \<and> unat (ch_id c) < unat (next_id r))"

lemma Channel_ok_new: "pid1 \<noteq> pid2 \<Longrightarrow> Channel_ok (Channel_new i pid1 pid2)"
  by (simp add: Channel_ok_def Channel_new_def Channel_inv_def)

lemma Channel_ok_send:
  assumes "Channel_ok c" and "sender_pid m = p" and "Message_wf m"
  shows "Channel_ok (snd (Channel_send p m c))"
proof -
  from assms(1) have "Channel_inv (endpoint1 c) (endpoint2 c) (channel_step (Send p m) c)"
    unfolding Channel_ok_def by (blast intro: channel_step_inv)
  with assms show ?thesis by (auto simp: Channel_ok_def Channel_send_def)
qed

lemma Channel_ok_receive:
  assumes "Channel_ok c"
  shows "Channel_ok (snd (Channel_receive p c))"
proof -
  from assms have "Channel_inv (endpoint1 c) (endpoint2 c) (channel_step (Receive p) c)"
    unfolding Channel_ok_def by (blast intro: channel_step_inv)
  with assms show ?thesis
    using pop_front_set [of "queue1_to_2 c"] pop_front_set [of "queue2_to_1 c"]
    by (auto simp: Channel_ok_def Channel_receive_def split: prod.splits)
qed

lemma ChannelRegistry_new_inv: "ChannelRegistry_inv ChannelRegistry_new"
  by (simp add: ChannelRegistry_inv_def ChannelRegistry_new_def)

lemma ipc_create_channel_inv [ruix_inv]:
  assumes "ChannelRegistry_inv r" and "next_id r \<noteq> - 1"
  shows "ChannelRegistry_inv (snd (ipc_create_channel cur tgt r))"
  using assms unat_Suc_word [OF unat_less_max [OF assms(2)]] Channel_ok_new [of cur tgt "next_id r"]
  by (fastforce simp: ChannelRegistry_inv_def ipc_create_channel_def
      ChannelRegistry_create_channel_def Let_def Channel_new_def)

lemma get_channel_mut_inv:
  assumes "ChannelRegistry_inv r" and "\<And>c. ch_id (f c) = ch_id c" and "\<And>c. Channel_ok c \<Longrightarrow> Channel_ok (f c)"
  shows "ChannelRegistry_inv (get_channel_mut k f r)"
proof -
  have "map ch_id (upd_first (\<lambda>c. ch_id c = k) f (channels r)) = map ch_id (channels r)"
    by (rule map_upd_first) (rule assms(2))
  moreover have "Channel_ok c \<and> ch_id c \<noteq> 0 \<and> unat (ch_id c) < unat (next_id r)"
    if "c \<in> set (upd_first (\<lambda>c. ch_id c = k) f (channels r))" for c
    using set_upd_firstD [OF that] assms by (auto simp: ChannelRegistry_inv_def)
  ultimately show ?thesis
    using assms(1) by (simp add: ChannelRegistry_inv_def get_channel_mut_def)
qed

lemma ipc_send_message_inv [ruix_inv]:
  "ChannelRegistry_inv r \<Longrightarrow> ChannelRegistry_inv (snd (ipc_send_message cur k ty d r))"
  by (auto simp: ipc_send_message_def Let_def Channel_ok_send get_channel_mut_inv split: option.splits)

lemma ipc_receive_message_inv [ruix_inv]:
  "ChannelRegistry_inv r \<Longrightarrow> ChannelRegistry_inv (snd (ipc_receive_message cur k r))"
  by (auto simp: ipc_receive_message_def Channel_ok_receive get_channel_mut_inv split: option.splits)

lemma cleanup_process_channels_ids:
  "cleanup_process_channels pid r = r\<lparr>channels :=
     filter (\<lambda>c. ch_id c \<notin> ch_id ` {d \<in> set (channels r). has_endpoint pid d}) (channels r)\<rparr>"
proof -
  have eq: "fold (\<lambda>i r'. r'\<lparr>channels := filter (\<lambda>c. ch_id c \<noteq> i) (channels r')\<rparr>) ids r'
      = r'\<lparr>channels := filter (\<lambda>c. ch_id c \<notin> set ids) (channels r')\<rparr>" for ids r'
    by (induction ids arbitrary: r') (auto intro!: arg_cong2 [where f = filter])
  show ?thesis unfolding cleanup_process_channels_def Let_def eq by simp
qed

lemma cleanup_process_channels_filter:
  assumes "distinct (map ch_id (channels r))"
  shows "cleanup_process_channels pid r
    = r\<lparr>channels := filter (\<lambda>c. \<not> has_endpoint pid c) (channels r)\<rparr>"
proof -
  have "ch_id c \<in> ch_id ` {d \<in> set (channels r). has_endpoint pid d} \<longleftrightarrow> has_endpoint pid c"
    if "c \<in> set (channels r)" for c
    using assms that by (auto simp: distinct_map inj_on_eq_iff)
  then have "filter (\<lambda>c. ch_id c \<notin> ch_id ` {d \<in> set (channels r). has_endpoint pid d}) (channels r)
      = filter (\<lambda>c. \<not> has_endpoint pid c) (channels r)"
    by (intro filter_cong) auto
  then show ?thesis by (simp add: cleanup_process_channels_ids)
qed

lemma cleanup_process_channels_inv [ruix_inv]:
  "ChannelRegistry_inv r \<Longrightarrow> ChannelRegistry_inv (cleanup_process_channels pid r)"
  by (auto simp: ChannelRegistry_inv_def cleanup_process_channels_filter distinct_map_filter)

lemma receive_authentic:
  assumes "Channel_ok c" and "fst (Channel_receive p c) = Some m"
  shows "Message_wf m \<and> (sender_pid m = endpoint1 c \<and> p = endpoint2 c
    \<or> sender_pid m = endpoint2 c \<and> p = endpoint1 c)"
proof -
  have "fst (pop_front q) = Some m \<Longrightarrow> m \<in> set q" for q :: "Message list" by (cases q) auto
  with assms show ?thesis
    by (auto simp: Channel_ok_def Channel_receive_def split: prod.splits if_splits)
qed

lemma channel_between_sym: "channel_between k a b r \<longleftrightarrow> channel_between k b a r"
  by (auto simp: channel_between_def)

lemma channel_between_created:
  assumes "a \<noteq> b" and "get_channel (next_id r) r = None"
  shows "channel_between (next_id r) a b (snd (ipc_create_channel a b r))
    \<and> pending (next_id r) e (snd (ipc_create_channel a b r)) = []"
proof -
  have "get_channel (next_id r) (snd (ipc_create_channel a b r)) = Some (Channel_new (next_id r) a b)"
    using assms by (simp add: get_channel_def ipc_create_channel_def Let_def
        ChannelRegistry_create_channel_def find_append_None Channel_new_def)
  moreover from this assms(1) have "channel_between (next_id r) a b (snd (ipc_create_channel a b r))"
    by (auto simp: channel_between_def Channel_new_inv)
  ultimately show ?thesis by (simp add: pending_def Channel_new_def)
qed

section \<open>Properties\<close>

text \<open>
  C4 (reliable ordered delivery). Process \<open>a\<close> creates a channel to \<open>b\<close>; afterwards any
  processes issue any channel system calls, on this and on other channels, in any order. In both
  directions, the messages that one endpoint received on the channel, followed by the messages
  still waiting for it, are exactly the messages that the other endpoint sent successfully, in
  order and with their contents; and never more than \<open>MAX_QUEUE_SIZE\<close> messages wait.
\<close>

theorem channel_delivery:
  assumes "a \<noteq> b" and "get_channel (next_id r) r = None"
  defines "k \<equiv> next_id r" and "r1 \<equiv> snd (ipc_create_channel a b r)"
  shows "outputs (messages_sent k a) ipc_step xs r1
      = outputs (messages_received k b) ipc_step xs r1 @ pending k b (run ipc_step xs r1)
    \<and> outputs (messages_sent k b) ipc_step xs r1
      = outputs (messages_received k a) ipc_step xs r1 @ pending k a (run ipc_step xs r1)
    \<and> length (pending k b (run ipc_step xs r1)) \<le> MAX_QUEUE_SIZE
    \<and> length (pending k a (run ipc_step xs r1)) \<le> MAX_QUEUE_SIZE"
proof -
  have c: "channel_between k a b r1" and "pending k b r1 = []" and "pending k a r1 = []"
    using channel_between_created [OF assms(1,2)] by (simp_all add: k_def r1_def)
  moreover from c have d: "channel_between k b a r1" by (simp add: channel_between_sym)
  ultimately show ?thesis
    using mailbox.conserve_run [OF c, of xs] mailbox.bounded_run [OF c, of xs]
      mailbox.conserve_run [OF d, of xs] mailbox.bounded_run [OF d, of xs] by simp
qed

theorem channel_delivery_witness:
  "let r1 = snd (ipc_create_channel 7 9 ChannelRegistry_new);
       xs = [SendMessage 7 1 4 [1, 2], SendMessage 9 1 4 [5], SendMessage 7 1 4 [3],
             ReceiveMessage 9 1, ReceiveMessage 7 1]
   in outputs (messages_sent 1 7) ipc_step xs r1
        = outputs (messages_received 1 9) ipc_step xs r1 @ pending 1 9 (run ipc_step xs r1)
    \<and> outputs (messages_sent 1 9) ipc_step xs r1
        = outputs (messages_received 1 7) ipc_step xs r1 @ pending 1 7 (run ipc_step xs r1)"
  using channel_delivery [of 7 9 ChannelRegistry_new
      "[SendMessage 7 1 4 [1, 2], SendMessage 9 1 4 [5], SendMessage 7 1 4 [3],
        ReceiveMessage 9 1, ReceiveMessage 7 1]"]
  by (simp add: ChannelRegistry_new_def get_channel_def Let_def)

text \<open>
  Authenticity. In a well-formed registry, a message returned by
  \<^verbatim>\<open>receive_message\<close> is well formed and its \<^verbatim>\<open>sender_pid\<close> is the other endpoint of
  the channel that was read, and only an endpoint receives anything.
\<close>

theorem receive_message_authentic:
  assumes "ChannelRegistry_inv r" and "fst (ipc_receive_message cur k r) = Inr (Some m)"
  shows "\<exists>c. get_channel k r = Some c \<and> has_endpoint cur c \<and> has_endpoint (sender_pid m) c
    \<and> sender_pid m \<noteq> cur \<and> Message_wf m"
proof -
  from assms(2) obtain c where c: "get_channel k r = Some c" "fst (Channel_receive cur c) = Some m"
    by (auto simp: ipc_receive_message_def split: option.splits)
  then have "c \<in> set (channels r)" by (auto simp: get_channel_def dest: find_SomeD)
  with assms(1) have "Channel_ok c" by (auto simp: ChannelRegistry_inv_def)
  moreover from this have "endpoint1 c \<noteq> endpoint2 c" by (auto simp: Channel_ok_def Channel_inv_def)
  ultimately show ?thesis
    using receive_authentic [of c cur m] c by (auto simp: has_endpoint_def)
qed

definition example_channels :: ChannelRegistry where
  "example_channels = snd (ipc_send_message 7 1 4 [1, 2] (snd (ipc_create_channel 7 9 ChannelRegistry_new)))"

lemma example_channels_inv: "ChannelRegistry_inv example_channels"
  unfolding example_channels_def
  by (intro ipc_send_message_inv ipc_create_channel_inv ChannelRegistry_new_inv)
    (simp add: ChannelRegistry_new_def)

lemma example_channels_receive:
  "fst (ipc_receive_message 9 1 example_channels) = Inr (Some (Message_new 7 4 [1, 2]))"
  by (simp add: example_channels_def ipc_send_message_def ipc_create_channel_def Let_def
      ChannelRegistry_create_channel_def ChannelRegistry_new_def get_channel_def Channel_new_def
      get_channel_mut_def Channel_send_def MAX_QUEUE_SIZE_def ipc_receive_message_def
      Channel_receive_def)

theorem receive_message_authentic_witness:
  "fst (ipc_receive_message 9 1 example_channels) = Inr (Some (Message_new 7 4 [1, 2]))
   \<and> (\<exists>c. get_channel 1 example_channels = Some c \<and> has_endpoint 9 c \<and> has_endpoint 7 c)"
  using receive_message_authentic [OF example_channels_inv example_channels_receive]
    example_channels_receive by auto

text \<open>
  C28 (isolation of a channel). A process that is not an endpoint of channel \<open>k\<close> cannot put
  anything into it or take anything out of it: its send fails with \<open>InvalidSender\<close>, its
  receive returns no message, and neither call changes what any process finds under any
  channel identifier.
\<close>

theorem channel_isolation:
  assumes "get_channel k r = Some c" and "\<not> has_endpoint p c"
  shows "fst (ipc_send_message p k ty d r) = Inl IpcError.InvalidSender
    \<and> fst (ipc_receive_message p k r) = Inr None
    \<and> get_channel k' (snd (ipc_send_message p k ty d r)) = get_channel k' r
    \<and> get_channel k' (snd (ipc_receive_message p k r)) = get_channel k' r"
proof -
  have "Channel_send p m c = (Inl IpcError.InvalidSender, c)" for m
    using assms(2) by (simp add: Channel_send_def has_endpoint_def)
  moreover have "Channel_receive p c = (None, c)"
    using assms(2) by (simp add: Channel_receive_def has_endpoint_def)
  ultimately show ?thesis
    using assms(1)
    by (auto simp: ipc_send_message_def ipc_receive_message_def Let_def get_channel_mut_lookup)
qed

theorem channel_isolation_witness:
  "fst (ipc_send_message 8 1 0 [6] (snd (ipc_create_channel 7 9 ChannelRegistry_new)))
     = Inl IpcError.InvalidSender"
proof -
  have "get_channel 1 (snd (ipc_create_channel 7 9 ChannelRegistry_new)) = Some (Channel_new 1 7 9)"
    by (simp add: ipc_create_channel_def ChannelRegistry_create_channel_def Let_def
        ChannelRegistry_new_def get_channel_def Channel_new_def)
  from channel_isolation [OF this, of 8 0 "[6]"] show ?thesis
    by (simp add: has_endpoint_def Channel_new_def)
qed

text \<open>
  A message round trip. Between a successful send into an empty direction and the next
  receive of the other endpoint, the payload comes back unchanged up to its first 256 bytes,
  with the type and the sender's identifier.
\<close>

theorem message_round_trip:
  assumes "channel_between k a b r" and "pending k b r = []"
  shows "fst (ipc_send_message a k ty d r) = Inr ()
    \<and> (\<exists>m. fst (ipc_receive_message b k (snd (ipc_send_message a k ty d r))) = Inr (Some m)
        \<and> Message_data m = take 256 d \<and> msg_type m = ty \<and> sender_pid m = a)"
proof -
  obtain c where c: "get_channel k r = Some c" "Channel_inv a b c \<or> Channel_inv b a c"
    using assms(1) by (auto simp: channel_between_def)
  have "fst (ipc_receive_message b k (snd (ipc_send_message a k ty d r)))
      = Inr (fst (Channel_receive b (snd (Channel_send a (Message_new a ty d) c))))"
    using c(1) by (simp add: ipc_send_message_def ipc_receive_message_def Let_def get_channel_mut_lookup)
  with c assms(2) show ?thesis
    by (auto simp: ipc_send_message_def Let_def Channel_inv_def Channel_send_def
        Channel_receive_def pending_def MAX_QUEUE_SIZE_def Message_data_new)
qed

theorem message_round_trip_witness:
  "\<exists>m. fst (ipc_receive_message 9 1 (snd (ipc_send_message 7 1 4 [1, 2]
        (snd (ipc_create_channel 7 9 ChannelRegistry_new))))) = Inr (Some m) \<and> Message_data m = [1, 2]"
proof -
  have "channel_between 1 7 9 (snd (ipc_create_channel 7 9 ChannelRegistry_new))"
    and "pending 1 9 (snd (ipc_create_channel 7 9 ChannelRegistry_new)) = []"
    using channel_between_created [of 7 9 ChannelRegistry_new]
    by (simp_all add: ChannelRegistry_new_def get_channel_def)
  from message_round_trip [OF this, of 4 "[1, 2]"] show ?thesis by auto
qed

text \<open>
  Channel clean-up. In a well-formed registry the two-pass removal of
  \<^verbatim>\<open>cleanup_process_channels\<close> keeps exactly the channels that do not involve the
  process, in their order with their queues, leaves the process no channel, and keeps the
  registry well formed.
\<close>

theorem cleanup_process_channels_exact:
  assumes "ChannelRegistry_inv r"
  shows "channels (cleanup_process_channels pid r) = filter (\<lambda>c. \<not> has_endpoint pid c) (channels r)
    \<and> get_channels_for_process pid (cleanup_process_channels pid r) = []
    \<and> ChannelRegistry_inv (cleanup_process_channels pid r)"
  using assms cleanup_process_channels_inv [OF assms]
  by (auto simp: ChannelRegistry_inv_def cleanup_process_channels_filter
      get_channels_for_process_def filter_empty_conv)

theorem cleanup_process_channels_exact_witness:
  "get_channels_for_process 9 (cleanup_process_channels 9 example_channels) = []"
  using cleanup_process_channels_exact [OF example_channels_inv] by blast

text \<open>
  Channel identifiers. Along any sequence of channel system calls the identifiers handed
  out are pairwise distinct, as long as the 64 bit counter has not gone round.
\<close>

theorem channel_ids_distinct:
  assumes "length (outputs channels_issued ipc_step xs r) \<le> 2 ^ 64"
  shows "distinct (outputs channels_issued ipc_step xs r)"
  using assms by (rule channel_ids.issued_distinct)

theorem channel_ids_distinct_witness:
  "outputs channels_issued ipc_step [CreateChannel 1 2, CreateChannel 1 1, CreateChannel 1 2] ChannelRegistry_new
     = [1, 2]
   \<and> distinct (outputs channels_issued ipc_step
       [CreateChannel 1 2, CreateChannel 1 1, CreateChannel 1 2] ChannelRegistry_new)"
proof
  show o: "outputs channels_issued ipc_step [CreateChannel 1 2, CreateChannel 1 1, CreateChannel 1 2]
      ChannelRegistry_new = [1, 2]"
    by (simp add: ipc_create_channel_def ChannelRegistry_create_channel_def Let_def
        ChannelRegistry_new_def)
  show "distinct (outputs channels_issued ipc_step
      [CreateChannel 1 2, CreateChannel 1 1, CreateChannel 1 2] ChannelRegistry_new)"
    by (rule channel_ids_distinct) (simp only: o, simp)
qed

end
