(* ===== verification/Ruix_X86.thy ===== *)
theory Ruix_X86
  imports Ruix_Prelude
begin

text \<open>
  What the kernel uses of the \<^verbatim>\<open>x86_64\<close> crate, as a parameter: a record of functions that
  the operations take as an argument. Addresses and frames are represented by their 64 bit
  values; \<open>None\<close> is the panic of the crate's checked constructors. The predicates below state
  the documented behaviour that theorems rely on, and \<open>x86_ref\<close> is one crate that has it.
\<close>

text \<open>
  A virtual address is canonical when bits 47 to 63 are equal: the lower and the upper half of
  the address space.
\<close>

definition canonical :: "u64 \<Rightarrow> bool" where
  "canonical a \<longleftrightarrow> unat a < 2 ^ 47 \<or> 2 ^ 64 - 2 ^ 47 \<le> unat a"

record x86_crate =
  virt_new :: "u64 \<Rightarrow> u64 option"
  virt_add :: "u64 \<Rightarrow> u64 \<Rightarrow> u64 option"
  phys_new :: "u64 \<Rightarrow> u64 option"
  frame_containing :: "u64 \<Rightarrow> u64"

text \<open>\<^verbatim>\<open>VirtAddr::new\<close> returns a canonical address unchanged.\<close>

definition virt_new_spec :: "x86_crate \<Rightarrow> bool" where
  "virt_new_spec X \<longleftrightarrow> (\<forall>a. canonical a \<longrightarrow> virt_new X a = Some a)"

text \<open>
  \<^verbatim>\<open>VirtAddr + n\<close> adds when the sum does not overflow and is canonical, and never
  returns anything but the sum.
\<close>

definition virt_add_spec :: "x86_crate \<Rightarrow> bool" where
  "virt_add_spec X \<longleftrightarrow>
     (\<forall>a n. unat a + unat n < 2 ^ 64 \<longrightarrow> canonical (a + n) \<longrightarrow> virt_add X a n = Some (a + n))
   \<and> (\<forall>a n v. virt_add X a n = Some v \<longrightarrow> v = a + n)"

text \<open>\<^verbatim>\<open>PhysAddr::new\<close> accepts every address of at most 52 bits.\<close>

definition phys_new_spec :: "x86_crate \<Rightarrow> bool" where
  "phys_new_spec X \<longleftrightarrow> (\<forall>a. unat a < 2 ^ 52 \<longrightarrow> phys_new X a = Some a)"

text \<open>\<^verbatim>\<open>PhysFrame::containing_address\<close> rounds down to a multiple of 4096.\<close>

definition frame_containing_spec :: "x86_crate \<Rightarrow> bool" where
  "frame_containing_spec X \<longleftrightarrow> (\<forall>a. frame_containing X a = a - a mod 4096)"

definition x86_ref :: x86_crate where
  "x86_ref =
     \<lparr>virt_new = (\<lambda>a. if canonical a then Some a else None),
      virt_add = (\<lambda>a n. if unat a + unat n < 2 ^ 64 \<and> canonical (a + n) then Some (a + n) else None),
      phys_new = (\<lambda>a. if unat a < 2 ^ 52 then Some a else None),
      frame_containing = (\<lambda>a. a - a mod 4096)\<rparr>"

lemma x86_ref_spec:
  "virt_new_spec x86_ref" "virt_add_spec x86_ref" "phys_new_spec x86_ref" "frame_containing_spec x86_ref"
  by (simp_all add: x86_ref_def virt_new_spec_def virt_add_spec_def phys_new_spec_def
      frame_containing_spec_def)

lemma virt_new_low: "virt_new_spec X \<Longrightarrow> unat a < 2 ^ 47 \<Longrightarrow> virt_new X a = Some a"
  by (simp add: virt_new_spec_def canonical_def)

lemma virt_add_Some: "virt_add_spec X \<Longrightarrow> virt_add X a n = Some v \<Longrightarrow> v = a + n"
  by (blast dest: virt_add_spec_def [THEN iffD1])

lemma virt_add_low:
  assumes "virt_add_spec X" and "unat a + unat n < 2 ^ 47"
  shows "virt_add X a n = Some (a + n)"
proof -
  have "canonical (a + n)" using assms(2) by (simp add: canonical_def unat_word_ariths)
  moreover have "unat a + unat n < 2 ^ 64" using assms(2) by simp
  ultimately show ?thesis using assms(1) unfolding virt_add_spec_def by blast
qed

text \<open>
  What the kernel uses of \<^verbatim>\<open>OffsetPageTable\<close>: the physical memory offset and the address
  of the active top-level table.
\<close>

record OffsetPageTable =
  phys_offset :: u64
  level_4_table :: u64

text \<open>
  \<^verbatim>\<open>PageTableFlags\<close> is a set of flag bits; a value is the set of the flags it has.
\<close>

datatype page_flag = PRESENT | WRITABLE | USER_ACCESSIBLE | HUGE_PAGE | NO_EXECUTE

type_synonym PageTableFlags = "page_flag set"

end
