(* ===== verification/Ruix_Handle.thy ===== *)
theory Ruix_Handle
  imports Ruix_Error Ruix_Interfaces Ruix_X86
begin

text \<open>
  Zero-copy IPC (\<^verbatim>\<open>src/ipc.rs\<close>, second half): page ranges, memory handles with their rights,
  the handle registry together with the global identifier counter, and the four system calls that
  create, transfer, accept and revoke a handle.
\<close>

section \<open>Page ranges\<close>

datatype AccessRights = ReadOnly | ReadWrite | Execute | NoAccess

datatype TransferMode = Ownership | Shared | Exclusive

record PageRange =
  start_addr :: u64
  range_size :: usize

definition PageRange_new :: "u64 \<Rightarrow> usize \<Rightarrow> PageRange" where
  "PageRange_new start n = \<lparr>start_addr = start, range_size = n\<rparr>"

definition page_count :: "PageRange \<Rightarrow> IpcError + usize" where
  "page_count rg = (case checked_add (range_size rg) 4095 of
       None \<Rightarrow> Inl IpcError.InvalidRange
     | Some checked_size \<Rightarrow>
         if (4096 :: usize) = 0 then Inl IpcError.InvalidRange else Inr (checked_size div 4096))"

definition PageRange_contains :: "x86_crate \<Rightarrow> u64 \<Rightarrow> PageRange \<Rightarrow> bool option" where
  "PageRange_contains X addr rg =
     map_option (\<lambda>end_addr. start_addr rg \<le> addr \<and> addr < end_addr)
       (virt_add X (start_addr rg) (range_size rg))"

definition PageRange_is_valid :: "PageRange \<Rightarrow> bool" where
  "PageRange_is_valid rg \<longleftrightarrow>
     start_addr rg mod 4096 = 0 \<and> range_size rg mod 4096 = 0 \<and> 0 < range_size rg"

section \<open>Memory handles\<close>

record MemoryHandle =
  mh_id :: u64
  owner_pid :: u64
  holder_pid :: u64
  mh_range :: PageRange
  rights :: AccessRights
  mode :: TransferMode
  active :: bool
  is_mapped :: bool
  holder_virt_addr :: "u64 option"

definition MemoryHandle_new ::
    "u64 \<Rightarrow> u64 \<Rightarrow> PageRange \<Rightarrow> AccessRights \<Rightarrow> TransferMode \<Rightarrow> MemoryHandle" where
  "MemoryHandle_new i owner rg rts md =
     \<lparr>mh_id = i, owner_pid = owner, holder_pid = owner, mh_range = rg, rights = rts, mode = md,
      active = True, is_mapped = False, holder_virt_addr = None\<rparr>"

definition has_access :: "u64 \<Rightarrow> MemoryHandle \<Rightarrow> bool" where
  "has_access pid h \<longleftrightarrow> active h \<and> (pid = owner_pid h \<or> pid = holder_pid h)"

definition access_to_flags :: "MemoryHandle \<Rightarrow> PageTableFlags" where
  "access_to_flags h =
     (let flags = {PRESENT, USER_ACCESSIBLE}
      in case rights h of
           ReadOnly \<Rightarrow> flags
         | ReadWrite \<Rightarrow> insert WRITABLE flags
         | Execute \<Rightarrow> flags - {NO_EXECUTE}
         | NoAccess \<Rightarrow> {})"

definition MemoryHandle_revoke :: "MemoryHandle \<Rightarrow> MemoryHandle" where
  "MemoryHandle_revoke h = h\<lparr>active := False, rights := NoAccess\<rparr>"

definition validate :: "MemoryHandle \<Rightarrow> bool" where
  "validate h \<longleftrightarrow> active h \<and> PageRange_is_valid (mh_range h) \<and> mh_id h \<noteq> 0"

definition mark_mapped :: "u64 \<Rightarrow> MemoryHandle \<Rightarrow> MemoryHandle" where
  "mark_mapped virt_addr h = h\<lparr>is_mapped := True, holder_virt_addr := Some virt_addr\<rparr>"

definition mark_unmapped :: "MemoryHandle \<Rightarrow> MemoryHandle" where
  "mark_unmapped h = h\<lparr>is_mapped := False, holder_virt_addr := None\<rparr>"

section \<open>The handle registry\<close>

text \<open>\<^verbatim>\<open>HANDLE_REGISTRY\<close> and the static \<^verbatim>\<open>NEXT_HANDLE_ID\<close>.\<close>

record HandleRegistry =
  handles :: "MemoryHandle list"
  next_handle_id :: u64

definition HandleRegistry_new :: HandleRegistry where
  "HandleRegistry_new = \<lparr>handles = [], next_handle_id = 1\<rparr>"

definition allocate_handle_id :: "HandleRegistry \<Rightarrow> u64 \<times> HandleRegistry" where
  "allocate_handle_id s = (next_handle_id s, s\<lparr>next_handle_id := next_handle_id s + 1\<rparr>)"

definition create_handle ::
    "u64 \<Rightarrow> PageRange \<Rightarrow> AccessRights \<Rightarrow> TransferMode \<Rightarrow> HandleRegistry
       \<Rightarrow> (IpcError + u64) \<times> HandleRegistry" where
  "create_handle owner rg rts md s =
     (if \<not> PageRange_is_valid rg then (Inl IpcError.InvalidRange, s)
      else case allocate_handle_id s of (handle_id, s') \<Rightarrow>
        (Inr handle_id, s'\<lparr>handles := handles s' @ [MemoryHandle_new handle_id owner rg rts md]\<rparr>))"

definition get_handle :: "u64 \<Rightarrow> HandleRegistry \<Rightarrow> MemoryHandle option" where
  "get_handle handle_id s = find (\<lambda>h. mh_id h = handle_id) (handles s)"

text \<open>A call of \<^verbatim>\<open>get_handle_mut\<close> and a mutation through the reference it returns.\<close>

definition get_handle_mut :: "u64 \<Rightarrow> (MemoryHandle \<Rightarrow> MemoryHandle) \<Rightarrow> HandleRegistry \<Rightarrow> HandleRegistry" where
  "get_handle_mut handle_id f s = s\<lparr>handles := upd_first (\<lambda>h. mh_id h = handle_id) f (handles s)\<rparr>"

definition revoke_handle :: "u64 \<Rightarrow> HandleRegistry \<Rightarrow> (IpcError + unit) \<times> HandleRegistry" where
  "revoke_handle handle_id s = (case get_handle handle_id s of
       Some _ \<Rightarrow> (Inr (), get_handle_mut handle_id MemoryHandle_revoke s)
     | None \<Rightarrow> (Inl IpcError.HandleNotFound, s))"

definition get_handles_for_process :: "u64 \<Rightarrow> HandleRegistry \<Rightarrow> MemoryHandle list" where
  "get_handles_for_process pid s = filter (\<lambda>h. owner_pid h = pid) (handles s)"

definition get_held_handles_for_process :: "u64 \<Rightarrow> HandleRegistry \<Rightarrow> MemoryHandle list" where
  "get_held_handles_for_process pid s = filter (\<lambda>h. holder_pid h = pid \<and> active h) (handles s)"

text \<open>The loop of \<^verbatim>\<open>cleanup_process_handles\<close>, with its index and in-place removal.\<close>

function cleanup_loop :: "u64 \<Rightarrow> nat \<Rightarrow> MemoryHandle list \<Rightarrow> MemoryHandle list" where
  "cleanup_loop pid i hs =
     (if i < length hs then
        let should_remove = owner_pid (hs ! i) = pid \<or> holder_pid (hs ! i) = pid;
            hs' = (if should_remove then hs[i := MemoryHandle_revoke (hs ! i)] else hs)
        in if \<not> should_remove then cleanup_loop pid (i + 1) hs'
           else cleanup_loop pid i (remove_at i hs')
      else hs)"
  by pat_completeness auto
termination
  by (relation "measure (\<lambda>(pid, i, hs). length hs - i)") (auto simp: length_remove_at)

declare cleanup_loop.simps [simp del]

definition cleanup_process_handles :: "u64 \<Rightarrow> HandleRegistry \<Rightarrow> HandleRegistry" where
  "cleanup_process_handles pid s = s\<lparr>handles := cleanup_loop pid 0 (handles s)\<rparr>"

definition detect_circular_transfer :: "u64 \<Rightarrow> u64 \<Rightarrow> bool" where
  "detect_circular_transfer from_pid to_pid \<longleftrightarrow> from_pid = to_pid"

section \<open>System calls on handles\<close>

definition create_memory_handle ::
    "u64 \<Rightarrow> u64 \<Rightarrow> usize \<Rightarrow> AccessRights \<Rightarrow> TransferMode \<Rightarrow> HandleRegistry
       \<Rightarrow> (IpcError + u64) \<times> HandleRegistry" where
  "create_memory_handle current_pid start n rts md s =
     create_handle current_pid (PageRange_new start n) rts md s"

text \<open>
  The loops over the pages of a range. Building an address may panic; the transfer also builds
  the simulated physical frames, and drops them.
\<close>

definition range_pages :: "x86_crate \<Rightarrow> u64 \<Rightarrow> nat \<Rightarrow> u64 list option" where
  "range_pages X start n = those (map (\<lambda>i. virt_new X (start + of_nat (i * 4096))) [0..<n])"

definition transfer_frames :: "x86_crate \<Rightarrow> u64 \<Rightarrow> nat \<Rightarrow> u64 list option" where
  "transfer_frames X start n = those (map (\<lambda>i.
     case virt_new X (start + of_nat (i * 4096)) of
       None \<Rightarrow> None
     | Some _ \<Rightarrow> map_option (frame_containing X) (phys_new X (0x100000 + of_nat (i * 4096)))) [0..<n])"

definition transfer_memory ::
    "x86_crate \<Rightarrow> u64 \<Rightarrow> u64 \<Rightarrow> u64 \<Rightarrow> HandleRegistry \<Rightarrow> ((IpcError + unit) \<times> HandleRegistry) option" where
  "transfer_memory X current_pid handle_id target_pid s =
     (if current_pid = target_pid then Some (Inl IpcError.CircularTransfer, s)
      else case get_handle handle_id s of
        None \<Rightarrow> Some (Inl IpcError.HandleNotFound, s)
      | Some h \<Rightarrow>
          if owner_pid h \<noteq> current_pid then Some (Inl IpcError.AccessDenied, s)
          else if \<not> validate h then Some (Inl IpcError.InvalidRange, s)
          else case page_count (mh_range h) of
            Inl e \<Rightarrow> Some (Inl e, s)
          | Inr pages \<Rightarrow>
              (case transfer_frames X (start_addr (mh_range h)) (unat pages) of
                 None \<Rightarrow> None
               | Some _ \<Rightarrow> Some (Inr (), get_handle_mut handle_id (\<lambda>h. h\<lparr>holder_pid := target_pid\<rparr>) s)))"

definition receive_memory_handle ::
    "x86_crate \<Rightarrow> u64 \<Rightarrow> u64 \<Rightarrow> HandleRegistry \<Rightarrow> ((IpcError + PageRange) \<times> HandleRegistry) option" where
  "receive_memory_handle X current_pid handle_id s =
     (case get_handle handle_id s of
        None \<Rightarrow> Some (Inl IpcError.HandleNotFound, s)
      | Some h \<Rightarrow>
          if holder_pid h \<noteq> current_pid then Some (Inl IpcError.AccessDenied, s)
          else if \<not> validate h then Some (Inl IpcError.InvalidRange, s)
          else case page_count (mh_range h) of
            Inl e \<Rightarrow> Some (Inl e, s)
          | Inr pages \<Rightarrow>
              (case range_pages X (start_addr (mh_range h)) (unat pages) of
                 None \<Rightarrow> None
               | Some _ \<Rightarrow> Some (Inr (mh_range h),
                   get_handle_mut handle_id (\<lambda>h. h\<lparr>is_mapped := True,
                     holder_virt_addr := Some (start_addr (mh_range h))\<rparr>) s)))"

definition revoke_memory_handle ::
    "x86_crate \<Rightarrow> u64 \<Rightarrow> u64 \<Rightarrow> HandleRegistry \<Rightarrow> ((IpcError + unit) \<times> HandleRegistry) option" where
  "revoke_memory_handle X current_pid handle_id s =
     (case get_handle handle_id s of
        None \<Rightarrow> Some (Inl IpcError.HandleNotFound, s)
      | Some h \<Rightarrow>
          if owner_pid h \<noteq> current_pid then Some (Inl IpcError.AccessDenied, s)
          else
            let s1 = get_handle_mut handle_id MemoryHandle_revoke s
            in if is_mapped h then
                 case page_count (mh_range h) of
                   Inl e \<Rightarrow> Some (Inl e, s1)
                 | Inr pages \<Rightarrow>
                     (case range_pages X (start_addr (mh_range h)) (unat pages) of
                        None \<Rightarrow> None
                      | Some _ \<Rightarrow> Some (Inr (),
                          get_handle_mut handle_id (\<lambda>h. h\<lparr>is_mapped := False, holder_virt_addr := None\<rparr>) s1))
               else Some (Inr (), s1))"

section \<open>Ranges and loops\<close>

lemma unat_mod_4096: "unat ((x :: u64) mod 4096) = unat x mod 4096"
  by (simp add: unat_mod_distrib)

lemma unat_div_4096: "unat ((x :: u64) div 4096) = unat x div 4096"
  by (simp add: unat_div_distrib)

lemma page_count_iff:
  "page_count rg = Inr n \<longleftrightarrow>
     unat (range_size rg) + 4095 < 2 ^ 64 \<and> unat n = (unat (range_size rg) + 4095) div 4096"
proof (cases "checked_add (range_size rg) 4095")
  case None
  then have "page_count rg = Inl IpcError.InvalidRange" by (simp add: page_count_def)
  with None show ?thesis by (simp add: checked_add_None_iff)
next
  case (Some c)
  then have "unat c = unat (range_size rg) + 4095" by (simp add: checked_add_Some_iff)
  moreover have "unat c < 2 ^ 64" using unsigned_less [of c] by simp
  ultimately show ?thesis
    using Some by (auto simp: page_count_def word_unat_eq_iff unat_div_4096)
qed

lemma PageRange_is_valid_nat:
  "PageRange_is_valid rg \<longleftrightarrow> 4096 dvd unat (start_addr rg) \<and> 4096 dvd unat (range_size rg)
     \<and> 0 < unat (range_size rg)"
  by (simp add: PageRange_is_valid_def word_unat_eq_iff unat_mod_4096 word_less_nat_alt dvd_eq_mod_eq_0)

lemma page_count_valid:
  assumes "PageRange_is_valid rg"
  shows "\<exists>n. page_count rg = Inr n \<and> unat n * 4096 = unat (range_size rg)"
proof -
  from assms obtain k where k: "unat (range_size rg) = 4096 * k"
    by (auto simp: PageRange_is_valid_nat)
  have "unat (range_size rg) < 2 ^ 64" using unsigned_less [of "range_size rg"] by simp
  with k have small: "unat (range_size rg) + 4095 < 2 ^ 64" and "k < 2 ^ 64" by auto
  then have "unat (of_nat k :: usize) = k" by (simp add: unat_of_nat)
  with k small have "page_count rg = Inr (of_nat k)" by (simp add: page_count_iff)
  with \<open>unat (of_nat k :: usize) = k\<close> k show ?thesis by auto
qed

lemma those_Some_iff: "those xs = Some ys \<longleftrightarrow> xs = map Some ys"
  by (induction xs arbitrary: ys) (auto split: option.splits)

lemma those_map_Some: "(\<And>x. x \<in> set xs \<Longrightarrow> f x = Some (g x)) \<Longrightarrow> those (map f xs) = Some (map g xs)"
  by (induction xs) auto

lemma unat_page_addr:
  assumes "unat start + n * 4096 < 2 ^ 64" and "i < n"
  shows "unat (start + of_nat (i * 4096) :: u64) = unat start + i * 4096"
proof -
  from assms have "i * 4096 < 2 ^ 64" and "unat start + i * 4096 < 2 ^ 64" by auto
  moreover from this have "unat (of_nat (i * 4096) :: u64) = i * 4096"
    by (simp only: unat_of_nat) simp
  ultimately show ?thesis by (simp only: unat_word_ariths) simp
qed

lemma range_pages_Some:
  assumes "virt_new_spec X" and "unat start + n * 4096 \<le> 2 ^ 47"
  shows "range_pages X start n = Some (map (\<lambda>i. start + of_nat (i * 4096)) [0..<n])"
  unfolding range_pages_def
proof (rule those_map_Some)
  fix i
  assume "i \<in> set [0..<n]"
  then have "i < n" by simp
  with assms(2) have "unat (start + of_nat (i * 4096)) < 2 ^ 47"
    by (subst unat_page_addr [where n = n]) auto
  with assms(1) show "virt_new X (start + of_nat (i * 4096)) = Some (start + of_nat (i * 4096))"
    by (simp only: virt_new_low)
qed

lemma transfer_frames_Some:
  assumes "virt_new_spec X" and "phys_new_spec X" and "unat start + n * 4096 \<le> 2 ^ 47"
  shows "\<exists>fs. transfer_frames X start n = Some fs \<and> length fs = n"
proof -
  have "transfer_frames X start n
      = Some (map (\<lambda>i. frame_containing X (0x100000 + of_nat (i * 4096))) [0..<n])"
    unfolding transfer_frames_def
  proof (rule those_map_Some)
    fix i
    assume "i \<in> set [0..<n]"
    then have i: "i < n" by simp
    with assms(3) have "unat (start + of_nat (i * 4096)) < 2 ^ 47"
      by (subst unat_page_addr [where n = n]) auto
    then have v: "virt_new X (start + of_nat (i * 4096)) = Some (start + of_nat (i * 4096))"
      using assms(1) by (simp only: virt_new_low)
    have "unat (0x100000 + of_nat (i * 4096) :: u64) < 2 ^ 52"
      using i assms(3) by (subst unat_page_addr [where n = n]) auto
    then have "phys_new X (0x100000 + of_nat (i * 4096)) = Some (0x100000 + of_nat (i * 4096))"
      using assms(2) by (simp only: phys_new_spec_def)
    with v show "(case virt_new X (start + of_nat (i * 4096)) of None \<Rightarrow> None
        | Some _ \<Rightarrow> map_option (frame_containing X) (phys_new X (0x100000 + of_nat (i * 4096))))
      = Some (frame_containing X (0x100000 + of_nat (i * 4096)))"
      by simp
  qed
  then show ?thesis by simp
qed

lemma cleanup_loop_filter:
  "i \<le> length hs \<Longrightarrow> cleanup_loop pid i hs
     = take i hs @ filter (\<lambda>h. owner_pid h \<noteq> pid \<and> holder_pid h \<noteq> pid) (drop i hs)"
proof (induction pid i hs rule: cleanup_loop.induct)
  case (1 pid i hs)
  show ?case
  proof (cases "i < length hs")
    case False
    with 1 show ?thesis by (simp add: cleanup_loop.simps)
  next
    case True
    then have hs: "drop i hs = hs ! i # drop (Suc i) hs" by (simp add: Cons_nth_drop_Suc)
    show ?thesis
    proof (cases "owner_pid (hs ! i) = pid \<or> holder_pid (hs ! i) = pid")
      case False
      with 1(1) True have "cleanup_loop pid (Suc i) hs = take (Suc i) hs
          @ filter (\<lambda>h. owner_pid h \<noteq> pid \<and> holder_pid h \<noteq> pid) (drop (Suc i) hs)"
        by (auto simp: Let_def)
      with False True hs show ?thesis
        by (simp add: cleanup_loop.simps [of pid i hs] Let_def take_Suc_conv_app_nth)
    next
      case rem: True
      let ?hs = "remove_at i (hs[i := MemoryHandle_revoke (hs ! i)])"
      have r: "?hs = remove_at i hs" by (simp add: remove_at_def)
      then have "cleanup_loop pid i ?hs = take i ?hs
          @ filter (\<lambda>h. owner_pid h \<noteq> pid \<and> holder_pid h \<noteq> pid) (drop i ?hs)"
        using 1(2) True rem by (auto simp: Let_def length_remove_at)
      moreover have "take i (remove_at i hs) = take i hs" and "drop i (remove_at i hs) = drop (Suc i) hs"
        using True by (simp_all add: remove_at_def)
      ultimately show ?thesis
        using True rem hs r by (auto simp: cleanup_loop.simps [of pid i hs] Let_def)
    qed
  qed
qed

section \<open>The registry as a registry of records\<close>

lemma get_handle_keyed: "get_handle k s = keyed_lookup mh_id k (handles s)"
  by (simp add: get_handle_def keyed_lookup_def)

interpretation handle_reg: registry mh_id get_handle get_handle_mut handles
  "\<lambda>s. distinct (map mh_id (handles s))"
proof unfold_locales
  fix s :: HandleRegistry and k and f :: "MemoryHandle \<Rightarrow> MemoryHandle"
  assume d: "distinct (map mh_id (handles s))" and f: "\<And>h. mh_id (f h) = mh_id h"
  have h: "handles (get_handle_mut k f s) = keyed_modify mh_id k f (handles s)"
    by (simp add: get_handle_mut_def keyed_modify_def)
  with d f show "handles (get_handle_mut k f s) = map (\<lambda>h. if mh_id h = k then f h else h) (handles s)"
    by (simp add: keyed.elements_modify)
  from h d f show "distinct (map mh_id (handles (get_handle_mut k f s)))"
    using keyed.inv_modify [OF d, of f k] by simp
qed (simp add: get_handle_keyed keyed.lookup_iff)

lemma get_handle_mut_lookup:
  assumes "\<And>h. mh_id (f h) = mh_id h"
  shows "get_handle k (get_handle_mut k' f s)
    = (if k = k' then map_option f (get_handle k s) else get_handle k s)"
  using assms
  by (auto simp: get_handle_def get_handle_mut_def find_upd_first_same intro!: find_upd_first_other)

lemma MemoryHandle_revoke_simps [simp]:
  "mh_id (MemoryHandle_revoke h) = mh_id h" "owner_pid (MemoryHandle_revoke h) = owner_pid h"
  "holder_pid (MemoryHandle_revoke h) = holder_pid h" "mh_range (MemoryHandle_revoke h) = mh_range h"
  "active (MemoryHandle_revoke h) = False"
  by (simp_all add: MemoryHandle_revoke_def)

section \<open>Histories of system calls\<close>

text \<open>
  The four system calls as events. A call that panics halts the kernel; the history then stays in
  the state before the call.
\<close>

datatype handle_op = CreateHandle u64 u64 usize AccessRights TransferMode
  | TransferMemory u64 u64 u64 | ReceiveHandle u64 u64 | RevokeHandle u64 u64

definition after :: "'s \<Rightarrow> ('r \<times> 's) option \<Rightarrow> 's" where
  "after s res = (case res of Some (_, s') \<Rightarrow> s' | None \<Rightarrow> s)"

lemma after_simps [simp]: "after s None = s" "after s (Some (v, s')) = s'"
  by (simp_all add: after_def)

fun handle_step :: "x86_crate \<Rightarrow> handle_op \<Rightarrow> HandleRegistry \<Rightarrow> HandleRegistry" where
  "handle_step X (CreateHandle cur start n rts md) s = snd (create_memory_handle cur start n rts md s)"
| "handle_step X (TransferMemory cur h tgt) s = after s (transfer_memory X cur h tgt s)"
| "handle_step X (ReceiveHandle cur h) s = after s (receive_memory_handle X cur h s)"
| "handle_step X (RevokeHandle cur h) s = after s (revoke_memory_handle X cur h s)"

fun handles_issued :: "handle_op \<Rightarrow> HandleRegistry \<Rightarrow> u64 list" where
  "handles_issued (CreateHandle cur start n rts md) s =
     (case fst (create_memory_handle cur start n rts md s) of Inr i \<Rightarrow> [i] | Inl _ \<Rightarrow> [])"
| "handles_issued _ s = []"

lemma get_handle_create:
  "get_handle k s = Some h \<Longrightarrow> get_handle k (snd (create_memory_handle cur start n rts md s)) = Some h"
  by (auto simp: get_handle_def create_memory_handle_def create_handle_def allocate_handle_id_def
      find_append_Some)

text \<open>What one call can do: an authorised change of one handle, or nothing.\<close>

lemma transfer_memory_effect:
  "after s (transfer_memory X cur k tgt s) = s
   \<or> (\<exists>h. get_handle k s = Some h \<and> owner_pid h = cur \<and> tgt \<noteq> cur \<and> validate h
        \<and> after s (transfer_memory X cur k tgt s) = get_handle_mut k (\<lambda>h. h\<lparr>holder_pid := tgt\<rparr>) s)"
  by (auto simp: transfer_memory_def split: option.splits sum.splits)

lemma receive_memory_handle_effect:
  "after s (receive_memory_handle X cur k s) = s
   \<or> (\<exists>h. get_handle k s = Some h \<and> holder_pid h = cur \<and> validate h
        \<and> after s (receive_memory_handle X cur k s) = get_handle_mut k
            (\<lambda>h. h\<lparr>is_mapped := True, holder_virt_addr := Some (start_addr (mh_range h))\<rparr>) s)"
  by (auto simp: receive_memory_handle_def split: option.splits sum.splits)

lemma revoke_memory_handle_effect:
  "after s (revoke_memory_handle X cur k s) = s
   \<or> (\<exists>h. get_handle k s = Some h \<and> owner_pid h = cur
        \<and> (after s (revoke_memory_handle X cur k s) = get_handle_mut k MemoryHandle_revoke s
           \<or> after s (revoke_memory_handle X cur k s)
              = get_handle_mut k (\<lambda>h. h\<lparr>is_mapped := False, holder_virt_addr := None\<rparr>)
                  (get_handle_mut k MemoryHandle_revoke s)))"
  by (auto simp: revoke_memory_handle_def Let_def split: option.splits sum.splits)

lemma handle_step_cases:
  assumes k: "get_handle k s = Some h"
  obtains (same) "get_handle k (handle_step X x s) = Some h"
  | (transfer) tgt where "x = TransferMemory (owner_pid h) k tgt" and "tgt \<noteq> owner_pid h" and "active h"
      and "get_handle k (handle_step X x s) = Some (h\<lparr>holder_pid := tgt\<rparr>)"
  | (receive) "x = ReceiveHandle (holder_pid h) k" and "active h"
      and "get_handle k (handle_step X x s)
        = Some (h\<lparr>is_mapped := True, holder_virt_addr := Some (start_addr (mh_range h))\<rparr>)"
  | (revoke) h' where "x = RevokeHandle (owner_pid h) k"
      and "get_handle k (handle_step X x s) = Some h'"
      and "\<not> active h'" and "owner_pid h' = owner_pid h" and "holder_pid h' = holder_pid h"
      and "mh_range h' = mh_range h"
proof (cases x)
  case (CreateHandle cur start n rts md)
  with k same show ?thesis by (simp add: get_handle_create)
next
  case (TransferMemory cur k' tgt)
  with k same transfer transfer_memory_effect [of s X cur k' tgt] show ?thesis
    by (cases "k' = k") (auto simp: validate_def get_handle_mut_lookup)
next
  case (ReceiveHandle cur k')
  with k same receive receive_memory_handle_effect [of s X cur k'] show ?thesis
    by (cases "k' = k") (auto simp: validate_def get_handle_mut_lookup)
next
  case (RevokeHandle cur k')
  with k same revoke revoke_memory_handle_effect [of s X cur k'] show ?thesis
    by (cases "k' = k") (auto simp: get_handle_mut_lookup)
qed

lemma handle_run_confined:
  assumes "get_handle k s = Some h" and "owner_pid h \<noteq> p" and "holder_pid h \<noteq> p"
    and "\<And>x. x \<in> set xs \<Longrightarrow> x \<noteq> TransferMemory (owner_pid h) k p"
  shows "\<exists>h'. get_handle k (run (handle_step X) xs s) = Some h' \<and> owner_pid h' = owner_pid h
    \<and> holder_pid h' \<noteq> p \<and> mh_range h' = mh_range h"
  using assms
proof (induction xs arbitrary: s h)
  case Nil
  then show ?case by simp
next
  case (Cons x xs)
  from Cons.prems(1) obtain h' where h': "get_handle k (handle_step X x s) = Some h'"
    "owner_pid h' = owner_pid h" "holder_pid h' \<noteq> p" "mh_range h' = mh_range h"
    by (cases rule: handle_step_cases [where x = x and X = X])
      (use Cons.prems in fastforce)+
  from Cons.IH [OF h'(1)] h' Cons.prems show ?case by fastforce
qed

lemma handle_run_revoked:
  assumes "get_handle k s = Some h" and "\<not> active h"
  shows "\<exists>h'. get_handle k (run (handle_step X) xs s) = Some h' \<and> \<not> active h'"
  using assms
proof (induction xs arbitrary: s h)
  case Nil
  then show ?case by simp
next
  case (Cons x xs)
  from Cons.prems(1) obtain h' where h': "get_handle k (handle_step X x s) = Some h'" "\<not> active h'"
    by (cases rule: handle_step_cases [where x = x and X = X])
      (use Cons.prems in fastforce)+
  from Cons.IH [OF h'] show ?case by simp
qed

interpretation handle_ids: id_source "handle_step X" handles_issued next_handle_id for X
proof unfold_locales
  fix x s
  show "handles_issued x s = [] \<and> next_handle_id (handle_step X x s) = next_handle_id s
      \<or> handles_issued x s = [next_handle_id s] \<and> next_handle_id (handle_step X x s) = next_handle_id s + 1"
    by (cases x)
      (auto simp: create_memory_handle_def create_handle_def allocate_handle_id_def transfer_memory_def
        receive_memory_handle_def revoke_memory_handle_def get_handle_mut_def Let_def
        split: option.splits sum.splits)
qed

section \<open>The registry's invariant\<close>

definition MemoryHandle_ok :: "MemoryHandle \<Rightarrow> bool" where
  "MemoryHandle_ok h \<longleftrightarrow> mh_id h \<noteq> 0 \<and> PageRange_is_valid (mh_range h)
     \<and> (active h \<or> rights h = NoAccess)
     \<and> holder_virt_addr h = (if is_mapped h then Some (start_addr (mh_range h)) else None)"

definition HandleRegistry_inv :: "HandleRegistry \<Rightarrow> bool" where
  "HandleRegistry_inv s \<longleftrightarrow> distinct (map mh_id (handles s)) \<and> 0 < unat (next_handle_id s)
     \<and> (\<forall>h \<in> set (handles s). MemoryHandle_ok h \<and> unat (mh_id h) < unat (next_handle_id s))"

lemma HandleRegistry_new_inv: "HandleRegistry_inv HandleRegistry_new"
  by (simp add: HandleRegistry_inv_def HandleRegistry_new_def)

lemma create_memory_handle_inv [ruix_inv]:
  assumes "HandleRegistry_inv s" and "next_handle_id s \<noteq> - 1"
  shows "HandleRegistry_inv (snd (create_memory_handle cur start n rts md s))"
  using assms unat_Suc_word [OF unat_less_max [OF assms(2)]]
  by (fastforce simp: HandleRegistry_inv_def MemoryHandle_ok_def create_memory_handle_def
      create_handle_def allocate_handle_id_def MemoryHandle_new_def)

lemma get_handle_mut_inv:
  assumes "HandleRegistry_inv s" and f: "\<And>h. mh_id (f h) = mh_id h"
    and ok: "\<And>h. MemoryHandle_ok h \<Longrightarrow> MemoryHandle_ok (f h)"
  shows "HandleRegistry_inv (get_handle_mut k f s)"
proof -
  have "distinct (map mh_id (handles (get_handle_mut k f s)))"
    using assms by (intro handle_reg.inv_modify) (simp_all add: HandleRegistry_inv_def)
  moreover have "MemoryHandle_ok h \<and> unat (mh_id h) < unat (next_handle_id s)"
    if "h \<in> set (upd_first (\<lambda>h. mh_id h = k) f (handles s))" for h
    using set_upd_firstD [OF that] assms by (auto simp: HandleRegistry_inv_def)
  ultimately show ?thesis
    using assms(1) by (simp add: HandleRegistry_inv_def get_handle_mut_def)
qed

lemma get_handle_ok: "HandleRegistry_inv s \<Longrightarrow> get_handle k s = Some h \<Longrightarrow> MemoryHandle_ok h"
  by (auto simp: HandleRegistry_inv_def get_handle_def dest: find_SomeD)

lemma transfer_memory_inv [ruix_inv]:
  "HandleRegistry_inv s \<Longrightarrow> HandleRegistry_inv (after s (transfer_memory X cur k tgt s))"
  using transfer_memory_effect [of s X cur k tgt]
  by (auto simp: MemoryHandle_ok_def intro!: get_handle_mut_inv)

lemma receive_memory_handle_inv [ruix_inv]:
  "HandleRegistry_inv s \<Longrightarrow> HandleRegistry_inv (after s (receive_memory_handle X cur k s))"
  using receive_memory_handle_effect [of s X cur k]
  by (auto simp: MemoryHandle_ok_def intro!: get_handle_mut_inv)

lemma revoke_memory_handle_inv [ruix_inv]:
  "HandleRegistry_inv s \<Longrightarrow> HandleRegistry_inv (after s (revoke_memory_handle X cur k s))"
  using revoke_memory_handle_effect [of s X cur k]
  by (auto simp: MemoryHandle_ok_def MemoryHandle_revoke_def intro!: get_handle_mut_inv)

lemma cleanup_process_handles_filter:
  "cleanup_process_handles pid s
     = s\<lparr>handles := filter (\<lambda>h. owner_pid h \<noteq> pid \<and> holder_pid h \<noteq> pid) (handles s)\<rparr>"
  by (simp add: cleanup_process_handles_def cleanup_loop_filter)

lemma cleanup_process_handles_inv [ruix_inv]:
  "HandleRegistry_inv s \<Longrightarrow> HandleRegistry_inv (cleanup_process_handles pid s)"
  by (auto simp: HandleRegistry_inv_def cleanup_process_handles_filter distinct_map_filter)

lemma handle_step_inv [ruix_inv]:
  "HandleRegistry_inv s \<Longrightarrow> next_handle_id s \<noteq> - 1 \<Longrightarrow> HandleRegistry_inv (handle_step X x s)"
  by (cases x) (simp_all add: ruix_inv)

section \<open>Properties\<close>

text \<open>
  C5 (confinement of memory handles). Take a handle that process \<open>p\<close> neither owns nor holds.
  After any sequence of handle system calls, by any processes, in which the owner does not
  transfer the handle to \<open>p\<close>, the handle still covers the same range, \<open>p\<close> has no access to it,
  and accepting it as \<open>p\<close> is refused with \<open>AccessDenied\<close> and changes nothing.
\<close>

theorem handle_confinement:
  assumes "get_handle k s = Some h" and "owner_pid h \<noteq> p" and "holder_pid h \<noteq> p"
    and "TransferMemory (owner_pid h) k p \<notin> set xs"
  shows "let s' = run (handle_step X) xs s in
    receive_memory_handle X p k s' = Some (Inl IpcError.AccessDenied, s')
    \<and> (\<exists>h'. get_handle k s' = Some h' \<and> \<not> has_access p h' \<and> mh_range h' = mh_range h)"
proof -
  from assms(4) have "x \<noteq> TransferMemory (owner_pid h) k p" if "x \<in> set xs" for x
    using that by auto
  from handle_run_confined [OF assms(1-3) this, of xs X] assms(2) show ?thesis
    by (auto simp: Let_def receive_memory_handle_def has_access_def)
qed

definition example_handles :: HandleRegistry where
  "example_handles = snd (create_memory_handle 1 0x400000 4096 ReadWrite Ownership HandleRegistry_new)"

lemma example_handle:
  "get_handle 1 example_handles
     = Some (MemoryHandle_new 1 1 \<lparr>start_addr = 0x400000, range_size = 4096\<rparr> ReadWrite Ownership)"
  by (simp add: example_handles_def create_memory_handle_def create_handle_def get_handle_def
      allocate_handle_id_def HandleRegistry_new_def PageRange_new_def PageRange_is_valid_def
      MemoryHandle_new_def)

theorem handle_confinement_witness:
  "let s' = run (handle_step x86_ref) [TransferMemory 1 1 2, ReceiveHandle 2 1] example_handles in
    receive_memory_handle x86_ref 3 1 s' = Some (Inl IpcError.AccessDenied, s')
    \<and> (\<exists>h'. get_handle 1 s' = Some h' \<and> \<not> has_access 3 h'
         \<and> mh_range h' = \<lparr>start_addr = 0x400000, range_size = 4096\<rparr>)"
  using handle_confinement [OF example_handle, where p = 3 and X = x86_ref
      and xs = "[TransferMemory 1 1 2, ReceiveHandle 2 1]"]
  by (simp add: MemoryHandle_new_def)

text \<open>
  C21 (revocation is final). When the owner's call to revoke a handle succeeds, then after any
  further sequence of handle system calls no process has access to it, and every attempt to
  accept or to transfer it fails without changing the registry.
\<close>

theorem revocation_final:
  assumes "revoke_memory_handle X cur k s = Some (Inr (), s1)"
  shows "let s' = run (handle_step X) xs s1 in
    (\<exists>h'. get_handle k s' = Some h' \<and> (\<forall>p. \<not> has_access p h'))
    \<and> (\<forall>p. \<exists>e. receive_memory_handle X p k s' = Some (Inl e, s'))
    \<and> (\<forall>p q. \<exists>e. transfer_memory X p k q s' = Some (Inl e, s'))"
proof -
  from assms obtain h1 where "get_handle k s1 = Some h1" and "\<not> active h1"
    by (auto simp: revoke_memory_handle_def Let_def get_handle_mut_lookup
        split: option.splits sum.splits if_splits)
  from handle_run_revoked [OF this, of X xs] obtain h' where
    "get_handle k (run (handle_step X) xs s1) = Some h'" and "\<not> active h'" by blast
  then show ?thesis
    by (auto simp: Let_def has_access_def receive_memory_handle_def transfer_memory_def validate_def)
qed

theorem revocation_final_witness:
  "let s' = run (handle_step x86_ref) [TransferMemory 1 1 2]
       (after example_handles (revoke_memory_handle x86_ref 1 1 example_handles)) in
    \<exists>h'. get_handle 1 s' = Some h' \<and> (\<forall>p. \<not> has_access p h')"
proof -
  let ?s1 = "after example_handles (revoke_memory_handle x86_ref 1 1 example_handles)"
  have "revoke_memory_handle x86_ref 1 1 example_handles = Some (Inr (), ?s1)"
    by (simp add: example_handles_def create_memory_handle_def create_handle_def get_handle_def
        allocate_handle_id_def HandleRegistry_new_def PageRange_new_def PageRange_is_valid_def
        MemoryHandle_new_def revoke_memory_handle_def get_handle_mut_def Let_def)
  from revocation_final [OF this, of "[TransferMemory 1 1 2]"] show ?thesis by (auto simp: Let_def)
qed

lemma transfer_memory_succeeds:
  assumes "virt_new_spec X" and "phys_new_spec X" and "get_handle k s = Some h" and "validate h"
    and "unat (start_addr (mh_range h)) + unat (range_size (mh_range h)) \<le> 2 ^ 47"
    and "tgt \<noteq> owner_pid h"
  shows "transfer_memory X (owner_pid h) k tgt s
    = Some (Inr (), get_handle_mut k (\<lambda>h. h\<lparr>holder_pid := tgt\<rparr>) s)"
proof -
  from assms(4) obtain n where n: "page_count (mh_range h) = Inr n"
    "unat n * 4096 = unat (range_size (mh_range h))"
    using page_count_valid by (auto simp: validate_def)
  with assms(5) have "unat (start_addr (mh_range h)) + unat n * 4096 \<le> 2 ^ 47" by simp
  from transfer_frames_Some [OF assms(1,2) this] n assms(3,4,6) show ?thesis
    by (auto simp: transfer_memory_def)
qed

lemma receive_memory_handle_succeeds:
  assumes "virt_new_spec X" and "get_handle k s = Some h" and "validate h"
    and "unat (start_addr (mh_range h)) + unat (range_size (mh_range h)) \<le> 2 ^ 47"
  shows "receive_memory_handle X (holder_pid h) k s
    = Some (Inr (mh_range h), get_handle_mut k
        (\<lambda>h. h\<lparr>is_mapped := True, holder_virt_addr := Some (start_addr (mh_range h))\<rparr>) s)"
proof -
  from assms(3) obtain n where n: "page_count (mh_range h) = Inr n"
    "unat n * 4096 = unat (range_size (mh_range h))"
    using page_count_valid by (auto simp: validate_def)
  with assms(4) have "unat (start_addr (mh_range h)) + unat n * 4096 \<le> 2 ^ 47" by simp
  from range_pages_Some [OF assms(1) this] n assms(2,3) show ?thesis
    by (simp add: receive_memory_handle_def)
qed

text \<open>
  C23 (a transfer completes). For a valid handle whose range lies in the lower half of the address
  space, the owner's transfer to another process succeeds, the target's accept then returns
  exactly the handle's range without panicking, the handle ends up held by the target and marked
  as mapped at the start of the range, and every other handle is as before. The crate's address
  constructors are only assumed to accept canonical addresses.
\<close>

theorem transfer_completes:
  assumes "virt_new_spec X" and "phys_new_spec X"
    and "get_handle k s = Some h" and "validate h"
    and "unat (start_addr (mh_range h)) + unat (range_size (mh_range h)) \<le> 2 ^ 47"
    and "tgt \<noteq> owner_pid h"
  shows "\<exists>s1 s2. transfer_memory X (owner_pid h) k tgt s = Some (Inr (), s1)
    \<and> receive_memory_handle X tgt k s1 = Some (Inr (mh_range h), s2)
    \<and> get_handle k s2 = Some (h\<lparr>holder_pid := tgt, is_mapped := True,
          holder_virt_addr := Some (start_addr (mh_range h))\<rparr>)
    \<and> (\<forall>k'. k' \<noteq> k \<longrightarrow> get_handle k' s2 = get_handle k' s)"
proof -
  let ?s1 = "get_handle_mut k (\<lambda>h. h\<lparr>holder_pid := tgt\<rparr>) s"
  let ?h1 = "h\<lparr>holder_pid := tgt\<rparr>"
  have t: "transfer_memory X (owner_pid h) k tgt s = Some (Inr (), ?s1)"
    using assms by (rule transfer_memory_succeeds)
  have h1: "get_handle k ?s1 = Some ?h1" using assms(3) by (simp add: get_handle_mut_lookup)
  have "validate ?h1" using assms(4) by (simp add: validate_def)
  from receive_memory_handle_succeeds [OF assms(1) h1 this] assms(5)
  have r: "receive_memory_handle X tgt k ?s1 = Some (Inr (mh_range h), get_handle_mut k
      (\<lambda>h. h\<lparr>is_mapped := True, holder_virt_addr := Some (start_addr (mh_range h))\<rparr>) ?s1)" by simp
  show ?thesis
    by (rule exI [where x = ?s1], rule exI, intro conjI, rule t, rule r)
      (use assms(3) in \<open>simp_all add: get_handle_mut_lookup\<close>)
qed

theorem transfer_completes_witness:
  "\<exists>s1 s2. transfer_memory x86_ref 1 1 2 example_handles = Some (Inr (), s1)
    \<and> receive_memory_handle x86_ref 2 1 s1 = Some (Inr \<lparr>start_addr = 0x400000, range_size = 4096\<rparr>, s2)"
  using transfer_completes [OF x86_ref_spec(1,3) example_handle, of 2]
  by (auto simp: MemoryHandle_new_def validate_def PageRange_is_valid_def)

text \<open>
  C38 (clean-up of a process). The index loop of \<^verbatim>\<open>cleanup_process_handles\<close> ends and computes
  the list of the handles that the process neither owns nor holds, in their order.
\<close>

theorem cleanup_process_handles_exact:
  "cleanup_process_handles pid s
     = s\<lparr>handles := filter (\<lambda>h. owner_pid h \<noteq> pid \<and> holder_pid h \<noteq> pid) (handles s)\<rparr>"
  by (rule cleanup_process_handles_filter)

text \<open>
  What a transfer does not do. Whatever the transfer mode, the sender keeps its access: after
  a successful transfer both the owner and the new holder have access to the handle.
\<close>

theorem transfer_keeps_owner_access:
  assumes "transfer_memory X cur k tgt s = Some (Inr (), s1)"
  shows "\<exists>h1. get_handle k s1 = Some h1 \<and> owner_pid h1 = cur \<and> has_access cur h1 \<and> has_access tgt h1"
  using assms
  by (auto simp: transfer_memory_def validate_def has_access_def get_handle_mut_lookup
      split: option.splits sum.splits if_splits)

theorem transfer_keeps_owner_access_witness:
  "\<exists>s1 h1. get_handle 1 s1 = Some h1 \<and> mode h1 = Ownership \<and> has_access 1 h1 \<and> has_access 2 h1"
proof -
  have v: "validate (MemoryHandle_new 1 1 \<lparr>start_addr = 0x400000, range_size = 4096\<rparr> ReadWrite Ownership)"
    by (simp add: MemoryHandle_new_def validate_def PageRange_is_valid_def)
  let ?s1 = "get_handle_mut 1 (\<lambda>h. h\<lparr>holder_pid := 2\<rparr>) example_handles"
  have t: "transfer_memory x86_ref 1 1 2 example_handles = Some (Inr (), ?s1)"
    using transfer_memory_succeeds [OF x86_ref_spec(1,3) example_handle v, of 2]
    by (simp add: MemoryHandle_new_def)
  have "map_option mode (get_handle 1 ?s1) = Some Ownership"
    using example_handle by (simp add: get_handle_mut_lookup MemoryHandle_new_def)
  with transfer_keeps_owner_access [OF t] show ?thesis by fastforce
qed

text \<open>
  Page flags of the rights. Write permission appears exactly for \<open>ReadWrite\<close>, a revoked
  handle maps to no flags at all, and no right ever sets \<open>NO_EXECUTE\<close>: \<open>ReadOnly\<close> and
  \<open>Execute\<close> give the same flags, so read-only and read-write mappings are executable.
\<close>

theorem access_to_flags_rights:
  "(WRITABLE \<in> access_to_flags h \<longleftrightarrow> rights h = ReadWrite)
   \<and> (PRESENT \<in> access_to_flags h \<longleftrightarrow> rights h \<noteq> NoAccess)
   \<and> access_to_flags (MemoryHandle_revoke h) = {}
   \<and> NO_EXECUTE \<notin> access_to_flags h
   \<and> access_to_flags (h\<lparr>rights := ReadOnly\<rparr>) = access_to_flags (h\<lparr>rights := Execute\<rparr>)"
  by (auto simp: access_to_flags_def MemoryHandle_revoke_def Let_def split: AccessRights.splits)

text \<open>
  Page counts. \<^verbatim>\<open>page_count\<close> is the size divided by 4096 and rounded up, and fails
  exactly when rounding up would pass the range of \<^verbatim>\<open>usize\<close>; for a valid range it never
  fails and the pages cover the size exactly.
\<close>

theorem page_count_rounds_up:
  "(page_count rg = Inl IpcError.InvalidRange \<longleftrightarrow> 2 ^ 64 \<le> unat (range_size rg) + 4095)
   \<and> (\<forall>n. page_count rg = Inr n \<longrightarrow>
        unat (range_size rg) \<le> unat n * 4096 \<and> unat n * 4096 < unat (range_size rg) + 4096)
   \<and> (PageRange_is_valid rg \<longrightarrow> (\<exists>n. page_count rg = Inr n \<and> unat n * 4096 = unat (range_size rg)))"
proof (intro conjI allI impI)
  show "page_count rg = Inl IpcError.InvalidRange \<longleftrightarrow> 2 ^ 64 \<le> unat (range_size rg) + 4095"
    by (cases "checked_add (range_size rg) 4095")
      (auto simp: page_count_def checked_add_def split: if_splits)
next
  fix n assume "page_count rg = Inr n"
  then have "unat n = (unat (range_size rg) + 4095) div 4096" by (simp add: page_count_iff)
  then show "unat (range_size rg) \<le> unat n * 4096" and "unat n * 4096 < unat (range_size rg) + 4096"
    by simp_all
qed (rule page_count_valid)

theorem page_count_rounds_up_witness:
  "page_count \<lparr>start_addr = 0x400000, range_size = 8192\<rparr> = Inr 2 \<and>
   unat (range_size \<lparr>start_addr = 0x400000, range_size = 8192\<rparr>) \<le> unat (2 :: usize) * 4096"
proof -
  have c: "page_count \<lparr>start_addr = 0x400000, range_size = 8192\<rparr> = Inr 2"
    by (simp add: page_count_def checked_add_def)
  with page_count_rounds_up [of "\<lparr>start_addr = 0x400000, range_size = 8192\<rparr>"] show ?thesis by blast
qed

end
