(* ===== verification/Ruix_Mem.thy ===== *)
theory Ruix_Mem
  imports Ruix_Prelude
begin

text \<open>
  The memory that the kernel reads and writes through raw pointers: a byte for every 64 bit
  virtual address, as the processor sees it through the active page table. Multi-byte values are
  little endian. The lemmas are the ones the components need: reading back what was written, and
  that a write changes nothing outside the bytes it covers.
\<close>

unbundle bit_operations_syntax

type_synonym mem = "u64 \<Rightarrow> u8"

section \<open>Bytes\<close>

definition read_bytes :: "u64 \<Rightarrow> nat \<Rightarrow> mem \<Rightarrow> u8 list" where
  "read_bytes a n m = map (\<lambda>i. m (a + of_nat i)) [0..<n]"

definition write_bytes :: "u64 \<Rightarrow> u8 list \<Rightarrow> mem \<Rightarrow> mem" where
  "write_bytes a bs m = (\<lambda>x. if unat (x - a) < length bs then bs ! unat (x - a) else m x)"

text \<open>The addresses of the \<open>n\<close> bytes from \<open>a\<close>, modulo the size of the address space.\<close>

definition region :: "u64 \<Rightarrow> nat \<Rightarrow> u64 set" where
  "region a n = {x. unat (x - a) < n}"

lemma length_read_bytes [simp]: "length (read_bytes a n m) = n"
  by (simp add: read_bytes_def)

lemma write_bytes_Nil [simp]: "write_bytes a [] m = m"
  by (simp add: write_bytes_def)

lemma unat_offset: "i < 2 ^ 64 \<Longrightarrow> unat (a + of_nat i - a :: u64) = i"
  by (simp add: unat_of_nat)

lemma in_region: "i < n \<Longrightarrow> n \<le> 2 ^ 64 \<Longrightarrow> a + of_nat i \<in> region a n"
  by (simp add: region_def unat_of_nat)

lemma region_no_wrap:
  assumes "unat a + n \<le> 2 ^ 64"
  shows "region a n = {x. unat a \<le> unat x \<and> unat x < unat a + n}"
proof -
  have "unat (x - a) < n \<longleftrightarrow> unat a \<le> unat x \<and> unat x < unat a + n" for x :: u64
  proof (cases "a \<le> x")
    case True
    then show ?thesis by (auto simp: unat_sub word_le_nat_alt)
  next
    case False
    then have "unat (x - a) = unat x + 2 ^ 64 - unat a"
      by (auto simp: unat_sub_if' word_le_nat_alt)
    with False assms show ?thesis by (auto simp: word_le_nat_alt)
  qed
  then show ?thesis by (simp add: region_def)
qed

lemma region_shift:
  assumes "i + n \<le> 2 ^ 64"
  shows "x \<in> region (a + of_nat i) n \<longleftrightarrow> i \<le> unat (x - a) \<and> unat (x - a) < i + n"
proof (cases "n = 0")
  case True
  then show ?thesis by (simp add: region_def)
next
  case False
  with assms have i: "unat (of_nat i :: u64) = i" by (simp add: unat_of_nat)
  have "x \<in> region (a + of_nat i) n \<longleftrightarrow> x - a \<in> region (of_nat i) n"
    by (simp add: region_def diff_diff_eq)
  with region_no_wrap [of "of_nat i" n] assms i show ?thesis by simp
qed

lemma sub_region: "i + n \<le> N \<Longrightarrow> N \<le> 2 ^ 64 \<Longrightarrow> region (a + of_nat i) n \<subseteq> region a N"
  by (auto simp: region_shift) (simp add: region_def)

lemma region_disjoint:
  "i + n \<le> j \<Longrightarrow> j + k \<le> 2 ^ 64 \<Longrightarrow> region (a + of_nat i) n \<inter> region (a + of_nat j) k = {}"
  by (auto simp: region_shift)

lemma write_bytes_outside: "x \<notin> region a (length bs) \<Longrightarrow> write_bytes a bs m x = m x"
  by (simp add: write_bytes_def region_def)

lemma read_write_bytes:
  assumes "length bs \<le> 2 ^ 64"
  shows "read_bytes a (length bs) (write_bytes a bs m) = bs"
  by (rule nth_equalityI) (use assms in \<open>auto simp: read_bytes_def write_bytes_def unat_of_nat\<close>)

lemma read_bytes_cong:
  assumes "\<And>x. x \<in> region a n \<Longrightarrow> m x = m' x" and "n \<le> 2 ^ 64"
  shows "read_bytes a n m = read_bytes a n m'"
  using assms by (auto simp: read_bytes_def in_region)

lemma read_write_disjoint:
  assumes "region a n \<inter> region b (length bs) = {}" and "n \<le> 2 ^ 64"
  shows "read_bytes a n (write_bytes b bs m) = read_bytes a n m"
  using assms by (intro read_bytes_cong write_bytes_outside) auto

section \<open>Little endian integers\<close>

fun le_bytes :: "nat \<Rightarrow> u64 \<Rightarrow> u8 list" where
  "le_bytes 0 w = []"
| "le_bytes (Suc n) w = ucast w # le_bytes n (drop_bit 8 w)"

fun le_value :: "u8 list \<Rightarrow> u64" where
  "le_value [] = 0"
| "le_value (b # bs) = ucast b OR push_bit 8 (le_value bs)"

lemma length_le_bytes [simp]: "length (le_bytes n w) = n"
  by (induction n arbitrary: w) auto

lemma le_value_le_bytes: "le_value (le_bytes n w) = take_bit (8 * n) w"
proof (induction n arbitrary: w)
  case 0
  then show ?case by simp
next
  case (Suc n)
  show ?case
  proof (rule bit_word_eqI)
    fix k
    assume "k < LENGTH(64)"
    then show "bit (le_value (le_bytes (Suc n) w)) k = bit (take_bit (8 * Suc n) w) k"
      by (cases "k < 8")
        (auto simp: Suc bit_simps)
  qed
qed

definition read_u64 :: "u64 \<Rightarrow> mem \<Rightarrow> u64" where
  "read_u64 a m = le_value (read_bytes a 8 m)"

definition write_u64 :: "u64 \<Rightarrow> u64 \<Rightarrow> mem \<Rightarrow> mem" where
  "write_u64 a w m = write_bytes a (le_bytes 8 w) m"

lemma le_value_le_bytes_8 [simp]: "le_value (le_bytes 8 w) = w"
  by (simp add: le_value_le_bytes take_bit_word_eq_self)

lemma read_write_u64 [simp]: "read_u64 a (write_u64 a w m) = w"
  using read_write_bytes [of "le_bytes 8 w" a m] by (simp add: read_u64_def write_u64_def)

lemma read_write_u64_disjoint:
  "region a 8 \<inter> region b 8 = {} \<Longrightarrow> read_u64 a (write_u64 b w m) = read_u64 a m"
  by (simp add: read_u64_def write_u64_def read_write_disjoint)

lemma write_u64_outside: "x \<notin> region a 8 \<Longrightarrow> write_u64 a w m x = m x"
  by (simp add: write_u64_def write_bytes_outside)

section \<open>Sequences of words\<close>

fun words_le :: "nat \<Rightarrow> u8 list \<Rightarrow> u64 list" where
  "words_le 0 bs = []"
| "words_le (Suc n) bs = le_value (take 8 bs) # words_le n (drop 8 bs)"

definition words_bytes :: "u64 list \<Rightarrow> u8 list" where
  "words_bytes ws = concat (map (le_bytes 8) ws)"

lemma length_words_bytes [simp]: "length (words_bytes ws) = 8 * length ws"
  by (induction ws) (simp_all add: words_bytes_def)

lemma words_le_words_bytes: "words_le (length ws) (words_bytes ws) = ws"
  by (induction ws) (simp_all add: words_bytes_def)

lemma length_words_le [simp]: "length (words_le n bs) = n"
  by (induction n arbitrary: bs) auto

section \<open>Copying a table word by word\<close>

definition copy_words :: "u64 \<Rightarrow> u64 \<Rightarrow> nat \<Rightarrow> mem \<Rightarrow> mem" where
  "copy_words dst src n m =
     fold (\<lambda>i m. write_u64 (dst + of_nat (8 * i)) (read_u64 (src + of_nat (8 * i)) m) m) [0..<n] m"

lemma copy_words_Suc:
  "copy_words dst src (Suc n) m =
     write_u64 (dst + of_nat (8 * n)) (read_u64 (src + of_nat (8 * n)) (copy_words dst src n m))
       (copy_words dst src n m)"
  by (simp add: copy_words_def)

lemma copy_words_outside:
  assumes "x \<notin> region dst (8 * n)" and "8 * n \<le> 2 ^ 64"
  shows "copy_words dst src n m x = m x"
  using assms
proof (induction n)
  case 0
  then show ?case by (simp add: copy_words_def)
next
  case (Suc n)
  have "x \<notin> region (dst + of_nat (8 * n)) 8"
    using sub_region [of "8 * n" 8 "8 * Suc n" dst] Suc.prems by auto
  moreover have "x \<notin> region dst (8 * n)" using Suc.prems by (auto simp: region_def)
  ultimately show ?case
    unfolding copy_words_Suc using Suc by (simp add: write_u64_outside)
qed

lemma copy_words_read:
  assumes "region src (8 * N) \<inter> region dst (8 * N) = {}" and "8 * N \<le> 2 ^ 64" and "n \<le> N" and "i < n"
  shows "read_u64 (dst + of_nat (8 * i)) (copy_words dst src n m) = read_u64 (src + of_nat (8 * i)) m"
  using assms(3,4)
proof (induction n)
  case 0
  then show ?case by simp
next
  case (Suc n)
  show ?case
  proof (cases "i = n")
    case True
    have "region (src + of_nat (8 * n)) 8 \<inter> region dst (8 * n) = {}"
      using sub_region [of "8 * n" 8 "8 * N" src] assms(1,2) Suc.prems by (auto simp: region_def)
    then have "read_u64 (src + of_nat (8 * n)) (copy_words dst src n m) = read_u64 (src + of_nat (8 * n)) m"
      unfolding read_u64_def using assms(2) Suc.prems
      by (intro arg_cong [where f = le_value] read_bytes_cong copy_words_outside) auto
    with True show ?thesis by (simp add: copy_words_Suc)
  next
    case False
    with Suc.prems have "i < n" by simp
    moreover from this have "region (dst + of_nat (8 * i)) 8 \<inter> region (dst + of_nat (8 * n)) 8 = {}"
      using assms(2) Suc.prems by (intro region_disjoint) auto
    ultimately show ?thesis
      using Suc by (simp only: copy_words_Suc read_write_u64_disjoint Suc_leD)
  qed
qed

end
