(* ===== verification/Ruix_Process.thy ===== *)
theory Ruix_Process
  imports Ruix_Error Ruix_Interfaces Ruix_Mem Ruix_X86
begin

text \<open>
  Processes (\<^verbatim>\<open>src/process/mod.rs\<close>): the identifier counters, the register context that
  is laid out on a process's stack, the process record with its operations, creation with a copied
  top-level page table, \<^verbatim>\<open>fork\<close>, and the trait \<^verbatim>\<open>TaskBehavior\<close> with its two
  implementations. Memory is the byte memory of \<open>Ruix_Mem\<close>; the frame allocator behind the trait
  \<^verbatim>\<open>FrameAllocator\<close> is a function argument.
\<close>

section \<open>States\<close>

definition DEFAULT_PRIORITY :: u8 where
  "DEFAULT_PRIORITY = 10"

datatype WaitReason = Child u64 | IpcReceive u64 | IpcSend u64 | Sleep u64 | AsyncPoll

datatype ProcessState = Running | Ready | Waiting WaitReason | Zombie | Stopped

datatype TaskType = ProcessTask | Async

datatype 'a Poll = PollReady 'a | Pending

text \<open>
  The statics of the module, the memory and the state of the frame allocator.
\<close>

record 'fa machine =
  memory :: mem
  frames :: 'fa
  NEXT_PID :: u64
  NEXT_PGID :: u64
  NEXT_SID :: u64
  TIMESTAMP_COUNTER :: u64

definition get_current_time :: "('fa, 'z) machine_scheme \<Rightarrow> u64 \<times> ('fa, 'z) machine_scheme" where
  "get_current_time s = (TIMESTAMP_COUNTER s + 1, s\<lparr>TIMESTAMP_COUNTER := TIMESTAMP_COUNTER s + 1\<rparr>)"

definition allocate_pid :: "('fa, 'z) machine_scheme \<Rightarrow> u64 \<times> ('fa, 'z) machine_scheme" where
  "allocate_pid s = (NEXT_PID s, s\<lparr>NEXT_PID := NEXT_PID s + 1\<rparr>)"

definition allocate_pgid :: "('fa, 'z) machine_scheme \<Rightarrow> u64 \<times> ('fa, 'z) machine_scheme" where
  "allocate_pgid s = (NEXT_PGID s, s\<lparr>NEXT_PGID := NEXT_PGID s + 1\<rparr>)"

definition allocate_sid :: "('fa, 'z) machine_scheme \<Rightarrow> u64 \<times> ('fa, 'z) machine_scheme" where
  "allocate_sid s = (NEXT_SID s, s\<lparr>NEXT_SID := NEXT_SID s + 1\<rparr>)"

section \<open>Register contexts in memory\<close>

record ProcessContext =
  r15 :: u64
  r14 :: u64
  r13 :: u64
  r12 :: u64
  rbp :: u64
  rbx :: u64
  r11 :: u64
  r10 :: u64
  r9 :: u64
  r8 :: u64
  rdi :: u64
  rsi :: u64
  rdx :: u64
  rcx :: u64
  rax :: u64
  rip :: u64
  cs :: u64
  rflags :: u64
  rsp :: u64
  ss :: u64

text \<open>\<^verbatim>\<open>repr(C)\<close>: the fields in order, eight bytes each, without padding.\<close>

definition context_words :: "ProcessContext \<Rightarrow> u64 list" where
  "context_words c = [r15 c, r14 c, r13 c, r12 c, rbp c, rbx c, r11 c, r10 c, r9 c, r8 c,
     rdi c, rsi c, rdx c, rcx c, rax c, rip c, cs c, rflags c, rsp c, ss c]"

definition context_of_words :: "u64 list \<Rightarrow> ProcessContext" where
  "context_of_words w = \<lparr>r15 = w ! 0, r14 = w ! 1, r13 = w ! 2, r12 = w ! 3, rbp = w ! 4,
     rbx = w ! 5, r11 = w ! 6, r10 = w ! 7, r9 = w ! 8, r8 = w ! 9, rdi = w ! 10, rsi = w ! 11,
     rdx = w ! 12, rcx = w ! 13, rax = w ! 14, rip = w ! 15, cs = w ! 16, rflags = w ! 17,
     rsp = w ! 18, ss = w ! 19\<rparr>"

definition context_size :: u64 where
  "context_size = 160"

definition read_context :: "u64 \<Rightarrow> mem \<Rightarrow> ProcessContext" where
  "read_context p m = context_of_words (words_le 20 (read_bytes p 160 m))"

definition write_context :: "u64 \<Rightarrow> ProcessContext \<Rightarrow> mem \<Rightarrow> mem" where
  "write_context p c m = write_bytes p (words_bytes (context_words c)) m"

section \<open>Page tables\<close>

definition create_process_page_table_with_user_mappings ::
    "x86_crate \<Rightarrow> ('fa \<Rightarrow> u64 option \<times> 'fa) \<Rightarrow> OffsetPageTable \<Rightarrow> ('fa, 'z) machine_scheme
      \<Rightarrow> (u64 \<times> ('fa, 'z) machine_scheme) option" where
  "create_process_page_table_with_user_mappings X allocate_frame mapper s =
     (case allocate_frame (frames s) of
        (None, _) \<Rightarrow> None
      | (Some page_table_frame, fa) \<Rightarrow>
          (case virt_add X (phys_offset mapper) page_table_frame of
             None \<Rightarrow> None
           | Some new_table \<Rightarrow>
               Some (page_table_frame,
                 s\<lparr>frames := fa, memory := copy_words new_table (level_4_table mapper) 512 (memory s)\<rparr>)))"

section \<open>Processes\<close>

record ResourceLimits =
  max_memory :: u64
  max_cpu_time :: u64
  max_processes :: u32
  max_files :: u32

definition ResourceLimits_default :: ResourceLimits where
  "ResourceLimits_default =
     \<lparr>max_memory = 64 * 1024 * 1024, max_cpu_time = 30 * 1000, max_processes = 32, max_files = 16\<rparr>"

record ProcessStats =
  cpu_time_used :: u64
  memory_used :: u64
  children_count :: u32
  files_opened :: u32

definition ProcessStats_default :: ProcessStats where
  "ProcessStats_default = \<lparr>cpu_time_used = 0, memory_used = 0, children_count = 0, files_opened = 0\<rparr>"

record Process =
  proc_id :: u64
  context_ptr :: u64
  page_table_frame :: u64
  state :: ProcessState
  parent_id :: u64
  children :: "u64 list"
  exit_code :: i32
  priority :: u8
  resource_limits :: ResourceLimits
  stats :: ProcessStats
  process_group_id :: u64
  session_id :: u64
  creation_time :: u64

definition initial_context :: "u64 \<Rightarrow> u64 \<Rightarrow> ProcessContext" where
  "initial_context entry_point stack_top =
     \<lparr>r15 = 0, r14 = 0, r13 = 0, r12 = 0, rbp = 0, rbx = 0, r11 = 0, r10 = 0, r9 = 0, r8 = 0,
      rdi = 0, rsi = 0, rdx = 0, rcx = 0, rax = 0, rip = entry_point, cs = 0x23, rflags = 0x202,
      rsp = stack_top, ss = 0x1b\<rparr>"

definition Process_new ::
    "x86_crate \<Rightarrow> ('fa \<Rightarrow> u64 option \<times> 'fa) \<Rightarrow> OffsetPageTable \<Rightarrow> u64 \<Rightarrow> u64 \<Rightarrow> u64
      \<Rightarrow> ('fa, 'z) machine_scheme \<Rightarrow> (Process \<times> ('fa, 'z) machine_scheme) option" where
  "Process_new X allocate_frame mapper new_id entry_point stack_top s =
     (let ctx = stack_top - context_size in
      case create_process_page_table_with_user_mappings X allocate_frame mapper s of
        None \<Rightarrow> None
      | Some (frame, s) \<Rightarrow>
          let s = s\<lparr>memory := write_context ctx (initial_context entry_point stack_top) (memory s)\<rparr>;
              (now, s) = get_current_time s
          in Some (\<lparr>proc_id = new_id, context_ptr = ctx, page_table_frame = frame, state = Ready,
               parent_id = 0, children = [], exit_code = 0, priority = DEFAULT_PRIORITY,
               resource_limits = ResourceLimits_default, stats = ProcessStats_default,
               process_group_id = new_id, session_id = new_id, creation_time = now\<rparr>, s))"

text \<open>
  \<^verbatim>\<open>fork\<close> holds a reference to the parent's context, so the registers it copies are read
  after \<^verbatim>\<open>new\<close> has written the child's initial context.
\<close>

definition Process_fork ::
    "x86_crate \<Rightarrow> ('fa \<Rightarrow> u64 option \<times> 'fa) \<Rightarrow> OffsetPageTable \<Rightarrow> Process
      \<Rightarrow> ('fa, 'z) machine_scheme \<Rightarrow> ((string + Process) \<times> ('fa, 'z) machine_scheme) option" where
  "Process_fork X allocate_frame mapper self s =
     (let (child_pid, s) = allocate_pid s;
          current = read_context (context_ptr self) (memory s)
      in case Process_new X allocate_frame mapper child_pid (rip current) (rsp current) s of
           None \<Rightarrow> None
         | Some (child, s) \<Rightarrow>
             let child = child\<lparr>parent_id := proc_id self, process_group_id := process_group_id self,
                   session_id := session_id self, priority := priority self,
                   resource_limits := resource_limits self\<rparr>;
                 m = write_context (context_ptr child) (read_context (context_ptr self) (memory s)) (memory s);
                 m = write_context (context_ptr child) ((read_context (context_ptr child) m)\<lparr>rax := 0\<rparr>) m
             in Some (Inr child, s\<lparr>memory := m\<rparr>))"

definition Process_exit :: "i32 \<Rightarrow> Process \<Rightarrow> unit KernelResult \<times> Process" where
  "Process_exit code p =
     (if sint code < -255 \<or> sint code > 255 then (kerror from_ProcessError ProcessError.InvalidState, p)
      else (Inr (), p\<lparr>state := Zombie, exit_code := code\<rparr>))"

definition Process_wait :: "u64 \<Rightarrow> Process \<Rightarrow> i32 KernelResult" where
  "Process_wait child_pid p =
     (if children p = [] then kerror from_ProcessError ProcessError.NotFound
      else if \<exists>child_id \<in> set (children p). child_pid = - 1 \<or> child_id = child_pid then Inr 0
      else kerror from_ProcessError ProcessError.NotFound)"

definition Process_join :: "u64 \<Rightarrow> Process \<Rightarrow> i32 KernelResult \<times> Process" where
  "Process_join target_pid p =
     (if state p = Zombie \<and> proc_id p = target_pid then (Inr (exit_code p), p)
      else (Inr (exit_code p), p\<lparr>state := Waiting (Child target_pid)\<rparr>))"

fun can_terminate_state :: "ProcessState \<Rightarrow> bool" where
  "can_terminate_state Running = True"
| "can_terminate_state Ready = True"
| "can_terminate_state (Waiting _) = True"
| "can_terminate_state Zombie = False"
| "can_terminate_state Stopped = False"

definition can_terminate :: "Process \<Rightarrow> bool" where
  "can_terminate p = can_terminate_state (state p)"

definition Process_set_priority :: "u8 \<Rightarrow> Process \<Rightarrow> unit KernelResult \<times> Process" where
  "Process_set_priority prio p =
     (if prio > 31 then (kerror from_ProcessError ProcessError.InvalidState, p)
      else (Inr (), p\<lparr>priority := prio\<rparr>))"

definition set_resource_limits :: "ResourceLimits \<Rightarrow> Process \<Rightarrow> unit KernelResult \<times> Process" where
  "set_resource_limits limits p =
     (if max_memory limits = 0 \<or> max_cpu_time limits = 0
      then (kerror from_ProcessError ProcessError.InvalidState, p)
      else (Inr (), p\<lparr>resource_limits := limits\<rparr>))"

definition check_resource_limits :: "Process \<Rightarrow> bool" where
  "check_resource_limits p \<longleftrightarrow>
     memory_used (stats p) \<le> max_memory (resource_limits p) \<and>
     cpu_time_used (stats p) \<le> max_cpu_time (resource_limits p) \<and>
     children_count (stats p) \<le> max_processes (resource_limits p) \<and>
     files_opened (stats p) \<le> max_files (resource_limits p)"

definition add_child :: "u64 \<Rightarrow> Process \<Rightarrow> unit KernelResult \<times> Process" where
  "add_child child_pid p =
     (if children_count (stats p) \<ge> max_processes (resource_limits p)
      then (kerror from_ProcessError ProcessError.InvalidState, p)
      else (Inr (), p\<lparr>children := children p @ [child_pid],
        stats := (stats p)\<lparr>children_count := children_count (stats p) + 1\<rparr>\<rparr>))"

definition remove_child :: "u64 \<Rightarrow> Process \<Rightarrow> bool \<times> Process" where
  "remove_child child_pid p =
     (case position (\<lambda>id. id = child_pid) (children p) of
        Some pos \<Rightarrow> (True, p\<lparr>children := remove_at pos (children p),
          stats := (stats p)\<lparr>children_count := saturating_sub (children_count (stats p)) 1\<rparr>\<rparr>)
      | None \<Rightarrow> (False, p))"

definition make_orphan :: "Process \<Rightarrow> Process" where
  "make_orphan p = p\<lparr>parent_id := 0\<rparr>"

definition is_orphan :: "Process \<Rightarrow> bool" where
  "is_orphan p \<longleftrightarrow> parent_id p = 0 \<and> proc_id p \<noteq> 0"

definition get_age :: "Process \<Rightarrow> ('fa, 'z) machine_scheme \<Rightarrow> u64 \<times> ('fa, 'z) machine_scheme" where
  "get_age p s = (let (now, s) = get_current_time s in (saturating_sub now (creation_time p), s))"

definition update_cpu_usage :: "u64 \<Rightarrow> Process \<Rightarrow> Process" where
  "update_cpu_usage cpu_time p = p\<lparr>stats := (stats p)\<lparr>cpu_time_used := cpu_time_used (stats p) + cpu_time\<rparr>\<rparr>"

definition update_memory_usage :: "u64 \<Rightarrow> Process \<Rightarrow> Process" where
  "update_memory_usage used p = p\<lparr>stats := (stats p)\<lparr>memory_used := used\<rparr>\<rparr>"

definition increment_file_count :: "Process \<Rightarrow> unit KernelResult \<times> Process" where
  "increment_file_count p =
     (if files_opened (stats p) \<ge> max_files (resource_limits p)
      then (kerror from_ProcessError ProcessError.InvalidState, p)
      else (Inr (), p\<lparr>stats := (stats p)\<lparr>files_opened := files_opened (stats p) + 1\<rparr>\<rparr>))"

definition decrement_file_count :: "Process \<Rightarrow> Process" where
  "decrement_file_count p =
     p\<lparr>stats := (stats p)\<lparr>files_opened := saturating_sub (files_opened (stats p)) 1\<rparr>\<rparr>"

definition create_process_group ::
    "Process \<Rightarrow> ('fa, 'z) machine_scheme \<Rightarrow> u64 KernelResult \<times> Process \<times> ('fa, 'z) machine_scheme" where
  "create_process_group p s =
     (let (new_pgid, s) = allocate_pgid s in (Inr new_pgid, p\<lparr>process_group_id := new_pgid\<rparr>, s))"

definition join_process_group :: "u64 \<Rightarrow> Process \<Rightarrow> unit KernelResult \<times> Process" where
  "join_process_group pgid p =
     (if pgid = 0 then (kerror from_ProcessError ProcessError.InvalidPid, p)
      else (Inr (), p\<lparr>process_group_id := pgid\<rparr>))"

definition create_session ::
    "Process \<Rightarrow> ('fa, 'z) machine_scheme \<Rightarrow> u64 KernelResult \<times> Process \<times> ('fa, 'z) machine_scheme" where
  "create_session p s =
     (if process_group_id p \<noteq> proc_id p then (kerror from_ProcessError ProcessError.InvalidState, p, s)
      else let (new_sid, s) = allocate_sid s in (Inr new_sid, p\<lparr>session_id := new_sid\<rparr>, s))"

section \<open>The trait TaskBehavior\<close>

text \<open>
  A future is an opaque value with a poll function; the waker cache maps task identifiers to
  wakers.
\<close>

record ('fut, 'w) AsyncTask =
  at_id :: u64
  future :: 'fut
  at_state :: ProcessState
  at_priority :: u8
  waker_cache :: "(u64, 'w) btree_map"

text \<open>\<^verbatim>\<open>TaskId::new\<close>: \<^verbatim>\<open>fetch_add\<close> on the static counter.\<close>

definition TaskId_new :: "u64 \<Rightarrow> u64 \<times> u64" where
  "TaskId_new NEXT_ID = (NEXT_ID, NEXT_ID + 1)"

definition AsyncTask_new :: "'fut \<Rightarrow> u64 \<Rightarrow> ('fut, 'w) AsyncTask \<times> u64" where
  "AsyncTask_new fut NEXT_ID =
     (let (new_id, NEXT_ID) = TaskId_new NEXT_ID
      in (\<lparr>at_id = new_id, future = fut, at_state = Ready, at_priority = DEFAULT_PRIORITY,
           waker_cache = []\<rparr>, NEXT_ID))"

definition AsyncTask_poll ::
    "('fut \<Rightarrow> 'cx \<Rightarrow> unit Poll \<times> 'fut) \<Rightarrow> 'cx \<Rightarrow> ('fut, 'w) AsyncTask \<Rightarrow> unit Poll \<times> ('fut, 'w) AsyncTask" where
  "AsyncTask_poll poll cx t = (let (res, fut) = poll (future t) cx in (res, t\<lparr>future := fut\<rparr>))"

definition Process_get_task_type :: "Process \<Rightarrow> TaskType" where
  "Process_get_task_type p = ProcessTask"

definition Process_set_state :: "ProcessState \<Rightarrow> Process \<Rightarrow> Process" where
  "Process_set_state st p = p\<lparr>state := st\<rparr>"

definition Process_can_schedule :: "Process \<Rightarrow> bool" where
  "Process_can_schedule p \<longleftrightarrow> state p = Ready \<or> state p = Running"

definition Process_poll_task :: "Process \<Rightarrow> unit Poll" where
  "Process_poll_task p = PollReady ()"

definition Process_wake_task :: "Process \<Rightarrow> Process" where
  "Process_wake_task p = (case state p of Waiting _ \<Rightarrow> p\<lparr>state := Ready\<rparr> | _ \<Rightarrow> p)"

definition AsyncTask_get_task_type :: "('fut, 'w) AsyncTask \<Rightarrow> TaskType" where
  "AsyncTask_get_task_type t = Async"

definition AsyncTask_set_state :: "ProcessState \<Rightarrow> ('fut, 'w) AsyncTask \<Rightarrow> ('fut, 'w) AsyncTask" where
  "AsyncTask_set_state st t = t\<lparr>at_state := st\<rparr>"

definition AsyncTask_set_priority :: "u8 \<Rightarrow> ('fut, 'w) AsyncTask \<Rightarrow> unit KernelResult \<times> ('fut, 'w) AsyncTask" where
  "AsyncTask_set_priority prio t =
     (if prio > 31 then (kerror from_ProcessError ProcessError.InvalidState, t)
      else (Inr (), t\<lparr>at_priority := prio\<rparr>))"

definition AsyncTask_can_schedule :: "('fut, 'w) AsyncTask \<Rightarrow> bool" where
  "AsyncTask_can_schedule t \<longleftrightarrow> at_state t = Ready"

definition AsyncTask_poll_task :: "('fut, 'w) AsyncTask \<Rightarrow> unit Poll" where
  "AsyncTask_poll_task t = (if at_state t = Ready then PollReady () else Pending)"

definition AsyncTask_wake_task :: "('fut, 'w) AsyncTask \<Rightarrow> ('fut, 'w) AsyncTask" where
  "AsyncTask_wake_task t = t\<lparr>at_state := Ready\<rparr>"

text \<open>
  The contract of the trait. What can be scheduled is ready or running, what can be scheduled
  polls as ready, waking makes a waiting task schedulable, priorities stay in the range 0 to 31
  and the identifier never changes.
\<close>

locale task_behavior =
  fixes get_id :: "'t \<Rightarrow> u64"
    and get_state :: "'t \<Rightarrow> ProcessState"
    and set_state :: "ProcessState \<Rightarrow> 't \<Rightarrow> 't"
    and get_priority :: "'t \<Rightarrow> u8"
    and set_priority :: "u8 \<Rightarrow> 't \<Rightarrow> unit KernelResult \<times> 't"
    and can_schedule :: "'t \<Rightarrow> bool"
    and poll_task :: "'t \<Rightarrow> unit Poll"
    and wake_task :: "'t \<Rightarrow> 't"
  assumes get_set_state: "get_state (set_state st t) = st"
    and set_state_frame: "get_id (set_state st t) = get_id t" "get_priority (set_state st t) = get_priority t"
    and set_priority_ok: "prio \<le> 31 \<Longrightarrow> fst (set_priority prio t) = Inr () \<and> get_priority (snd (set_priority prio t)) = prio"
    and set_priority_err: "\<not> prio \<le> 31 \<Longrightarrow>
        set_priority prio t = (Inl (KernelError.Process ProcessError.InvalidState), t)"
    and set_priority_frame: "get_id (snd (set_priority prio t)) = get_id t"
      "get_state (snd (set_priority prio t)) = get_state t"
    and can_schedule_state: "can_schedule t \<Longrightarrow> get_state t = Ready \<or> get_state t = Running"
    and ready_can_schedule: "get_state t = Ready \<Longrightarrow> can_schedule t"
    and can_schedule_poll: "can_schedule t \<Longrightarrow> poll_task t = PollReady ()"
    and wake_waiting: "get_state t = Waiting r \<Longrightarrow> get_state (wake_task t) = Ready"
    and wake_frame: "get_id (wake_task t) = get_id t" "get_priority (wake_task t) = get_priority t"
begin

lemma woken_is_polled:
  assumes "get_state t = Waiting r"
  shows "\<not> can_schedule t \<and> can_schedule (wake_task t) \<and> poll_task (wake_task t) = PollReady ()"
proof -
  have "can_schedule (wake_task t)" using assms by (intro ready_can_schedule wake_waiting)
  moreover have "\<not> can_schedule t" using assms can_schedule_state [of t] by auto
  ultimately show ?thesis by (simp add: can_schedule_poll)
qed

lemma set_priority_bound: "get_priority t \<le> 31 \<Longrightarrow> get_priority (snd (set_priority prio t)) \<le> 31"
  using set_priority_ok [of prio t] set_priority_err [of prio t] by (cases "prio \<le> 31") auto

lemma set_priorities_bound:
  "get_priority t \<le> 31 \<Longrightarrow> get_priority (fold (\<lambda>prio t. snd (set_priority prio t)) prios t) \<le> 31
     \<and> get_id (fold (\<lambda>prio t. snd (set_priority prio t)) prios t) = get_id t"
  by (induction prios arbitrary: t) (auto simp: set_priority_bound set_priority_frame)

end

interpretation process_task: task_behavior proc_id state Process_set_state priority
  Process_set_priority Process_can_schedule Process_poll_task Process_wake_task
  by unfold_locales
    (auto simp: Process_set_state_def Process_set_priority_def Process_can_schedule_def
      Process_poll_task_def Process_wake_task_def kerror_def from_ProcessError_def
      split: ProcessState.splits)

interpretation async_task: task_behavior at_id at_state AsyncTask_set_state at_priority
  AsyncTask_set_priority AsyncTask_can_schedule AsyncTask_poll_task AsyncTask_wake_task
  by unfold_locales
    (auto simp: AsyncTask_set_state_def AsyncTask_set_priority_def AsyncTask_can_schedule_def
      AsyncTask_poll_task_def AsyncTask_wake_task_def kerror_def from_ProcessError_def)

section \<open>Contexts can be read back\<close>

lemma length_context_words [simp]: "length (context_words c) = 20"
  by (simp add: context_words_def)

lemma context_of_context_words: "context_of_words (context_words c) = c"
  by (simp add: context_of_words_def context_words_def)

lemma read_write_context [simp]: "read_context p (write_context p c m) = c"
proof -
  have "read_bytes p 160 (write_context p c m) = words_bytes (context_words c)"
    using read_write_bytes [of "words_bytes (context_words c)" p m] by (simp add: write_context_def)
  moreover have "words_le 20 (words_bytes (context_words c)) = context_words c"
    using words_le_words_bytes [of "context_words c"] by simp
  ultimately show ?thesis by (simp add: read_context_def context_of_context_words)
qed

lemma write_context_outside: "x \<notin> region p 160 \<Longrightarrow> write_context p c m x = m x"
  by (simp add: write_context_def write_bytes_outside)

lemma read_context_cong: "(\<And>x. x \<in> region p 160 \<Longrightarrow> m x = m' x) \<Longrightarrow> read_context p m = read_context p m'"
  unfolding read_context_def by (subst read_bytes_cong) auto

lemma read_write_context_disjoint:
  "region p 160 \<inter> region q 160 = {} \<Longrightarrow> read_context p (write_context q c m) = read_context p m"
  by (intro read_context_cong write_context_outside) auto

lemma write_context_twice: "write_context p c (write_context p c' m) = write_context p c m"
  by (simp add: write_context_def write_bytes_def fun_eq_iff)

section \<open>Well-formed processes\<close>

text \<open>
  The priority is in range and the number of children in the statistics is the length of the
  list of children.
\<close>

definition Process_wf :: "Process \<Rightarrow> bool" where
  "Process_wf p \<longleftrightarrow> priority p \<le> 31 \<and> unat (children_count (stats p)) = length (children p)"

datatype process_op =
    OpExit i32
  | OpJoin u64
  | OpSetPriority u8
  | OpSetLimits ResourceLimits
  | OpAddChild u64
  | OpRemoveChild u64
  | OpMakeOrphan
  | OpCpuUsage u64
  | OpMemoryUsage u64
  | OpOpenFile
  | OpCloseFile
  | OpJoinGroup u64
  | OpSetState ProcessState
  | OpWake

fun process_step :: "process_op \<Rightarrow> Process \<Rightarrow> Process" where
  "process_step (OpExit c) p = snd (Process_exit c p)"
| "process_step (OpJoin t) p = snd (Process_join t p)"
| "process_step (OpSetPriority x) p = snd (Process_set_priority x p)"
| "process_step (OpSetLimits l) p = snd (set_resource_limits l p)"
| "process_step (OpAddChild c) p = snd (add_child c p)"
| "process_step (OpRemoveChild c) p = snd (remove_child c p)"
| "process_step OpMakeOrphan p = make_orphan p"
| "process_step (OpCpuUsage t) p = update_cpu_usage t p"
| "process_step (OpMemoryUsage u) p = update_memory_usage u p"
| "process_step OpOpenFile p = snd (increment_file_count p)"
| "process_step OpCloseFile p = decrement_file_count p"
| "process_step (OpJoinGroup g) p = snd (join_process_group g p)"
| "process_step (OpSetState st) p = Process_set_state st p"
| "process_step OpWake p = Process_wake_task p"

lemma add_child_wf [ruix_inv]:
  assumes "Process_wf p"
  shows "Process_wf (snd (add_child c p))"
proof (cases "children_count (stats p) \<ge> max_processes (resource_limits p)")
  case True
  with assms show ?thesis by (simp add: add_child_def)
next
  case False
  then have "children_count (stats p) \<noteq> - 1" by (auto simp: not_le word_order.extremum_strict)
  then have "unat (children_count (stats p) + 1) = unat (children_count (stats p)) + 1"
    by (rule unat_Suc_word [OF unat_less_max])
  with False assms show ?thesis by (simp add: add_child_def Process_wf_def)
qed

lemma remove_child_wf [ruix_inv]: "Process_wf p \<Longrightarrow> Process_wf (snd (remove_child c p))"
  by (auto simp: remove_child_def Process_wf_def unat_saturating_sub length_remove_at
      dest: position_SomeD split: option.splits)

lemma process_step_wf [ruix_inv]: "Process_wf p \<Longrightarrow> Process_wf (process_step x p)"
  using add_child_wf [of p] remove_child_wf [of p]
  by (cases x)
    (auto simp: Process_exit_def Process_join_def Process_set_priority_def
      set_resource_limits_def make_orphan_def update_cpu_usage_def update_memory_usage_def
      increment_file_count_def decrement_file_count_def join_process_group_def Process_set_state_def
      Process_wake_task_def Process_wf_def split: ProcessState.splits)

interpretation process_life: invariant_system process_step Process_wf
  by unfold_locales (rule process_step_wf)

lemma process_step_id: "proc_id (process_step x p) = proc_id p"
  by (cases x)
    (simp_all add: Process_exit_def Process_join_def Process_set_priority_def add_child_def
      remove_child_def set_resource_limits_def make_orphan_def update_cpu_usage_def
      update_memory_usage_def increment_file_count_def decrement_file_count_def
      join_process_group_def Process_set_state_def Process_wake_task_def
      split: option.split ProcessState.split)

section \<open>Creation\<close>

definition table_copied :: "u64 \<Rightarrow> u64 \<Rightarrow> mem \<Rightarrow> mem \<Rightarrow> bool" where
  "table_copied new old m m' \<longleftrightarrow> (\<forall>i < 512. read_u64 (new + of_nat (8 * i)) m' = read_u64 (old + of_nat (8 * i)) m)"

lemma table_copied_copy_words:
  "region new 4096 \<inter> region old 4096 = {} \<Longrightarrow> table_copied new old m (copy_words new old 512 m)"
  unfolding table_copied_def using copy_words_read [of old 512 new 512] by (auto simp: Int_commute)

lemma table_copied_cong:
  assumes "table_copied new old m m'" and "\<And>x. x \<in> region new 4096 \<Longrightarrow> m'' x = m' x"
  shows "table_copied new old m m''"
  unfolding table_copied_def
proof (intro allI impI)
  fix i :: nat
  assume i: "i < 512"
  have "read_bytes (new + of_nat (8 * i)) 8 m'' = read_bytes (new + of_nat (8 * i)) 8 m'"
    using sub_region [of "8 * i" 8 4096 new] i assms(2) by (intro read_bytes_cong) auto
  with assms(1) i show "read_u64 (new + of_nat (8 * i)) m'' = read_u64 (old + of_nat (8 * i)) m"
    unfolding table_copied_def read_u64_def by simp
qed

text \<open>The layout that process creation relies on: a fresh frame, mapped apart from what is in use.\<close>

definition fresh_table :: "x86_crate \<Rightarrow> ('fa \<Rightarrow> u64 option \<times> 'fa) \<Rightarrow> OffsetPageTable \<Rightarrow> 'fa \<Rightarrow> u64 \<Rightarrow> u64 \<Rightarrow> bool" where
  "fresh_table X allocate_frame mapper fa f t \<longleftrightarrow>
     fst (allocate_frame fa) = Some f \<and> virt_add X (phys_offset mapper) f = Some t
     \<and> region t 4096 \<inter> region (level_4_table mapper) 4096 = {}"

lemma Process_new_eq:
  assumes "fresh_table X af mp (frames s) f t"
  shows "Process_new X af mp i e st s = Some
    (\<lparr>proc_id = i, context_ptr = st - context_size, page_table_frame = f, state = Ready,
      parent_id = 0, children = [], exit_code = 0, priority = DEFAULT_PRIORITY,
      resource_limits = ResourceLimits_default, stats = ProcessStats_default,
      process_group_id = i, session_id = i, creation_time = TIMESTAMP_COUNTER s + 1\<rparr>,
     s\<lparr>frames := snd (af (frames s)), TIMESTAMP_COUNTER := TIMESTAMP_COUNTER s + 1,
       memory := write_context (st - context_size) (initial_context e st)
         (copy_words t (level_4_table mp) 512 (memory s))\<rparr>)"
  using assms
  by (cases "af (frames s)")
    (auto simp: fresh_table_def Process_new_def create_process_page_table_with_user_mappings_def
      Let_def get_current_time_def)

lemma Process_new_context:
  assumes "fresh_table X af mp (frames s) f t"
  shows "\<exists>p s'. Process_new X af mp i e st s = Some (p, s') \<and> context_ptr p = st - 160
    \<and> frames s' = snd (af (frames s)) \<and> read_context (st - 160) (memory s') = initial_context e st"
  by (simp add: Process_new_eq [OF assms] context_size_def)

lemma Process_fork_eq:
  fixes self s
  defines "ctx \<equiv> read_context (context_ptr self) (memory s)"
  assumes "fresh_table X af mp (frames s) f t"
  shows "\<exists>child s'. Process_fork X af mp self s = Some (Inr child, s')
    \<and> proc_id child = NEXT_PID s \<and> context_ptr child = rsp ctx - context_size
    \<and> page_table_frame child = f \<and> state child = Ready \<and> parent_id child = proc_id self
    \<and> process_group_id child = process_group_id self \<and> session_id child = session_id self
    \<and> priority child = priority self \<and> resource_limits child = resource_limits self
    \<and> children child = [] \<and> stats child = ProcessStats_default \<and> NEXT_PID s' = NEXT_PID s + 1
    \<and> (let m = write_context (rsp ctx - context_size) (initial_context (rip ctx) (rsp ctx))
              (copy_words t (level_4_table mp) 512 (memory s));
            c = read_context (context_ptr self) m
        in memory s' = write_context (rsp ctx - context_size) (c\<lparr>rax := 0\<rparr>)
             (write_context (rsp ctx - context_size) c m))"
proof -
  have "fresh_table X af mp (frames (snd (allocate_pid s))) f t"
    using assms(2) by (simp add: allocate_pid_def)
  from Process_new_eq [OF this] show ?thesis
    by (simp add: Process_fork_def allocate_pid_def Let_def ctx_def)
qed

section \<open>Properties\<close>

text \<open>
  C18 (a new process). When a frame is available and mapped apart from the active table and from the
  context area, creating a process succeeds, and afterwards: the context that the switch code will
  pop holds the entry point and the stack top with user mode selectors and interrupts enabled; the
  new top-level table has all 512 entries of the active one; no other byte of memory has changed;
  and the process is well formed and ready.
\<close>

theorem process_creation:
  assumes "fresh_table X af mp (frames s) f t" and "region t 4096 \<inter> region (st - 160) 160 = {}"
  shows "\<exists>p s'. Process_new X af mp i e st s = Some (p, s')
    \<and> proc_id p = i \<and> page_table_frame p = f \<and> state p = Ready \<and> Process_wf p
    \<and> read_context (context_ptr p) (memory s') = initial_context e st
    \<and> table_copied t (level_4_table mp) (memory s) (memory s')
    \<and> (\<forall>x. x \<notin> region t 4096 \<longrightarrow> x \<notin> region (st - 160) 160 \<longrightarrow> memory s' x = memory s x)"
proof -
  let ?m = "copy_words t (level_4_table mp) 512 (memory s)"
  have "table_copied t (level_4_table mp) (memory s) ?m"
    using assms(1) by (intro table_copied_copy_words) (simp add: fresh_table_def)
  then have "table_copied t (level_4_table mp) (memory s) (write_context (st - 160) c ?m)" for c
    using assms(2) by (elim table_copied_cong) (auto intro!: write_context_outside)
  moreover have "x \<notin> region t 4096 \<Longrightarrow> x \<notin> region (st - 160) 160 \<Longrightarrow>
      write_context (st - 160) c ?m x = memory s x" for x c
    using copy_words_outside [of x t 512] by (simp add: write_context_outside)
  ultimately show ?thesis
    using Process_new_eq [OF assms(1)]
    by (simp add: context_size_def Process_wf_def ProcessStats_default_def DEFAULT_PRIORITY_def)
qed

text \<open>A machine with two free frames, its active table at \<open>0x1000\<close>, and no physical offset.\<close>

fun example_alloc :: "u64 list \<Rightarrow> u64 option \<times> u64 list" where
  "example_alloc [] = (None, [])"
| "example_alloc (f # fs) = (Some f, fs)"

definition example_machine :: "u64 list machine" where
  "example_machine = \<lparr>memory = (\<lambda>_. 0), frames = [0x2000, 0x3000], NEXT_PID = 1, NEXT_PGID = 1,
     NEXT_SID = 1, TIMESTAMP_COUNTER = 0\<rparr>"

abbreviation example_mapper :: OffsetPageTable where
  "example_mapper \<equiv> \<lparr>phys_offset = 0, level_4_table = 0x1000\<rparr>"

lemma example_fresh: "fresh_table x86_ref example_alloc example_mapper [0x2000, 0x3000] 0x2000 0x2000"
  by (auto simp: fresh_table_def x86_ref_def canonical_def region_no_wrap)

lemma example_fresh_machine:
  "fresh_table x86_ref example_alloc example_mapper (frames example_machine) 0x2000 0x2000"
  using example_fresh by (simp add: example_machine_def)

theorem process_creation_witness:
  "\<exists>p s'. Process_new x86_ref example_alloc example_mapper 1 0x400000 0x601000
      example_machine = Some (p, s')
    \<and> read_context (context_ptr p) (memory s') = initial_context 0x400000 0x601000"
proof -
  have d: "region 0x2000 4096 \<inter> region (0x601000 - 160) 160 = {}" by (auto simp: region_no_wrap)
  from process_creation [OF example_fresh_machine d, of 1 "0x400000"] show ?thesis by blast
qed


definition example_parent :: Process where
  "example_parent = \<lparr>proc_id = 5, context_ptr = 0x9000, page_table_frame = 0x1000, state = Running,
     parent_id = 0, children = [], exit_code = 0, priority = 3,
     resource_limits = ResourceLimits_default, stats = ProcessStats_default, process_group_id = 5,
     session_id = 5, creation_time = 1\<rparr>"

definition example_running :: "u64 list machine" where
  "example_running = example_machine
     \<lparr>memory := write_context 0x9000 (initial_context 0x400000 0x601000) (memory example_machine)\<rparr>"

lemma example_running_context:
  "read_context 0x9000 (memory example_running) = initial_context 0x400000 0x601000"
  by (simp add: example_running_def)


text \<open>
  Fork of a process that never ran. A process that still has its initial context has it in
  the very place where \<^verbatim>\<open>fork\<close> puts the child's: parent and child share one context
  area, and the parent's registers are overwritten by a fresh initial context.
\<close>

theorem fork_before_first_run_aliases:
  fixes self s
  defines "ctx \<equiv> read_context (context_ptr self) (memory s)"
  assumes "fresh_table X af mp (frames s) f t" and "context_ptr self = rsp ctx - 160"
  shows "\<exists>child s'. Process_fork X af mp self s = Some (Inr child, s')
    \<and> context_ptr child = context_ptr self
    \<and> read_context (context_ptr self) (memory s') = initial_context (rip ctx) (rsp ctx)"
proof -
  have idem: "(initial_context e st)\<lparr>rax := 0\<rparr> = initial_context e st" for e st
    by (simp add: initial_context_def)
  define m where "m = copy_words t (level_4_table mp) 512 (memory s)"
  obtain child s' where
    c: "Process_fork X af mp self s = Some (Inr child, s')" "context_ptr child = rsp ctx - 160"
    "memory s' = write_context (rsp ctx - 160) ((read_context (context_ptr self)
         (write_context (rsp ctx - 160) (initial_context (rip ctx) (rsp ctx)) m))\<lparr>rax := 0\<rparr>) m"
    using Process_fork_eq [OF assms(2), of self]
    unfolding ctx_def [symmetric] m_def [symmetric] context_size_def Let_def write_context_twice
    by blast
  have "memory s' = write_context (rsp ctx - 160) (initial_context (rip ctx) (rsp ctx)) m"
    using c(3) unfolding assms(3) read_write_context idem .
  then have "read_context (context_ptr self) (memory s') = initial_context (rip ctx) (rsp ctx)"
    unfolding assms(3) by (simp only: read_write_context)
  with c(1,2) assms(3) show ?thesis by metis
qed

theorem fork_before_first_run_aliases_witness:
  "\<exists>p s child s'. Process_new x86_ref example_alloc example_mapper 1 0x400000 0x601000 example_machine = Some (p, s)
     \<and> Process_fork x86_ref example_alloc example_mapper p s = Some (Inr child, s')
     \<and> context_ptr child = context_ptr p"
proof -
  obtain p s where p: "Process_new x86_ref example_alloc example_mapper 1 0x400000 0x601000 example_machine
      = Some (p, s)" "context_ptr p = 0x601000 - 160" "frames s = snd (example_alloc (frames example_machine))"
    "read_context (0x601000 - 160) (memory s) = initial_context 0x400000 0x601000"
    using Process_new_context [OF example_fresh_machine, of 1 "0x400000" "0x601000"] by blast
  have "frames s = [0x3000]" using p(3) by (simp add: example_machine_def)
  then have f: "fresh_table x86_ref example_alloc example_mapper (frames s) 0x3000 0x3000"
    by (auto simp: fresh_table_def x86_ref_def canonical_def region_no_wrap)
  have "context_ptr p = rsp (read_context (context_ptr p) (memory s)) - 160"
    unfolding p(2,4) by (simp only: initial_context_def ProcessContext.simps)
  from fork_before_first_run_aliases [OF f this] p(1) show ?thesis by blast
qed

text \<open>
  C22 (operations keep processes well formed). Whatever sequence of operations is applied to a
  well-formed process, its priority stays in the range 0 to 31, the children counter stays equal
  to the number of children (it never wraps), and its identifier does not change.
\<close>

theorem process_operations_wf:
  assumes "Process_wf p"
  shows "Process_wf (run process_step xs p) \<and> proc_id (run process_step xs p) = proc_id p"
proof
  show "Process_wf (run process_step xs p)" using assms by (rule process_life.inv_run)
  show "proc_id (run process_step xs p) = proc_id p"
    by (induction xs arbitrary: p) (simp_all add: process_step_id)
qed

theorem process_operations_wf_witness:
  "Process_wf (run process_step [OpAddChild 7, OpSetPriority 99, OpRemoveChild 7, OpRemoveChild 7] example_parent)"
proof -
  have "Process_wf example_parent"
    by (simp add: Process_wf_def example_parent_def ProcessStats_default_def)
  from process_operations_wf [OF this] show ?thesis by blast
qed

text \<open>
  The trait's contract. For a process and for an asynchronous task alike, a waiting task is
  not schedulable, and after waking it is schedulable and polls as ready.
\<close>

theorem waking_makes_schedulable:
  "(state p = Waiting r \<longrightarrow> \<not> Process_can_schedule p \<and> Process_can_schedule (Process_wake_task p)
       \<and> Process_poll_task (Process_wake_task p) = PollReady ())
   \<and> (at_state t = Waiting r \<longrightarrow> \<not> AsyncTask_can_schedule t \<and> AsyncTask_can_schedule (AsyncTask_wake_task t)
       \<and> AsyncTask_poll_task (AsyncTask_wake_task t) = PollReady ())"
  using process_task.woken_is_polled [of p r] async_task.woken_is_polled [of t r] by blast

theorem waking_makes_schedulable_witness:
  "Process_can_schedule (Process_wake_task (Process_set_state (Waiting (Child 4)) example_parent))"
  using waking_makes_schedulable [of "Process_set_state (Waiting (Child 4)) example_parent" "Child 4"
      "undefined :: (unit, unit) AsyncTask"]
  by (simp add: Process_set_state_def)

end
