(* ===== verification/Ruix_Scheduler.thy ===== *)
theory Ruix_Scheduler
  imports Ruix_Process
begin

text \<open>
  The scheduler (\<^verbatim>\<open>src/process/scheduler.rs\<close>): the run queue with the process tree and the
  list of orphans, process exit and reaping, the clean-up of zombies and the choice of the next
  process at a timer interrupt. \<^verbatim>\<open>schedule\<close> also writes the current process identifier of
  \<^verbatim>\<open>CPU_DATA\<close> (\<^verbatim>\<open>src/syscall.rs\<close>) and the register \<^verbatim>\<open>CR3\<close>, which are
  the record \<open>cpu\<close> here.
\<close>

section \<open>State\<close>

record CpuData =
  user_rsp :: u64
  kernel_stack_top :: u64
  current_process_id :: u64
  tss_ptr :: u64

definition CPU_DATA_init :: CpuData where
  "CPU_DATA_init = \<lparr>user_rsp = 0, kernel_stack_top = 0, current_process_id = 0, tss_ptr = 0\<rparr>"

text \<open>The processor's data area extended by its page table register.\<close>

record cpu = CpuData +
  CR3 :: u64

definition get_current_process_id :: "'z CpuData_scheme \<Rightarrow> u64" where
  "get_current_process_id c = current_process_id c"

definition set_current_process_id :: "u64 \<Rightarrow> 'z CpuData_scheme \<Rightarrow> 'z CpuData_scheme" where
  "set_current_process_id pid c = c\<lparr>current_process_id := pid\<rparr>"

record ('fut, 'w) Scheduler =
  processes :: "Process list"
  async_tasks :: "('fut, 'w) AsyncTask list"
  process_tree :: "(u64, u64) btree_map"
  orphans :: "u64 list"
  current_priority :: u8
  task_queue :: "u64 list"

definition SCHEDULER_init :: "('fut, 'w) Scheduler" where
  "SCHEDULER_init = \<lparr>processes = [], async_tasks = [], process_tree = [], orphans = [],
     current_priority = DEFAULT_PRIORITY, task_queue = []\<rparr>"

section \<open>Operations\<close>

definition add_process :: "Process \<Rightarrow> ('fut, 'w) Scheduler \<Rightarrow> ('fut, 'w) Scheduler" where
  "add_process p s =
     (let s = s\<lparr>process_tree := btree_insert (proc_id p) (parent_id p) (process_tree s)\<rparr>;
          s = (if parent_id p = 0 \<and> proc_id p \<noteq> 0 then s\<lparr>orphans := orphans s @ [proc_id p]\<rparr> else s)
      in s\<lparr>processes := processes s @ [p]\<rparr>)"

definition add_async_task :: "('fut, 'w) AsyncTask \<Rightarrow> ('fut, 'w) Scheduler \<Rightarrow> ('fut, 'w) Scheduler" where
  "add_async_task t s = s\<lparr>task_queue := task_queue s @ [at_id t], async_tasks := async_tasks s @ [t]\<rparr>"

definition runnable :: "Process \<Rightarrow> bool" where
  "runnable p \<longleftrightarrow> state p = Ready \<or> state p = Running"

definition get_next_process_by_priority :: "('fut, 'w) Scheduler \<Rightarrow> u64 option" where
  "get_next_process_by_priority s = map_option proc_id (find runnable (processes s))"

definition get_next_async_task :: "('fut, 'w) Scheduler \<Rightarrow> u64 option" where
  "get_next_async_task s = map_option at_id (find AsyncTask_can_schedule (async_tasks s))"

definition get_next_task :: "('fut, 'w) Scheduler \<Rightarrow> (u64 \<times> TaskType) option" where
  "get_next_task s =
     (case get_next_process_by_priority s of
        Some pid \<Rightarrow> Some (pid, ProcessTask)
      | None \<Rightarrow> (case get_next_async_task s of
                  Some task_id \<Rightarrow> Some (task_id, Async)
                | None \<Rightarrow> None))"

text \<open>\<^verbatim>\<open>for process in &mut self.processes { if process.id == pid { ...; break; } }\<close>\<close>

definition update_process :: "u64 \<Rightarrow> (Process \<Rightarrow> Process) \<Rightarrow> ('fut, 'w) Scheduler \<Rightarrow> ('fut, 'w) Scheduler" where
  "update_process pid f s = s\<lparr>processes := keyed_modify proc_id pid f (processes s)\<rparr>"

definition lookup_process :: "u64 \<Rightarrow> ('fut, 'w) Scheduler \<Rightarrow> Process option" where
  "lookup_process pid s = keyed_lookup proc_id pid (processes s)"

definition remove_orphan :: "u64 \<Rightarrow> ('fut, 'w) Scheduler \<Rightarrow> ('fut, 'w) Scheduler" where
  "remove_orphan pid s =
     (case position (\<lambda>p. p = pid) (orphans s) of
        Some pos \<Rightarrow> s\<lparr>orphans := remove_at pos (orphans s)\<rparr>
      | None \<Rightarrow> s)"

definition register_child ::
    "u64 \<Rightarrow> u64 \<Rightarrow> ('fut, 'w) Scheduler \<Rightarrow> unit KernelResult \<times> ('fut, 'w) Scheduler" where
  "register_child parent_pid child_pid s =
     (let s = s\<lparr>process_tree := btree_insert child_pid parent_pid (process_tree s)\<rparr> in
      case lookup_process parent_pid s of
        Some p \<Rightarrow>
          (case add_child child_pid p of
             (Inl e, _) \<Rightarrow> (Inl e, s)
           | (Inr _, _) \<Rightarrow>
               (Inr (), remove_orphan child_pid (update_process parent_pid (\<lambda>p. snd (add_child child_pid p)) s)))
      | None \<Rightarrow> (Inr (), remove_orphan child_pid s))"

text \<open>
  The parts of \<^verbatim>\<open>handle_process_exit\<close>: detaching from the parent, orphaning the children
  found in the tree, waking the parent.
\<close>

definition detach_from_parent :: "u64 \<Rightarrow> u64 \<Rightarrow> ('fut, 'w) Scheduler \<Rightarrow> ('fut, 'w) Scheduler" where
  "detach_from_parent parent_pid exiting_pid s =
     (if parent_pid \<noteq> 0 then update_process parent_pid (\<lambda>p. snd (remove_child exiting_pid p)) s else s)"

definition children_in_tree :: "u64 \<Rightarrow> ('fut, 'w) Scheduler \<Rightarrow> u64 list" where
  "children_in_tree pid s = map fst (filter (\<lambda>(child, parent). parent = pid) (process_tree s))"

definition orphan_child :: "u64 \<Rightarrow> ('fut, 'w) Scheduler \<Rightarrow> ('fut, 'w) Scheduler" where
  "orphan_child child_pid s =
     (let s = s\<lparr>process_tree := btree_insert child_pid 0 (process_tree s)\<rparr> in
      case lookup_process child_pid s of
        Some _ \<Rightarrow> (update_process child_pid make_orphan s)\<lparr>orphans := orphans s @ [child_pid]\<rparr>
      | None \<Rightarrow> s)"

definition wake_waiting_parent :: "u64 \<Rightarrow> Process \<Rightarrow> Process" where
  "wake_waiting_parent exiting_pid p =
     (case state p of
        Waiting (Child waiting_pid) \<Rightarrow>
          if waiting_pid = exiting_pid \<or> waiting_pid = - 1 then p\<lparr>state := Ready\<rparr> else p
      | _ \<Rightarrow> p)"

definition wake_parent :: "u64 \<Rightarrow> u64 \<Rightarrow> ('fut, 'w) Scheduler \<Rightarrow> ('fut, 'w) Scheduler" where
  "wake_parent parent_pid exiting_pid s =
     (if parent_pid \<noteq> 0 then update_process parent_pid (wake_waiting_parent exiting_pid) s else s)"

definition finish_exit :: "u64 \<Rightarrow> u64 \<Rightarrow> ('fut, 'w) Scheduler \<Rightarrow> ('fut, 'w) Scheduler" where
  "finish_exit exiting_pid parent_pid s =
     (let s = detach_from_parent parent_pid exiting_pid s;
          s = fold orphan_child (children_in_tree exiting_pid s) s
      in wake_parent parent_pid exiting_pid s)"

definition handle_process_exit ::
    "u64 \<Rightarrow> i32 \<Rightarrow> ('fut, 'w) Scheduler \<Rightarrow> unit KernelResult \<times> ('fut, 'w) Scheduler" where
  "handle_process_exit exiting_pid code s =
     (case lookup_process exiting_pid s of
        Some p \<Rightarrow>
          (case Process_exit code p of
             (Inl e, _) \<Rightarrow> (Inl e, s)
           | (Inr _, _) \<Rightarrow>
               (Inr (), finish_exit exiting_pid (parent_id p)
                          (update_process exiting_pid (\<lambda>p. snd (Process_exit code p)) s)))
      | None \<Rightarrow> (Inr (), finish_exit exiting_pid 0 s))"

definition find_zombie_children :: "u64 \<Rightarrow> ('fut, 'w) Scheduler \<Rightarrow> u64 list" where
  "find_zombie_children parent_pid s =
     map proc_id (filter (\<lambda>p. parent_id p = parent_pid \<and> state p = Zombie) (processes s))"

text \<open>
  The closure given to \<^verbatim>\<open>retain\<close> records the exit code of the last process that it
  removes.
\<close>

definition reap_zombie_child ::
    "u64 \<Rightarrow> u64 \<Rightarrow> ('fut, 'w) Scheduler \<Rightarrow> i32 KernelResult \<times> ('fut, 'w) Scheduler" where
  "reap_zombie_child parent_pid child_pid s =
     (let gone = (\<lambda>p. proc_id p = child_pid \<and> parent_id p = parent_pid \<and> state p = Zombie);
          found = filter gone (processes s);
          s = s\<lparr>processes := filter (\<lambda>p. \<not> gone p) (processes s)\<rparr>
      in if found \<noteq> [] then
           let s = update_process parent_pid (\<lambda>p. snd (remove_child child_pid p)) s
           in (Inr (exit_code (last found)), s\<lparr>process_tree := btree_remove child_pid (process_tree s)\<rparr>)
         else (kerror from_ProcessError ProcessError.NotFound, s))"

definition Scheduler_is_orphan :: "u64 \<Rightarrow> ('fut, 'w) Scheduler \<Rightarrow> bool" where
  "Scheduler_is_orphan pid s \<longleftrightarrow> pid \<in> set (orphans s)"

definition get_process_hierarchy :: "u64 \<Rightarrow> ('fut, 'w) Scheduler \<Rightarrow> (u64 \<times> u64 list) option" where
  "get_process_hierarchy pid s =
     (case map_of (process_tree s) pid of
        Some parent_pid \<Rightarrow> Some (parent_pid, children_in_tree pid s)
      | None \<Rightarrow> None)"

definition cleanup_terminated_process ::
    "u64 \<Rightarrow> ('fut, 'w) Scheduler \<Rightarrow> unit KernelResult \<times> ('fut, 'w) Scheduler" where
  "cleanup_terminated_process pid s =
     (case lookup_process pid s of
        None \<Rightarrow> (kerror from_ProcessError ProcessError.NotFound, s)
      | Some p \<Rightarrow>
          if state p = Zombie then
            (Inr (), remove_orphan pid
               (s\<lparr>processes := filter (\<lambda>p. proc_id p \<noteq> pid) (processes s),
                  process_tree := btree_remove pid (process_tree s)\<rparr>))
          else (kerror from_ProcessError ProcessError.InvalidState, s))"

fun cleanup_step :: "u64 \<Rightarrow> u32 \<times> ('fut, 'w) Scheduler \<Rightarrow> u32 \<times> ('fut, 'w) Scheduler" where
  "cleanup_step zombie_pid (cleaned_count, s) =
     (case cleanup_terminated_process zombie_pid s of
        (Inr _, s) \<Rightarrow> (cleaned_count + 1, s)
      | (Inl _, s) \<Rightarrow> (cleaned_count, s))"

definition cleanup_all_zombies :: "('fut, 'w) Scheduler \<Rightarrow> u32 KernelResult \<times> ('fut, 'w) Scheduler" where
  "cleanup_all_zombies s =
     (let zombies_to_remove = map proc_id (filter (\<lambda>p. state p = Zombie) (processes s));
          (cleaned_count, s) = fold cleanup_step zombies_to_remove (0, s)
      in (Inr cleaned_count, s))"

definition get_memory_stats :: "('fut, 'w) Scheduler \<Rightarrow> u64 \<times> u32" where
  "get_memory_stats s =
     fold (\<lambda>p (total_memory, process_count).
         if state p \<noteq> Zombie then (total_memory + memory_used (stats p), process_count + 1)
         else (total_memory, process_count))
       (processes s) (0, 0)"

definition check_system_limits :: "('fut, 'w) Scheduler \<Rightarrow> bool" where
  "check_system_limits s =
     (let (total_memory, process_count) = get_memory_stats s
      in if process_count > 1000 then False
         else if total_memory > 1024 * 1024 * 1024 then False
         else True)"

section \<open>Choosing the next process\<close>

text \<open>What happens to the process at the front once the next process has been taken out.\<close>

fun save_front :: "u64 \<Rightarrow> Process list \<Rightarrow> Process list" where
  "save_front ctx [] = []"
| "save_front ctx (p # ps) =
     p\<lparr>context_ptr := ctx, state := (if state p = Running then Ready else state p)\<rparr> # ps"

definition switch_to :: "Process \<Rightarrow> 'z cpu_scheme \<Rightarrow> 'z cpu_scheme" where
  "switch_to p c = c\<lparr>current_process_id := proc_id p, CR3 := page_table_frame p\<rparr>"

definition schedule_round_robin ::
    "u64 \<Rightarrow> ('fut, 'w) Scheduler \<Rightarrow> 'z cpu_scheme \<Rightarrow> u64 \<times> ('fut, 'w) Scheduler \<times> 'z cpu_scheme" where
  "schedule_round_robin current_context_ptr s c =
     (let s = (case processes s of
                 prev # rest \<Rightarrow> s\<lparr>processes := rest @ [prev\<lparr>context_ptr := current_context_ptr\<rparr>]\<rparr>
               | [] \<Rightarrow> s)
      in case processes s of
           next # _ \<Rightarrow> (context_ptr next, s, switch_to next c)
         | [] \<Rightarrow> (current_context_ptr, s, c\<lparr>current_process_id := 0\<rparr>))"

definition schedule ::
    "u64 \<Rightarrow> ('fut, 'w) Scheduler \<Rightarrow> 'z cpu_scheme \<Rightarrow> u64 \<times> ('fut, 'w) Scheduler \<times> 'z cpu_scheme" where
  "schedule current_context_ptr s c =
     (case get_next_process_by_priority s of
        Some next_pid \<Rightarrow>
          (case position (\<lambda>p. proc_id p = next_pid) (processes s) of
             Some pos \<Rightarrow>
               let next = (processes s ! pos)\<lparr>state := Running\<rparr>;
                   rest = save_front current_context_ptr (remove_at pos (processes s))
               in (context_ptr next,
                   s\<lparr>processes := next # rest, current_priority := priority next\<rparr>,
                   switch_to next c)
           | None \<Rightarrow> schedule_round_robin current_context_ptr s c)
      | None \<Rightarrow> schedule_round_robin current_context_ptr s c)"

text \<open>
  \<^verbatim>\<open>handle_switch\<close>, called by the timer interrupt: the end-of-interrupt command that it
  writes to port \<^verbatim>\<open>0x20\<close> is returned with the result of \<^verbatim>\<open>schedule\<close>.
\<close>

definition handle_switch ::
    "u64 \<Rightarrow> ('fut, 'w) Scheduler \<Rightarrow> 'z cpu_scheme
      \<Rightarrow> (u16 \<times> u8) list \<times> u64 \<times> ('fut, 'w) Scheduler \<times> 'z cpu_scheme" where
  "handle_switch current_context_ptr s c = ([(0x20, 0x20)], schedule current_context_ptr s c)"

section \<open>The invariant\<close>

interpretation sched_reg: registry proc_id lookup_process update_process processes
  "\<lambda>s. distinct (map proc_id (processes s))"
proof unfold_locales
  fix r :: "('a, 'b) Scheduler" and k x and f :: "Process \<Rightarrow> Process"
  assume d: "distinct (map proc_id (processes r))"
  show "lookup_process k r = Some x \<longleftrightarrow> x \<in> set (processes r) \<and> proc_id x = k"
    using d by (simp add: lookup_process_def keyed.lookup_iff)
  assume f: "\<And>x. proc_id (f x) = proc_id x"
  show "processes (update_process k f r) = map (\<lambda>x. if proc_id x = k then f x else x) (processes r)"
    using keyed.elements_modify [OF d f] by (simp add: update_process_def)
  show "distinct (map proc_id (processes (update_process k f r)))"
    using keyed.inv_modify [OF d f] by (simp add: update_process_def)
qed

text \<open>
  Identifiers are unique, the processes are well formed, the tree is an ordered map, and only the
  process at the front of the queue may be in the state \<open>Running\<close>.
\<close>

definition Scheduler_inv :: "('fut, 'w) Scheduler \<Rightarrow> bool" where
  "Scheduler_inv s \<longleftrightarrow> distinct (map proc_id (processes s)) \<and> (\<forall>p \<in> set (processes s). Process_wf p)
     \<and> btree_wf (process_tree s) \<and> (\<forall>p \<in> set (tl (processes s)). state p \<noteq> Running)"

lemma SCHEDULER_init_inv: "Scheduler_inv SCHEDULER_init"
  by (simp add: Scheduler_inv_def SCHEDULER_init_def)

lemma Scheduler_inv_tree:
  "Scheduler_inv s \<Longrightarrow> btree_wf t \<Longrightarrow> Scheduler_inv (s\<lparr>process_tree := t\<rparr>)"
  by (simp add: Scheduler_inv_def)

lemma Scheduler_inv_wf: "Scheduler_inv s \<Longrightarrow> btree_wf (process_tree s)"
  by (simp add: Scheduler_inv_def)

lemma Scheduler_inv_orphans [simp]: "Scheduler_inv (s\<lparr>orphans := x\<rparr>) \<longleftrightarrow> Scheduler_inv s"
  by (simp add: Scheduler_inv_def)

lemma remove_orphan_inv [simp]: "Scheduler_inv (remove_orphan k s) \<longleftrightarrow> Scheduler_inv s"
  by (simp add: remove_orphan_def split: option.split)

lemma remove_orphan_frame [simp]:
  "processes (remove_orphan k s) = processes s" "process_tree (remove_orphan k s) = process_tree s"
  by (simp_all add: remove_orphan_def split: option.split)

lemma set_tl_filter: "set (tl (filter P xs)) \<subseteq> set (tl xs)"
proof (cases xs)
  case (Cons x ys)
  have "set (tl (filter P ys)) \<subseteq> set ys" by (cases "filter P ys") (auto simp: filter_eq_Cons_iff)
  with Cons show ?thesis by auto
qed simp

lemma Scheduler_inv_filter:
  "Scheduler_inv s \<Longrightarrow> Scheduler_inv (s\<lparr>processes := filter P (processes s)\<rparr>)"
  using set_tl_filter [of P "processes s"] by (auto simp: Scheduler_inv_def distinct_map_filter)

lemma update_process_inv:
  assumes "Scheduler_inv s" and id: "\<And>p. proc_id (f p) = proc_id p"
    and "\<And>p. Process_wf p \<Longrightarrow> Process_wf (f p)" and "\<And>p. state (f p) = Running \<Longrightarrow> state p = Running"
  shows "Scheduler_inv (update_process k f s)"
proof -
  have d: "distinct (map proc_id (processes s))" using assms(1) by (simp add: Scheduler_inv_def)
  have eq: "processes (update_process k f s) = map (\<lambda>x. if proc_id x = k then f x else x) (processes s)"
    using d id by (rule sched_reg.elements_modify)
  have "distinct (map proc_id (processes (update_process k f s)))"
    using d id by (rule sched_reg.inv_modify)
  moreover have "process_tree (update_process k f s) = process_tree s" by (simp add: update_process_def)
  ultimately show ?thesis
    using assms by (auto simp: Scheduler_inv_def eq map_tl [symmetric] split: if_splits)
qed

lemma lookup_update_process:
  assumes "Scheduler_inv s" and "\<And>p. proc_id (f p) = proc_id p"
  shows "lookup_process k (update_process k' f s)
    = (if k = k' then map_option f (lookup_process k s) else lookup_process k s)"
  using assms by (intro sched_reg.lookup_modify) (auto simp: Scheduler_inv_def)

lemma lookup_process_cong [simp]:
  "lookup_process k (s\<lparr>process_tree := t\<rparr>) = lookup_process k s"
  "lookup_process k (s\<lparr>orphans := x\<rparr>) = lookup_process k s"
  "lookup_process k (remove_orphan j s) = lookup_process k s"
  by (simp_all add: lookup_process_def)

lemma update_process_frame [simp]:
  "process_tree (update_process k f s) = process_tree s" "orphans (update_process k f s) = orphans s"
  by (simp_all add: update_process_def)

lemma process_update_frame [simp]:
  "proc_id (snd (add_child c p)) = proc_id p" "state (snd (add_child c p)) = state p"
  "parent_id (snd (add_child c p)) = parent_id p"
  "proc_id (snd (remove_child c p)) = proc_id p" "state (snd (remove_child c p)) = state p"
  "parent_id (snd (remove_child c p)) = parent_id p" "exit_code (snd (remove_child c p)) = exit_code p"
  "proc_id (make_orphan p) = proc_id p" "state (make_orphan p) = state p"
  "exit_code (make_orphan p) = exit_code p" "parent_id (make_orphan p) = 0"
  "proc_id (snd (Process_exit code p)) = proc_id p" "parent_id (snd (Process_exit code p)) = parent_id p"
  "proc_id (wake_waiting_parent e p) = proc_id p" "parent_id (wake_waiting_parent e p) = parent_id p"
  "exit_code (wake_waiting_parent e p) = exit_code p"
  by (simp_all add: add_child_def remove_child_def make_orphan_def Process_exit_def
      wake_waiting_parent_def split: option.split ProcessState.split WaitReason.split)

lemma Process_wf_updates:
  "Process_wf p \<Longrightarrow> Process_wf (make_orphan p)"
  "Process_wf p \<Longrightarrow> Process_wf (snd (Process_exit code p))"
  "Process_wf p \<Longrightarrow> Process_wf (wake_waiting_parent e p)"
  by (auto simp: Process_wf_def make_orphan_def Process_exit_def wake_waiting_parent_def
      split: ProcessState.split WaitReason.split)

lemma not_running_updates:
  "state (snd (Process_exit code p)) = Running \<Longrightarrow> state p = Running"
  "state (wake_waiting_parent e p) = Running \<Longrightarrow> state p = Running"
  by (auto simp: Process_exit_def wake_waiting_parent_def
      split: ProcessState.splits WaitReason.splits if_splits)

section \<open>Every operation keeps the invariant\<close>

lemma add_process_inv [ruix_inv]:
  assumes "Scheduler_inv s" and "lookup_process (proc_id p) s = None" and "Process_wf p"
    and "state p \<noteq> Running"
  shows "Scheduler_inv (add_process p s)"
proof -
  have "proc_id p \<notin> proc_id ` set (processes s)"
    using assms(1,2) sched_reg.lookup_None_iff [of s "proc_id p"] by (auto simp: Scheduler_inv_def)
  moreover have "set (tl (processes s @ [p])) \<subseteq> set (tl (processes s)) \<union> {p}"
    by (cases "processes s") auto
  ultimately show ?thesis
    using assms by (auto simp: Scheduler_inv_def add_process_def Let_def btree_insert_wf)
qed

lemma register_child_inv [ruix_inv]:
  assumes "Scheduler_inv s"
  shows "Scheduler_inv (snd (register_child a b s))"
proof -
  let ?s = "s\<lparr>process_tree := btree_insert b a (process_tree s)\<rparr>"
  have "Scheduler_inv ?s"
    using assms by (intro Scheduler_inv_tree btree_insert_wf Scheduler_inv_wf)
  moreover from this have "Scheduler_inv (update_process a (\<lambda>p. snd (add_child b p)) ?s)"
    by (rule update_process_inv) (simp_all add: add_child_wf)
  ultimately show ?thesis
    by (simp add: register_child_def Let_def split: option.split prod.split sum.split)
qed

lemma orphan_child_inv [ruix_inv]:
  assumes "Scheduler_inv s"
  shows "Scheduler_inv (orphan_child k s)"
proof -
  let ?s = "s\<lparr>process_tree := btree_insert k 0 (process_tree s)\<rparr>"
  have "Scheduler_inv ?s"
    using assms by (intro Scheduler_inv_tree btree_insert_wf Scheduler_inv_wf)
  moreover from this have "Scheduler_inv (update_process k make_orphan ?s)"
    by (rule update_process_inv) (simp_all add: Process_wf_updates)
  ultimately show ?thesis
    by (simp add: orphan_child_def Let_def split: option.split)
qed

interpretation orphaning: invariant_system orphan_child Scheduler_inv
  by unfold_locales (rule orphan_child_inv)

lemma detach_from_parent_inv: "Scheduler_inv s \<Longrightarrow> Scheduler_inv (detach_from_parent par k s)"
  unfolding detach_from_parent_def
  using update_process_inv [of s "\<lambda>p. snd (remove_child k p)" par] by (simp add: remove_child_wf)

lemma wake_parent_inv: "Scheduler_inv s \<Longrightarrow> Scheduler_inv (wake_parent par k s)"
  unfolding wake_parent_def
  by (simp add: update_process_inv [OF _ _ Process_wf_updates(3) not_running_updates(2)])

lemma finish_exit_inv [ruix_inv]: "Scheduler_inv s \<Longrightarrow> Scheduler_inv (finish_exit k par s)"
  unfolding finish_exit_def Let_def
  by (intro wake_parent_inv orphaning.inv_run detach_from_parent_inv)

lemma exit_update_inv:
  "Scheduler_inv s \<Longrightarrow> Scheduler_inv (update_process k (\<lambda>p. snd (Process_exit code p)) s)"
  by (rule update_process_inv [OF _ _ Process_wf_updates(2) not_running_updates(1)]) simp_all

lemma handle_process_exit_inv [ruix_inv]:
  "Scheduler_inv s \<Longrightarrow> Scheduler_inv (snd (handle_process_exit k code s))"
  by (simp add: handle_process_exit_def finish_exit_inv exit_update_inv
      split: option.split prod.split sum.split)

lemma reap_zombie_child_inv [ruix_inv]:
  assumes "Scheduler_inv s"
  shows "Scheduler_inv (snd (reap_zombie_child a b s))"
proof -
  have f: "Scheduler_inv (s\<lparr>processes := filter P (processes s)\<rparr>)" for P
    using assms by (rule Scheduler_inv_filter)
  then have "Scheduler_inv (update_process a (\<lambda>p. snd (remove_child b p))
      (s\<lparr>processes := filter P (processes s)\<rparr>))" for P
    by (rule update_process_inv) (simp_all add: remove_child_wf)
  from this [THEN Scheduler_inv_tree, OF btree_remove_wf [OF Scheduler_inv_wf [OF assms]]]
  show ?thesis using f by (simp add: reap_zombie_child_def Let_def)
qed

lemma cleanup_terminated_process_inv [ruix_inv]:
  assumes "Scheduler_inv s"
  shows "Scheduler_inv (snd (cleanup_terminated_process k s))"
proof -
  have "Scheduler_inv (s\<lparr>processes := filter (\<lambda>p. proc_id p \<noteq> k) (processes s)\<rparr>)"
    using assms by (rule Scheduler_inv_filter)
  from Scheduler_inv_tree [OF this btree_remove_wf [OF Scheduler_inv_wf [OF assms]]] assms
  show ?thesis by (simp add: cleanup_terminated_process_def split: option.split)
qed

section \<open>What schedule does\<close>

lemma position_append:
  "(\<And>x. x \<in> set xs \<Longrightarrow> \<not> P x) \<Longrightarrow> P y \<Longrightarrow> position P (xs @ y # ys) = Some (length xs)"
  by (induction xs) auto

lemma find_split:
  "find P xs = Some y \<Longrightarrow> \<exists>us vs. xs = us @ y # vs \<and> (\<forall>u \<in> set us. \<not> P u) \<and> P y"
proof (induction xs)
  case (Cons x xs)
  then show ?case
  proof (cases "P x")
    case True
    with Cons.prems have "x # xs = [] @ y # xs \<and> (\<forall>u \<in> set []. \<not> P u) \<and> P y" by simp
    then show ?thesis by blast
  next
    case False
    with Cons obtain us vs where "xs = us @ y # vs" "\<forall>u \<in> set us. \<not> P u" "P y" by auto
    with False have "x # xs = (x # us) @ y # vs \<and> (\<forall>u \<in> set (x # us). \<not> P u) \<and> P y" by simp
    then show ?thesis by blast
  qed
qed simp

lemma find_first:
  "(\<And>u. u \<in> set us \<Longrightarrow> \<not> P u) \<Longrightarrow> P y \<Longrightarrow> find P (us @ y # vs) = Some y"
  by (induction us) auto

lemma schedule_pick:
  assumes "distinct (map proc_id (processes s))" and "processes s = us @ q # vs"
    and "\<forall>u \<in> set us. \<not> runnable u" and "runnable q"
  shows "schedule ctx s c = (context_ptr q,
    s\<lparr>processes := q\<lparr>state := Running\<rparr> # save_front ctx (us @ vs), current_priority := priority q\<rparr>,
    switch_to q c)"
proof -
  have "find runnable (processes s) = Some q"
    unfolding assms(2) using assms(3,4) by (intro find_first) auto
  moreover have "proc_id q \<notin> proc_id ` set us" using assms(1,2) by auto
  then have "position (\<lambda>p. proc_id p = proc_id q) (processes s) = Some (length us)"
    unfolding assms(2) by (intro position_append) (metis image_eqI, rule refl)
  ultimately show ?thesis
    by (simp add: schedule_def get_next_process_by_priority_def assms(2) remove_at_def switch_to_def)
qed

lemma schedule_none:
  "\<forall>p \<in> set (processes s). \<not> runnable p \<Longrightarrow> schedule ctx s c = schedule_round_robin ctx s c"
proof -
  assume "\<forall>p \<in> set (processes s). \<not> runnable p"
  then have "find runnable (processes s) = None" by (auto simp: find_None_iff)
  then show ?thesis by (simp add: schedule_def get_next_process_by_priority_def)
qed

lemma round_robin_processes:
  "processes s = p # ps \<Longrightarrow>
     fst (snd (schedule_round_robin ctx s c)) = s\<lparr>processes := ps @ [p\<lparr>context_ptr := ctx\<rparr>]\<rparr>"
  "processes s = [] \<Longrightarrow> schedule_round_robin ctx s c = (ctx, s, c\<lparr>current_process_id := 0\<rparr>)"
  by (auto simp: schedule_round_robin_def Let_def split: list.split)

lemma schedule_cases:
  assumes "distinct (map proc_id (processes s))"
  obtains (idle) "\<forall>p \<in> set (processes s). \<not> runnable p" "schedule ctx s c = schedule_round_robin ctx s c"
  | (pick) us q vs where "processes s = us @ q # vs" "\<forall>u \<in> set us. \<not> runnable u" "runnable q"
      "schedule ctx s c = (context_ptr q, s\<lparr>processes := q\<lparr>state := Running\<rparr> # save_front ctx (us @ vs),
         current_priority := priority q\<rparr>, switch_to q c)"
proof (cases "find runnable (processes s)")
  case None
  then have "\<forall>p \<in> set (processes s). \<not> runnable p" by (auto simp: find_None_iff)
  with idle schedule_none show ?thesis by blast
next
  case (Some q)
  obtain us vs where u: "processes s = us @ q # vs" "\<forall>u \<in> set us. \<not> runnable u" "runnable q"
    using find_split [OF Some] by auto
  show ?thesis using u schedule_pick [OF assms u] by (rule pick)
qed

lemma save_front_frame:
  "map proc_id (save_front ctx ps) = map proc_id ps"
  "\<forall>p \<in> set ps. Process_wf p \<Longrightarrow> \<forall>p \<in> set (save_front ctx ps). Process_wf p"
  by (cases ps; simp add: Process_wf_def)+

lemma save_front_not_running:
  "\<forall>p \<in> set (tl ps). state p \<noteq> Running \<Longrightarrow> \<forall>p \<in> set (save_front ctx ps). state p \<noteq> Running"
  by (cases ps) auto

lemma not_running_tl_append:
  assumes "\<forall>p \<in> set (tl (us @ q # vs)). state p \<noteq> Running"
  shows "\<forall>p \<in> set (tl (us @ vs)). state p \<noteq> Running"
proof (cases us)
  case Nil
  with assms show ?thesis by (cases vs) auto
next
  case (Cons u us')
  with assms show ?thesis by auto
qed

lemma schedule_inv [ruix_inv]:
  assumes "Scheduler_inv s"
  shows "Scheduler_inv (fst (snd (schedule ctx s c)))"
proof -
  have d: "distinct (map proc_id (processes s))" using assms by (simp add: Scheduler_inv_def)
  show ?thesis
  proof (cases rule: schedule_cases [OF d, of ctx c])
    case 1
    have nr: "\<forall>p \<in> set (processes s). state p \<noteq> Running" using 1(1) by (auto simp: runnable_def)
    show ?thesis
    proof (cases "processes s")
      case Nil
      with assms 1(2) show ?thesis by (simp add: round_robin_processes(2))
    next
      case (Cons p ps)
      let ?qs = "ps @ [p\<lparr>context_ptr := ctx\<rparr>]"
      have "fst (snd (schedule ctx s c)) = s\<lparr>processes := ?qs\<rparr>"
        unfolding 1(2) using Cons by (rule round_robin_processes(1))
      moreover have "\<forall>p \<in> set (tl ?qs). state p \<noteq> Running"
        using nr Cons by (cases ps) auto
      ultimately show ?thesis
        using assms Cons by (auto simp: Scheduler_inv_def Process_wf_def)
    qed
  next
    case (2 us q vs)
    have "\<forall>p \<in> set (tl (us @ vs)). state p \<noteq> Running"
      using assms 2(1) by (intro not_running_tl_append [of us q vs]) (simp add: Scheduler_inv_def)
    then have nr: "\<forall>p \<in> set (save_front ctx (us @ vs)). state p \<noteq> Running"
      by (rule save_front_not_running)
    have ids: "proc_id ` set (save_front ctx (us @ vs)) = proc_id ` set (us @ vs)"
      using save_front_frame(1) [of ctx "us @ vs"] by (metis list.set_map)
    have wf: "\<forall>p \<in> set (save_front ctx (us @ vs)). Process_wf p"
      using assms 2(1) by (intro save_front_frame(2)) (auto simp: Scheduler_inv_def)
    show ?thesis
      using assms 2(1) nr ids wf unfolding 2(4)
      by (auto simp: Scheduler_inv_def save_front_frame(1) Process_wf_def)
  qed
qed

lemma mset_schedule_ids:
  assumes "Scheduler_inv s"
  shows "mset (map proc_id (processes (fst (snd (schedule ctx s c))))) = mset (map proc_id (processes s))"
proof -
  have d: "distinct (map proc_id (processes s))" using assms by (simp add: Scheduler_inv_def)
  show ?thesis
  proof (cases rule: schedule_cases [OF d, of ctx c])
    case 1
    then show ?thesis by (cases "processes s") (simp_all add: round_robin_processes)
  next
    case (2 us q vs)
    have "mset (map proc_id (save_front ctx (us @ vs))) = mset (map proc_id (us @ vs))"
      by (simp only: save_front_frame(1))
    with 2 show ?thesis by simp
  qed
qed

section \<open>What exit, reaping and clean-up do\<close>

lemma orphan_child_lookup:
  assumes "Scheduler_inv s"
  shows "lookup_process k (orphan_child c s)
    = map_option (\<lambda>p. if k = c then make_orphan p else p) (lookup_process k s)"
proof -
  let ?s = "s\<lparr>process_tree := btree_insert c 0 (process_tree s)\<rparr>"
  have "Scheduler_inv ?s"
    using assms by (intro Scheduler_inv_tree btree_insert_wf Scheduler_inv_wf)
  from lookup_update_process [OF this, of make_orphan k c] show ?thesis
    by (auto simp: orphan_child_def Let_def option.map_ident split: option.split)
qed

lemma orphan_child_tree: "process_tree (orphan_child c s) = btree_insert c 0 (process_tree s)"
  by (simp add: orphan_child_def Let_def split: option.split)

lemma orphan_children_lookup:
  assumes "Scheduler_inv s"
  shows "lookup_process k (fold orphan_child xs s)
    = map_option (\<lambda>p. if k \<in> set xs then make_orphan p else p) (lookup_process k s)"
  using assms
proof (induction xs arbitrary: s)
  case Nil
  then show ?case by (simp add: option.map_ident)
next
  case (Cons c xs)
  have idem: "make_orphan (make_orphan p) = make_orphan p" for p by (simp add: make_orphan_def)
  show ?case
    using Cons orphan_child_lookup [OF Cons.prems, of k c] orphan_child_inv [OF Cons.prems, of c] idem
    by (cases "lookup_process k s") auto
qed

lemma orphan_children_tree:
  "map_of (process_tree (fold orphan_child xs s))
     = (\<lambda>k. if k \<in> set xs then Some 0 else map_of (process_tree s) k)"
  by (induction xs arbitrary: s) (auto simp: orphan_child_tree btree_get_insert fun_eq_iff)

lemma children_in_tree_set:
  "Scheduler_inv s \<Longrightarrow> set (children_in_tree pid s) = {k. map_of (process_tree s) k = Some pid}"
  unfolding children_in_tree_def by (rule btm.keys_with_value) (rule Scheduler_inv_wf)

text \<open>What exit does to the process with identifier \<open>k\<close>.\<close>

definition exit_effect :: "u64 \<Rightarrow> u64 \<Rightarrow> bool \<Rightarrow> u64 \<Rightarrow> Process \<Rightarrow> Process" where
  "exit_effect pid par orphaned k p =
     (let p = (if par \<noteq> 0 \<and> k = par then snd (remove_child pid p) else p);
          p = (if orphaned then make_orphan p else p)
      in if par \<noteq> 0 \<and> k = par then wake_waiting_parent pid p else p)"

lemma detach_lookup:
  assumes "Scheduler_inv s"
  shows "lookup_process k (detach_from_parent par pid s)
    = map_option (\<lambda>p. if par \<noteq> 0 \<and> k = par then snd (remove_child pid p) else p) (lookup_process k s)"
  using lookup_update_process [OF assms, of "\<lambda>p. snd (remove_child pid p)" k par]
  by (auto simp: detach_from_parent_def option.map_ident)

lemma wake_parent_lookup:
  assumes "Scheduler_inv s"
  shows "lookup_process k (wake_parent par pid s)
    = map_option (\<lambda>p. if par \<noteq> 0 \<and> k = par then wake_waiting_parent pid p else p) (lookup_process k s)"
  using lookup_update_process [OF assms, of "wake_waiting_parent pid" k par]
  by (auto simp: wake_parent_def option.map_ident)

lemma detach_tree [simp]: "process_tree (detach_from_parent par pid s) = process_tree s"
  and wake_parent_tree [simp]: "process_tree (wake_parent par pid s) = process_tree s"
  by (simp_all add: detach_from_parent_def wake_parent_def)

lemma finish_exit_lookup:
  assumes "Scheduler_inv s"
  shows "lookup_process k (finish_exit pid par s)
    = map_option (exit_effect pid par (map_of (process_tree s) k = Some pid) k) (lookup_process k s)"
proof -
  have d: "Scheduler_inv (detach_from_parent par pid s)" using assms by (rule detach_from_parent_inv)
  have c: "set (children_in_tree pid (detach_from_parent par pid s)) = {k. map_of (process_tree s) k = Some pid}"
    using children_in_tree_set [OF d] by simp
  show ?thesis
    unfolding finish_exit_def Let_def wake_parent_lookup [OF orphaning.inv_run [OF d]]
      orphan_children_lookup [OF d] detach_lookup [OF assms]
    using c by (cases "lookup_process k s") (auto simp: exit_effect_def)
qed

lemma finish_exit_tree:
  assumes "Scheduler_inv s"
  shows "map_of (process_tree (finish_exit pid par s))
    = (\<lambda>k. if map_of (process_tree s) k = Some pid then Some 0 else map_of (process_tree s) k)"
  using children_in_tree_set [OF detach_from_parent_inv [OF assms, of par pid], of pid]
  by (auto simp: finish_exit_def Let_def orphan_children_tree fun_eq_iff)

lemma wake_zombie: "state p = Zombie \<Longrightarrow> wake_waiting_parent e p = p"
  by (simp add: wake_waiting_parent_def)

lemma exit_effect_zombie:
  "state p = Zombie \<Longrightarrow> state (exit_effect pid par b k p) = Zombie"
  "proc_id (exit_effect pid par b k p) = proc_id p"
  "exit_code (exit_effect pid par b k p) = exit_code p"
  "parent_id (exit_effect pid par b k p) = (if b then 0 else parent_id p)"
  using wake_zombie by (auto simp: exit_effect_def Let_def)

lemma handle_process_exit_eq:
  assumes "lookup_process pid s = Some p" and "- 255 \<le> sint code" and "sint code \<le> 255"
  shows "handle_process_exit pid code s = (Inr (), finish_exit pid (parent_id p)
    (update_process pid (\<lambda>p. snd (Process_exit code p)) s))"
  using assms by (simp add: handle_process_exit_def Process_exit_def)

lemma exited_lookup:
  assumes "Scheduler_inv s" and "lookup_process pid s = Some p"
    and "- 255 \<le> sint code" and "sint code \<le> 255"
  shows "lookup_process k (snd (handle_process_exit pid code s))
    = map_option (\<lambda>q. exit_effect pid (parent_id p) (map_of (process_tree s) k = Some pid) k
        (if k = pid then q\<lparr>state := Zombie, exit_code := code\<rparr> else q)) (lookup_process k s)"
proof -
  have e: "snd (Process_exit code q) = q\<lparr>state := Zombie, exit_code := code\<rparr>" for q
    using assms(3,4) by (simp add: Process_exit_def)
  have i: "Scheduler_inv (update_process pid (\<lambda>q. snd (Process_exit code q)) s)"
    using assms(1) by (rule exit_update_inv)
  show ?thesis
    unfolding handle_process_exit_eq [OF assms(2-4)] snd_conv finish_exit_lookup [OF i]
    using lookup_update_process [OF assms(1), of "\<lambda>q. snd (Process_exit code q)" k pid]
    by (cases "lookup_process k s") (auto simp: e)
qed

lemma reap_succeeds:
  assumes "Scheduler_inv s" and "lookup_process pid s = Some z" and "state z = Zombie"
  shows "fst (reap_zombie_child (parent_id z) pid s) = Inr (exit_code z)
    \<and> lookup_process pid (snd (reap_zombie_child (parent_id z) pid s)) = None
    \<and> map_of (process_tree (snd (reap_zombie_child (parent_id z) pid s))) pid = None"
proof -
  let ?gone = "\<lambda>p. proc_id p = pid \<and> parent_id p = parent_id z \<and> state p = Zombie"
  let ?s = "s\<lparr>processes := filter (\<lambda>p. \<not> ?gone p) (processes s)\<rparr>"
  have d: "distinct (map proc_id (processes s))" using assms(1) by (simp add: Scheduler_inv_def)
  have z: "z \<in> set (processes s)" "proc_id z = pid" using d assms(2) by (auto simp: sched_reg.lookup_iff)
  have only: "p = z" if "p \<in> set (processes s)" "proc_id p = pid" for p
    using d that z by (auto simp: distinct_map inj_on_def)
  have f: "set (filter ?gone (processes s)) = {z}" using z assms(3) by (auto dest: only)
  then have ne: "filter ?gone (processes s) \<noteq> []" by (metis empty_set insert_not_empty)
  have l: "last (filter ?gone (processes s)) = z" using last_in_set [OF ne] unfolding f by (rule singletonD)
  have i: "Scheduler_inv ?s" using assms(1) by (rule Scheduler_inv_filter)
  have "lookup_process pid ?s = None"
    using i assms(3) by (auto simp: sched_reg.lookup_None_iff Scheduler_inv_def dest: only)
  then have "lookup_process pid (update_process (parent_id z) (\<lambda>p. snd (remove_child pid p)) ?s) = None"
    using lookup_update_process [OF i, of "\<lambda>p. snd (remove_child pid p)" pid "parent_id z"] by auto
  with ne l show ?thesis
    using btree_get_remove [OF Scheduler_inv_wf [OF assms(1)], of pid]
    by (simp add: reap_zombie_child_def Let_def)
qed

lemma cleanup_zombie:
  assumes "Scheduler_inv s" and "z \<in> set (processes s)" and "state z = Zombie"
  shows "fst (cleanup_terminated_process (proc_id z) s) = Inr ()
    \<and> processes (snd (cleanup_terminated_process (proc_id z) s)) = filter (\<lambda>p. proc_id p \<noteq> proc_id z) (processes s)
    \<and> process_tree (snd (cleanup_terminated_process (proc_id z) s)) = btree_remove (proc_id z) (process_tree s)"
proof -
  have "lookup_process (proc_id z) s = Some z"
    using assms by (auto simp: sched_reg.lookup_iff Scheduler_inv_def)
  with assms(3) show ?thesis by (simp add: cleanup_terminated_process_def)
qed

lemma cleanup_zombies:
  assumes "Scheduler_inv s" and "distinct zs"
    and "\<forall>k \<in> set zs. \<exists>z \<in> set (processes s). proc_id z = k \<and> state z = Zombie"
  shows "\<exists>s'. fold cleanup_step zs (n, s) = (n + of_nat (length zs), s') \<and> Scheduler_inv s'
    \<and> processes s' = filter (\<lambda>p. proc_id p \<notin> set zs) (processes s)
    \<and> map_of (process_tree s') = (\<lambda>k. if k \<in> set zs then None else map_of (process_tree s) k)"
  using assms
proof (induction zs arbitrary: n s)
  case Nil
  then show ?case by (simp add: fun_eq_iff)
next
  case (Cons k zs)
  obtain z where z: "z \<in> set (processes s)" "proc_id z = k" "state z = Zombie" using Cons.prems(3) by auto
  let ?s = "snd (cleanup_terminated_process k s)"
  have c: "fst (cleanup_terminated_process k s) = Inr ()"
    "processes ?s = filter (\<lambda>p. proc_id p \<noteq> k) (processes s)"
    "process_tree ?s = btree_remove k (process_tree s)"
    using cleanup_zombie [OF Cons.prems(1) z(1,3)] z(2) by auto
  have i: "Scheduler_inv ?s" using Cons.prems(1) by (rule cleanup_terminated_process_inv)
  have "\<forall>l \<in> set zs. \<exists>z \<in> set (processes ?s). proc_id z = l \<and> state z = Zombie"
  proof
    fix l assume l: "l \<in> set zs"
    with Cons.prems(3) obtain y where "y \<in> set (processes s)" "proc_id y = l" "state y = Zombie" by auto
    moreover from l Cons.prems(2) have "l \<noteq> k" by auto
    ultimately show "\<exists>z \<in> set (processes ?s). proc_id z = l \<and> state z = Zombie" unfolding c(2) by auto
  qed
  from Cons.IH [OF i _ this, of "n + 1"] Cons.prems(2) obtain s' where
    s': "fold cleanup_step zs (n + 1, ?s) = (n + 1 + of_nat (length zs), s')" "Scheduler_inv s'"
    "processes s' = filter (\<lambda>p. proc_id p \<notin> set zs) (processes ?s)"
    "map_of (process_tree s') = (\<lambda>k. if k \<in> set zs then None else map_of (process_tree ?s) k)"
    by auto
  have "fold cleanup_step (k # zs) (n, s) = fold cleanup_step zs (n + 1, ?s)"
    using c(1) by (cases "cleanup_terminated_process k s") simp
  moreover have "map_of (process_tree ?s) = (map_of (process_tree s))(k := None)"
    unfolding c(3) by (rule btree_get_remove [OF Scheduler_inv_wf [OF Cons.prems(1)]])
  ultimately show ?case
    using s' c(2) by (auto simp: fun_eq_iff conj_commute intro!: filter_cong)
qed

section \<open>Properties\<close>

text \<open>Two processes for the examples: 1, and its child 2.\<close>

definition example_process :: "u64 \<Rightarrow> u64 \<Rightarrow> ProcessState \<Rightarrow> Process" where
  "example_process i par st = example_parent\<lparr>proc_id := i, parent_id := par, state := st,
     context_ptr := 0x1000 * i, page_table_frame := 0x100000 * i\<rparr>"

definition example_scheduler :: "ProcessState \<Rightarrow> ProcessState \<Rightarrow> (unit, unit) Scheduler" where
  "example_scheduler st1 st2 = add_process (example_process 2 1 st2)
     (add_process (example_process 1 0 st1) SCHEDULER_init)"

definition example_cpu :: cpu where
  "example_cpu = \<lparr>user_rsp = 0, kernel_stack_top = 0, current_process_id = 1, tss_ptr = 0, CR3 = 0x100000\<rparr>"

lemma example_scheduler_eq:
  "processes (example_scheduler st1 st2) = [example_process 1 0 st1, example_process 2 1 st2]"
  "process_tree (example_scheduler st1 st2) = [(1, 0), (2, 1)]"
  by (simp_all add: example_scheduler_def add_process_def SCHEDULER_init_def Let_def example_process_def)

lemma example_scheduler_inv: "st2 \<noteq> Running \<Longrightarrow> Scheduler_inv (example_scheduler st1 st2)"
  by (simp add: Scheduler_inv_def example_scheduler_eq btree_wf_def example_process_def Process_wf_def
      example_parent_def ProcessStats_default_def)

text \<open>
  C7 (dispatching). Whenever some process is ready or running, \<^verbatim>\<open>schedule\<close> chooses the
  first process of the queue that is ready or running, moves it to the front, running and otherwise
  unchanged, and leaves the others in their order behind it, the interrupted context saved in the
  first of them. \<^verbatim>\<open>CPU_DATA\<close> and \<^verbatim>\<open>CR3\<close> are set to the identifier and the page
  table of the chosen process and its saved context is returned; no other process is marked running,
  no process is lost or duplicated, and the invariant is kept.
\<close>

theorem schedule_dispatches:
  assumes "Scheduler_inv s" and "p \<in> set (processes s)" and "state p = Ready \<or> state p = Running"
  shows "\<exists>us r vs q rest. processes s = us @ r # vs \<and> (state r = Ready \<or> state r = Running)
    \<and> (\<forall>u \<in> set us. state u \<noteq> Ready \<and> state u \<noteq> Running)
    \<and> q = r\<lparr>state := Running\<rparr> \<and> rest = save_front ctx (us @ vs)
    \<and> processes (fst (snd (schedule ctx s c))) = q # rest \<and> state q = Running
    \<and> fst (schedule ctx s c) = context_ptr q
    \<and> current_process_id (snd (snd (schedule ctx s c))) = proc_id q
    \<and> CR3 (snd (snd (schedule ctx s c))) = page_table_frame q
    \<and> (\<forall>r \<in> set rest. state r \<noteq> Running)
    \<and> mset (map proc_id (q # rest)) = mset (map proc_id (processes s))
    \<and> Scheduler_inv (fst (snd (schedule ctx s c)))"
proof -
  have d: "distinct (map proc_id (processes s))" using assms(1) by (simp add: Scheduler_inv_def)
  have i: "Scheduler_inv (fst (snd (schedule ctx s c)))" using assms(1) by (rule schedule_inv)
  show ?thesis
  proof (cases rule: schedule_cases [OF d, of ctx c])
    case 1
    with assms(2,3) show ?thesis by (auto simp: runnable_def)
  next
    case (2 us r vs)
    let ?q = "r\<lparr>state := Running\<rparr>" and ?rest = "save_front ctx (us @ vs)"
    have "processes (fst (snd (schedule ctx s c))) = ?q # ?rest" unfolding 2(4) by simp
    moreover have "\<forall>r \<in> set ?rest. state r \<noteq> Running"
      using i calculation by (simp add: Scheduler_inv_def)
    moreover have "mset (map proc_id (?q # ?rest)) = mset (map proc_id (processes s))"
      using mset_schedule_ids [OF assms(1), of ctx c] unfolding calculation(1) .
    moreover have "state ?q = Running \<and> fst (schedule ctx s c) = context_ptr ?q
        \<and> current_process_id (snd (snd (schedule ctx s c))) = proc_id ?q
        \<and> CR3 (snd (snd (schedule ctx s c))) = page_table_frame ?q"
      unfolding 2(4) by (simp add: switch_to_def)
    moreover have "(state r = Ready \<or> state r = Running) \<and> (\<forall>u \<in> set us. state u \<noteq> Ready \<and> state u \<noteq> Running)"
      using 2(2,3) by (simp add: runnable_def)
    ultimately show ?thesis using i 2(1) by blast
  qed
qed

theorem schedule_dispatches_witness:
  "\<exists>us r vs. processes (example_scheduler Zombie Ready) = us @ r # vs \<and> (state r = Ready \<or> state r = Running)
     \<and> processes (fst (snd (schedule 0x7000 (example_scheduler Zombie Ready) example_cpu)))
         = r\<lparr>state := Running\<rparr> # save_front 0x7000 (us @ vs)"
proof -
  have "example_process 2 1 Ready \<in> set (processes (example_scheduler Zombie Ready))"
    by (simp add: example_scheduler_eq)
  moreover have "state (example_process 2 1 Ready) = Ready" by (simp add: example_process_def)
  ultimately show ?thesis
    using schedule_dispatches [OF example_scheduler_inv, of Ready "example_process 2 1 Ready" Zombie
        "0x7000" example_cpu] by blast
qed

text \<open>
  C29 (switching away from a blocked process). When the process at the front can not run, the
  interrupted context is saved in it and nowhere else, and the first ready process of the queue,
  with everything else in order, takes its place.
\<close>

theorem schedule_switches:
  assumes "distinct (map proc_id (processes s))" and "processes s = p # us @ q # vs"
    and "\<not> runnable p" and "\<forall>u \<in> set us. \<not> runnable u" and "state q = Ready"
  shows "schedule ctx s c = (context_ptr q,
    s\<lparr>processes := q\<lparr>state := Running\<rparr> # p\<lparr>context_ptr := ctx\<rparr> # us @ vs, current_priority := priority q\<rparr>,
    c\<lparr>current_process_id := proc_id q, CR3 := page_table_frame q\<rparr>)"
proof -
  have "schedule ctx s c = (context_ptr q,
      s\<lparr>processes := q\<lparr>state := Running\<rparr> # save_front ctx ((p # us) @ vs), current_priority := priority q\<rparr>,
      switch_to q c)"
    using assms by (intro schedule_pick) (auto simp: runnable_def)
  moreover have "state p \<noteq> Running" using assms(3) by (simp add: runnable_def)
  ultimately show ?thesis by (simp add: switch_to_def)
qed

theorem schedule_switches_witness:
  "fst (schedule 0x7000 (example_scheduler Zombie Ready) example_cpu) = 0x2000"
  using schedule_switches [of "example_scheduler Zombie Ready" "example_process 1 0 Zombie" "[]"
      "example_process 2 1 Ready" "[]" "0x7000" example_cpu]
  by (simp add: example_scheduler_eq runnable_def example_process_def)

text \<open>
  C30 (a running process is never preempted). While the process at the front is running, every timer
  interrupt chooses it again, for any number of interrupts: the switch always returns the same
  context pointer of the front process, never the interrupted context, and it is the
  second process whose saved context is overwritten.
\<close>

theorem schedule_never_preempts:
  fixes s :: "('fut, 'w) Scheduler" and c :: "'z cpu_scheme"
  assumes "Scheduler_inv s" and "processes s = p # q # ps" and "state p = Running" and "ctxs \<noteq> []"
  defines "step \<equiv> (\<lambda>ctx (s, c). snd (schedule ctx s c))"
  shows "processes (fst (run step ctxs (s, c))) = p # q\<lparr>context_ptr := last ctxs\<rparr> # ps
    \<and> current_process_id (snd (run step ctxs (s, c))) = proc_id p
    \<and> fst (schedule ctx (fst (run step ctxs (s, c))) (snd (run step ctxs (s, c)))) = context_ptr p"
  using assms(1,2,4)
proof (induction ctxs arbitrary: s c q)
  case Nil
  then show ?case by simp
next
  case (Cons x xs)
  let ?q = "q\<lparr>context_ptr := x\<rparr>"
  let ?s = "s\<lparr>processes := p # ?q # ps, current_priority := priority p\<rparr>"
  have pick: "schedule y s' d = (context_ptr p, s'\<lparr>processes := p # r\<lparr>context_ptr := y\<rparr> # ps,
      current_priority := priority p\<rparr>, switch_to p d)"
    if "Scheduler_inv s'" and "processes s' = p # r # ps"
    for y r and s' :: "('fut, 'w) Scheduler" and d :: "'z cpu_scheme"
  proof -
    have "state r \<noteq> Running" using that by (simp add: Scheduler_inv_def)
    moreover have "p\<lparr>state := Running\<rparr> = p" using assms(3) by simp
    ultimately show ?thesis
      using schedule_pick [of s' "[]" p "r # ps" y d] that assms(3)
      by (simp add: Scheduler_inv_def runnable_def)
  qed
  have one: "step x (s, c) = (?s, switch_to p c)"
    using pick [OF Cons.prems(1,2)] by (simp add: step_def)
  have i: "Scheduler_inv ?s"
    using schedule_inv [OF Cons.prems(1), of x c] pick [OF Cons.prems(1,2), of x c] by simp
  show ?case
  proof (cases xs)
    case Nil
    then show ?thesis using one pick [OF i] by (simp add: switch_to_def)
  next
    case (Cons y ys)
    then show ?thesis using Cons.IH [OF i, of ?q "switch_to p c"] one by simp
  qed
qed

theorem schedule_never_preempts_witness:
  "processes (fst (run (\<lambda>ctx (s, c). snd (schedule ctx s c)) [0x7000, 0x8000]
       (example_scheduler Running Ready, example_cpu)))
     = [example_process 1 0 Running, (example_process 2 1 Ready)\<lparr>context_ptr := 0x8000\<rparr>]"
  using schedule_never_preempts [OF example_scheduler_inv example_scheduler_eq(1), of Ready Running
      "[0x7000, 0x8000]" example_cpu 0]
  by (simp add: example_process_def)


lemma example_lookup:
  "lookup_process 1 (example_scheduler st1 st2) = Some (example_process 1 0 st1)"
  "lookup_process 2 (example_scheduler st1 st2) = Some (example_process 2 1 st2)"
  by (simp_all add: lookup_process_def keyed_lookup_def example_scheduler_eq example_process_def)


text \<open>
  Exit status reaches the parent. After a process has exited with a valid code, its parent
  reaps it exactly with that code, and the process and its tree entry are gone. (The tree must not
  name the process as its own parent.)
\<close>

theorem exit_then_reap:
  assumes "Scheduler_inv s" and "lookup_process pid s = Some p"
    and "- 255 \<le> sint code" and "sint code \<le> 255" and "map_of (process_tree s) pid \<noteq> Some pid"
  defines "s' \<equiv> snd (handle_process_exit pid code s)"
  shows "fst (reap_zombie_child (parent_id p) pid s') = Inr code
    \<and> pid \<in> set (find_zombie_children (parent_id p) s')
    \<and> lookup_process pid (snd (reap_zombie_child (parent_id p) pid s')) = None
    \<and> map_of (process_tree (snd (reap_zombie_child (parent_id p) pid s'))) pid = None"
proof -
  have i: "Scheduler_inv s'" unfolding s'_def using assms(1) by (rule handle_process_exit_inv)
  obtain z where z: "lookup_process pid s' = Some z" "state z = Zombie" "exit_code z = code"
    "parent_id z = parent_id p"
    using exited_lookup [OF assms(1-4), of pid] assms(2,5) unfolding s'_def
    by (auto simp: exit_effect_zombie)
  have "z \<in> set (processes s')" "proc_id z = pid"
    using i z(1) by (auto simp: sched_reg.lookup_iff Scheduler_inv_def)
  with z have "pid \<in> set (find_zombie_children (parent_id p) s')"
    by (auto simp: find_zombie_children_def)
  with reap_succeeds [OF i z(1,2)] z(3,4) show ?thesis by simp
qed

theorem exit_then_reap_witness:
  "fst (reap_zombie_child 1 2 (snd (handle_process_exit 2 7 (example_scheduler Running Ready)))) = Inr 7"
proof -
  have "Scheduler_inv (example_scheduler Running Ready)" by (rule example_scheduler_inv) simp
  from exit_then_reap [OF this example_lookup(2), of 7] show ?thesis
    by (simp add: example_scheduler_eq) (simp add: example_process_def)
qed

text \<open>
  C31 (clean-up of zombies). \<^verbatim>\<open>cleanup_all_zombies\<close> reports the number of zombies (modulo
  the 32 bits of its counter), keeps exactly the other processes in their order, and removes the
  tree entries of the zombies and no others.
\<close>

theorem cleanup_all_zombies_exact:
  assumes "Scheduler_inv s"
  defines "zs \<equiv> map proc_id (filter (\<lambda>p. state p = Zombie) (processes s))"
    and "s' \<equiv> snd (cleanup_all_zombies s)"
  shows "fst (cleanup_all_zombies s) = Inr (of_nat (length zs))
    \<and> processes s' = filter (\<lambda>p. state p \<noteq> Zombie) (processes s)
    \<and> map_of (process_tree s') = (\<lambda>k. if k \<in> set zs then None else map_of (process_tree s) k)
    \<and> Scheduler_inv s'"
proof -
  have d: "distinct (map proc_id (processes s))" using assms(1) by (simp add: Scheduler_inv_def)
  have "distinct zs" using d by (simp add: zs_def distinct_map_filter)
  then obtain s1 where s1: "fold cleanup_step zs (0, s) = (0 + of_nat (length zs), s1)" "Scheduler_inv s1"
    "processes s1 = filter (\<lambda>p. proc_id p \<notin> set zs) (processes s)"
    "map_of (process_tree s1) = (\<lambda>k. if k \<in> set zs then None else map_of (process_tree s) k)"
    using cleanup_zombies [OF assms(1), of zs 0] by (fastforce simp: zs_def)
  have "proc_id p \<in> set zs \<longleftrightarrow> state p = Zombie" if "p \<in> set (processes s)" for p
    using d that by (auto simp: zs_def distinct_map inj_on_def)
  then have "filter (\<lambda>p. proc_id p \<notin> set zs) (processes s) = filter (\<lambda>p. state p \<noteq> Zombie) (processes s)"
    by (intro filter_cong) auto
  with s1 show ?thesis by (simp add: s'_def cleanup_all_zombies_def Let_def zs_def)
qed

theorem cleanup_all_zombies_exact_witness:
  "processes (snd (cleanup_all_zombies (example_scheduler Running Zombie))) = [example_process 1 0 Running]"
proof -
  have "Scheduler_inv (example_scheduler Running Zombie)" by (rule example_scheduler_inv) simp
  from cleanup_all_zombies_exact [OF this] show ?thesis
    by (simp add: example_scheduler_eq) (simp add: example_process_def)
qed

end
