(* ===== verification/Ruix_Timer.thy ===== *)
theory Ruix_Timer
  imports Ruix_Scheduler
begin

text \<open>
  The timer (\<^verbatim>\<open>src/timer.rs\<close>): programming the interval timer, the tick counter, and the
  timeout manager that kills a process which stays in user mode for longer than its limit. The
  manager reaches into the scheduler, so its operations take and return the scheduler's state.
\<close>

unbundle bit_operations_syntax

section \<open>Timeouts of one process\<close>

definition PIT_FREQUENCY :: u32 where
  "PIT_FREQUENCY = 1193182"

definition TIMER_INTERVAL :: u32 where
  "TIMER_INTERVAL = 10"

definition DEFAULT_TIMEOUT_LIMIT :: u64 where
  "DEFAULT_TIMEOUT_LIMIT = 30"

datatype TimeoutState = Normal | Warning | TimedOut

record ProcessTimeout =
  pt_pid :: u64
  start_time :: u64
  limit :: u64
  pt_state :: TimeoutState
  warning_sent :: bool

definition ProcessTimeout_new :: "u64 \<Rightarrow> u64 \<Rightarrow> ProcessTimeout" where
  "ProcessTimeout_new pid lim = \<lparr>pt_pid = pid, start_time = 0, limit = lim, pt_state = Normal, warning_sent = False\<rparr>"

definition ProcessTimeout_reset :: "ProcessTimeout \<Rightarrow> ProcessTimeout" where
  "ProcessTimeout_reset t = t\<lparr>start_time := 0, pt_state := Normal, warning_sent := False\<rparr>"

definition ProcessTimeout_start :: "u64 \<Rightarrow> ProcessTimeout \<Rightarrow> ProcessTimeout" where
  "ProcessTimeout_start now t = t\<lparr>start_time := now, pt_state := Normal, warning_sent := False\<rparr>"

definition check_timeout :: "u64 \<Rightarrow> ProcessTimeout \<Rightarrow> TimeoutState \<times> ProcessTimeout" where
  "check_timeout now t =
     (if pt_state t = TimedOut then (TimedOut, t)
      else let elapsed = saturating_sub now (start_time t); warning_threshold = limit t div 2
           in if elapsed \<ge> limit t then (TimedOut, t\<lparr>pt_state := TimedOut\<rparr>)
              else if elapsed \<ge> warning_threshold \<and> \<not> warning_sent t then (Warning, t\<lparr>warning_sent := True\<rparr>)
              else (Normal, t))"

section \<open>The manager\<close>

record TimeoutManager =
  timeouts :: "ProcessTimeout list"
  current_tick :: u64
  user_mode_active :: bool
  current_user_pid :: u64

definition TimeoutManager_new :: TimeoutManager where
  "TimeoutManager_new = \<lparr>timeouts = [], current_tick = 0, user_mode_active = False, current_user_pid = 0\<rparr>"

text \<open>\<^verbatim>\<open>iter().find\<close> and \<^verbatim>\<open>iter_mut().find\<close> by process identifier.\<close>

definition find_timeout :: "u64 \<Rightarrow> TimeoutManager \<Rightarrow> ProcessTimeout option" where
  "find_timeout pid m = keyed_lookup pt_pid pid (timeouts m)"

definition update_timeout :: "u64 \<Rightarrow> (ProcessTimeout \<Rightarrow> ProcessTimeout) \<Rightarrow> TimeoutManager \<Rightarrow> TimeoutManager" where
  "update_timeout pid f m = m\<lparr>timeouts := keyed_modify pt_pid pid f (timeouts m)\<rparr>"

definition register_process :: "u64 \<Rightarrow> u64 option \<Rightarrow> TimeoutManager \<Rightarrow> TimeoutManager" where
  "register_process pid lim m =
     (let timeout_limit = (case lim of Some l \<Rightarrow> l | None \<Rightarrow> DEFAULT_TIMEOUT_LIMIT)
      in m\<lparr>timeouts := timeouts m @ [ProcessTimeout_new pid timeout_limit]\<rparr>)"

definition unregister_process :: "u64 \<Rightarrow> TimeoutManager \<Rightarrow> TimeoutManager" where
  "unregister_process pid m = m\<lparr>timeouts := filter (\<lambda>t. pt_pid t \<noteq> pid) (timeouts m)\<rparr>"

definition start_user_mode :: "u64 \<Rightarrow> TimeoutManager \<Rightarrow> TimeoutManager" where
  "start_user_mode pid m =
     (let m = m\<lparr>user_mode_active := True, current_user_pid := pid\<rparr>
      in case find_timeout pid m of
           Some _ \<Rightarrow> update_timeout pid (ProcessTimeout_start (current_tick m)) m
         | None \<Rightarrow> let m = register_process pid None m
                   in update_timeout pid (ProcessTimeout_start (current_tick m)) m)"

definition end_user_mode :: "TimeoutManager \<Rightarrow> TimeoutManager" where
  "end_user_mode m =
     (let m = m\<lparr>user_mode_active := False\<rparr>;
          m = update_timeout (current_user_pid m) ProcessTimeout_reset m
      in m\<lparr>current_user_pid := 0\<rparr>)"

text \<open>
  Killing a process: the first loop stops at the process, the second wakes every process that waits
  for it or for any child.
\<close>

definition kill_process :: "u64 \<Rightarrow> ('fut, 'w) Scheduler \<Rightarrow> ('fut, 'w) Scheduler" where
  "kill_process pid s =
     (let s = update_process pid (\<lambda>p. p\<lparr>state := Zombie, exit_code := - 1\<rparr>) s
      in s\<lparr>processes := map (wake_waiting_parent pid) (processes s)\<rparr>)"

definition handle_timeout ::
    "u64 \<Rightarrow> TimeoutManager \<times> ('fut, 'w) Scheduler \<Rightarrow> TimeoutManager \<times> ('fut, 'w) Scheduler" where
  "handle_timeout pid = (\<lambda>(m, s). (end_user_mode m, kill_process pid s))"

definition check_timeouts ::
    "TimeoutManager \<times> ('fut, 'w) Scheduler \<Rightarrow> TimeoutManager \<times> ('fut, 'w) Scheduler" where
  "check_timeouts = (\<lambda>(m, s).
     case find_timeout (current_user_pid m) m of
       Some t \<Rightarrow>
         let timeout_state = fst (check_timeout (current_tick m) t);
             m = update_timeout (current_user_pid m) (\<lambda>t. snd (check_timeout (current_tick m) t)) m
         in (case timeout_state of
               Warning \<Rightarrow> (m, s)
             | TimedOut \<Rightarrow> handle_timeout (pt_pid t) (m, s)
             | Normal \<Rightarrow> (m, s))
     | None \<Rightarrow> (m, s))"

definition TimeoutManager_increment_tick ::
    "TimeoutManager \<times> ('fut, 'w) Scheduler \<Rightarrow> TimeoutManager \<times> ('fut, 'w) Scheduler" where
  "TimeoutManager_increment_tick = (\<lambda>(m, s).
     let m = m\<lparr>current_tick := current_tick m + 1\<rparr>
     in if user_mode_active m then check_timeouts (m, s) else (m, s))"

definition set_timeout_limit :: "u64 \<Rightarrow> u64 \<Rightarrow> TimeoutManager \<Rightarrow> TimeoutManager" where
  "set_timeout_limit pid lim m =
     (case find_timeout pid m of
        Some _ \<Rightarrow> update_timeout pid (\<lambda>t. t\<lparr>limit := lim\<rparr>) m
      | None \<Rightarrow> register_process pid (Some lim) m)"

definition get_status :: "u64 \<Rightarrow> TimeoutManager \<Rightarrow> (TimeoutState \<times> u64 \<times> u64) option" where
  "get_status pid m =
     map_option (\<lambda>t. (pt_state t, saturating_sub (current_tick m) (start_time t), limit t)) (find_timeout pid m)"

section \<open>The module's functions\<close>

text \<open>
  \<^verbatim>\<open>init\<close> as the bytes it writes to the ports of the interval timer, in order.
\<close>

definition timer_init :: "(u16 \<times> u8) list" where
  "timer_init =
     (let divisor = PIT_FREQUENCY div TIMER_INTERVAL
      in [(0x43, 0x36), (0x40, ucast (divisor AND 0xFF)), (0x40, ucast (drop_bit 8 divisor AND 0xFF))])"

text \<open>\<^verbatim>\<open>increment_tick\<close> also updates the global counter.\<close>

definition increment_tick ::
    "TimeoutManager \<times> ('fut, 'w) Scheduler \<Rightarrow> u64 \<times> TimeoutManager \<times> ('fut, 'w) Scheduler" where
  "increment_tick ms =
     (let (m, s) = TimeoutManager_increment_tick ms in (current_tick m, m, s))"

section \<open>Lemmas\<close>

interpretation timeout_reg: registry pt_pid find_timeout update_timeout timeouts
  "\<lambda>m. distinct (map pt_pid (timeouts m))"
proof unfold_locales
  fix r :: TimeoutManager and k x and f :: "ProcessTimeout \<Rightarrow> ProcessTimeout"
  assume d: "distinct (map pt_pid (timeouts r))"
  show "find_timeout k r = Some x \<longleftrightarrow> x \<in> set (timeouts r) \<and> pt_pid x = k"
    using d by (simp add: find_timeout_def keyed.lookup_iff)
  assume f: "\<And>x. pt_pid (f x) = pt_pid x"
  show "timeouts (update_timeout k f r) = map (\<lambda>x. if pt_pid x = k then f x else x) (timeouts r)"
    using keyed.elements_modify [OF d f] by (simp add: update_timeout_def)
  show "distinct (map pt_pid (timeouts (update_timeout k f r)))"
    using keyed.inv_modify [OF d f] by (simp add: update_timeout_def)
qed

lemma kill_process_inv [ruix_inv]:
  assumes "Scheduler_inv s"
  shows "Scheduler_inv (kill_process pid s)"
proof -
  let ?s = "update_process pid (\<lambda>p. p\<lparr>state := Zombie, exit_code := - 1\<rparr>) s"
  have "Scheduler_inv ?s"
    using assms by (rule update_process_inv) (simp_all add: Process_wf_def)
  then show ?thesis
    using not_running_updates(2)
    by (fastforce simp: kill_process_def Let_def Scheduler_inv_def Process_wf_updates comp_def map_tl [symmetric])
qed

lemma find_update_timeout:
  assumes "\<And>t. pt_pid (f t) = pt_pid t"
  shows "find_timeout pid (update_timeout k f m)
    = (if pid = k then map_option f (find_timeout pid m) else find_timeout pid m)"
  using assms
  by (auto simp: find_timeout_def update_timeout_def keyed_lookup_def keyed_modify_def
      find_upd_first_same intro!: find_upd_first_other)

lemma update_timeout_frame [simp]:
  "current_tick (update_timeout k f m) = current_tick m"
  "user_mode_active (update_timeout k f m) = user_mode_active m"
  "current_user_pid (update_timeout k f m) = current_user_pid m"
  by (simp_all add: update_timeout_def)

lemma find_timeout_cong [simp]:
  "find_timeout k (m\<lparr>current_tick := x\<rparr>) = find_timeout k m"
  "find_timeout k (m\<lparr>user_mode_active := a\<rparr>) = find_timeout k m"
  "find_timeout k (m\<lparr>current_user_pid := x\<rparr>) = find_timeout k m"
  by (simp_all add: find_timeout_def)

lemma check_timeout_pid [simp]: "pt_pid (snd (check_timeout now t)) = pt_pid t"
  by (simp add: check_timeout_def Let_def)

lemma check_timeout_start [simp]:
  "start_time (snd (check_timeout now t)) = start_time t" "limit (snd (check_timeout now t)) = limit t"
  by (simp_all add: check_timeout_def Let_def)

lemma find_timeout_pid: "find_timeout pid m = Some t \<Longrightarrow> pt_pid t = pid"
  by (auto simp: find_timeout_def keyed_lookup_def dest: find_SomeD)

abbreviation ticks ::
    "nat \<Rightarrow> TimeoutManager \<times> ('fut, 'w) Scheduler \<Rightarrow> TimeoutManager \<times> ('fut, 'w) Scheduler" where
  "ticks n \<equiv> TimeoutManager_increment_tick ^^ n"

text \<open>
  Process \<open>pid\<close> has been in user mode for \<open>n\<close> ticks since tick \<open>t0\<close>, with limit \<open>l\<close>.
\<close>

definition monitored :: "u64 \<Rightarrow> u64 \<Rightarrow> u64 \<Rightarrow> nat \<Rightarrow> TimeoutManager \<Rightarrow> bool" where
  "monitored pid t0 l n m \<longleftrightarrow> user_mode_active m \<and> current_user_pid m = pid
     \<and> current_tick m = t0 + of_nat n
     \<and> (\<exists>t. find_timeout pid m = Some t \<and> start_time t = t0 \<and> limit t = l \<and> pt_state t \<noteq> TimedOut)"

lemma elapsed_ticks:
  assumes "unat t0 + n < 2 ^ 64"
  shows "unat (saturating_sub (t0 + of_nat n :: u64) t0) = n"
proof -
  have "unat (t0 + of_nat n) = unat t0 + n" using assms by (simp add: unat_word_ariths unat_of_nat)
  then show ?thesis by (simp add: unat_saturating_sub)
qed

lemma check_timeout_cases:
  assumes "pt_state t \<noteq> TimedOut" and "start_time t = t0" and "unat t0 + n < 2 ^ 64"
  shows "fst (check_timeout (t0 + of_nat n) t) = TimedOut \<longleftrightarrow> unat (limit t) \<le> n"
    and "n < unat (limit t) \<Longrightarrow> pt_state (snd (check_timeout (t0 + of_nat n) t)) = pt_state t"
  using assms(1,2) elapsed_ticks [OF assms(3)]
  by (auto simp: check_timeout_def Let_def word_le_nat_alt)

lemma tick_before_limit:
  assumes "monitored pid t0 l n m" and "Suc n < unat l" and "unat t0 + Suc n < 2 ^ 64"
  shows "\<exists>m'. TimeoutManager_increment_tick (m, s) = (m', s) \<and> monitored pid t0 l (Suc n) m'"
proof -
  let ?m = "m\<lparr>current_tick := current_tick m + 1\<rparr>"
  obtain t where t: "find_timeout pid m = Some t" "start_time t = t0" "limit t = l" "pt_state t \<noteq> TimedOut"
    and m: "user_mode_active m" "current_user_pid m = pid" "current_tick m = t0 + of_nat n"
    using assms(1) by (auto simp: monitored_def)
  have now: "current_tick m + 1 = t0 + of_nat (Suc n)" using m(3) by simp
  have no: "fst (check_timeout (t0 + of_nat (Suc n)) t) \<noteq> TimedOut"
    and keep: "pt_state (snd (check_timeout (t0 + of_nat (Suc n)) t)) = pt_state t"
    using check_timeout_cases [OF t(4,2) assms(3)] assms(2) t(3) by auto
  let ?m' = "update_timeout pid (\<lambda>t. snd (check_timeout (current_tick m + 1) t)) ?m"
  have "TimeoutManager_increment_tick (m, s) = (?m', s)"
    using m t no unfolding TimeoutManager_increment_tick_def check_timeouts_def Let_def now [symmetric]
    by (auto split: TimeoutState.split)
  moreover have "monitored pid t0 l (Suc n) ?m'"
    using m t keep unfolding monitored_def now by (simp add: find_update_timeout)
  ultimately show ?thesis by blast
qed

lemma tick_at_limit:
  assumes "monitored pid t0 l n m" and "unat l \<le> Suc n" and "unat t0 + Suc n < 2 ^ 64"
  shows "\<exists>m'. TimeoutManager_increment_tick (m, s) = (m', kill_process pid s) \<and> \<not> user_mode_active m'"
proof -
  obtain t where t: "find_timeout pid m = Some t" "start_time t = t0" "limit t = l" "pt_state t \<noteq> TimedOut"
    and m: "user_mode_active m" "current_user_pid m = pid" "current_tick m = t0 + of_nat n"
    using assms(1) by (auto simp: monitored_def)
  have now: "current_tick m + 1 = t0 + of_nat (Suc n)" using m(3) by simp
  have "fst (check_timeout (current_tick m + 1) t) = TimedOut"
    unfolding now using check_timeout_cases(1) [OF t(4,2) assms(3)] assms(2) t(3) by blast
  then show ?thesis
    using m t find_timeout_pid [OF t(1)]
    by (simp add: TimeoutManager_increment_tick_def check_timeouts_def Let_def handle_timeout_def
        end_user_mode_def)
qed

lemma ticks_before_limit:
  assumes "monitored pid t0 l 0 m" and "n = 0 \<or> n < unat l" and "unat t0 + n < 2 ^ 64"
  shows "\<exists>m'. ticks n (m, s) = (m', s) \<and> monitored pid t0 l n m'"
  using assms(2,3)
proof (induction n)
  case 0
  then show ?case using assms(1) by simp
next
  case (Suc n)
  then obtain m' where m': "ticks n (m, s) = (m', s)" "monitored pid t0 l n m'" by auto
  from tick_before_limit [OF m'(2), where s = s] Suc.prems m'(1) show ?case by auto
qed

lemma ticks_inactive: "\<not> user_mode_active m \<Longrightarrow> \<exists>m'. ticks n (m, s) = (m', s) \<and> \<not> user_mode_active m'"
  by (induction n) (auto simp: TimeoutManager_increment_tick_def Let_def)

lemma monitored_start:
  "monitored pid (current_tick m)
     (case find_timeout pid m of Some t \<Rightarrow> limit t | None \<Rightarrow> DEFAULT_TIMEOUT_LIMIT) 0 (start_user_mode pid m)"
proof (cases "find_timeout pid m")
  case None
  have "find_timeout pid (register_process pid None m') = Some (ProcessTimeout_new pid DEFAULT_TIMEOUT_LIMIT)"
    if "find_timeout pid m' = None" for m'
    using that by (simp add: find_timeout_def keyed_lookup_def register_process_def find_append_None
        ProcessTimeout_new_def)
  with None show ?thesis
    by (simp add: monitored_def start_user_mode_def Let_def find_update_timeout ProcessTimeout_start_def)
      (simp add: register_process_def ProcessTimeout_new_def)
next
  case (Some t)
  then show ?thesis
    by (simp add: monitored_def start_user_mode_def Let_def find_update_timeout ProcessTimeout_start_def)
qed

lemma wake_waiting_parent_eq:
  "wake_waiting_parent pid p
     = (if state p \<in> {Waiting (Child pid), Waiting (Child (- 1))} then p\<lparr>state := Ready\<rparr> else p)"
  by (auto simp: wake_waiting_parent_def split: ProcessState.split WaitReason.split)

lemma kill_process_lookup:
  assumes "Scheduler_inv s"
  shows "lookup_process k (kill_process pid s) = map_option (\<lambda>p. wake_waiting_parent pid
    (if k = pid then p\<lparr>state := Zombie, exit_code := - 1\<rparr> else p)) (lookup_process k s)"
proof -
  have "lookup_process k (s'\<lparr>processes := map (wake_waiting_parent pid) (processes s')\<rparr>)
      = map_option (wake_waiting_parent pid) (lookup_process k s')" for s' :: "('a, 'b) Scheduler"
  proof -
    have "find (\<lambda>x. proc_id x = k) (map (wake_waiting_parent pid) ps)
        = map_option (wake_waiting_parent pid) (find (\<lambda>x. proc_id x = k) ps)" for ps
      by (induction ps) auto
    then show ?thesis by (simp add: lookup_process_def keyed_lookup_def)
  qed
  with lookup_update_process [OF assms, of "\<lambda>p. p\<lparr>state := Zombie, exit_code := - 1\<rparr>" k pid]
  show ?thesis by (cases "lookup_process k s") (auto simp: kill_process_def Let_def)
qed

text \<open>
  One warning, at half the limit: as long as a process is monitored, a check reports a warning
  exactly when half of the limit has passed and no warning has been given since the start, and a
  check that has warned once never warns again before the next start or reset.
\<close>

lemma warning_once:
  assumes "pt_state t \<noteq> TimedOut" and "unat (start_time t) + n < 2 ^ 64" and "n < unat (limit t)"
  shows "fst (check_timeout (start_time t + of_nat n) t) = Warning
      \<longleftrightarrow> unat (limit t) div 2 \<le> n \<and> \<not> warning_sent t"
    and "fst (check_timeout (start_time t + of_nat n) t) = Warning \<Longrightarrow>
      fst (check_timeout now (snd (check_timeout (start_time t + of_nat n) t))) \<noteq> Warning"
  using assms(1,3) elapsed_ticks [OF assms(2)]
  by (auto simp: check_timeout_def Let_def word_le_nat_alt unat_div split: if_splits)

section \<open>Properties\<close>

text \<open>
  C16 (timeouts are exact). From the moment a process enters user mode, with a limit of \<open>l\<close> ticks,
  and as long as the tick counter does not pass its 64 bits, the timer interrupts before the limit
  leave the scheduler alone, the interrupt at the limit (the first one when the limit is zero)
  kills the process and ends user mode, and later interrupts do nothing more.
\<close>

theorem timeout_exact:
  fixes s :: "('fut, 'w) Scheduler"
  assumes "unat (current_tick m) + max 1 (unat l) < 2 ^ 64"
    and "l = (case find_timeout pid m of Some t \<Rightarrow> limit t | None \<Rightarrow> DEFAULT_TIMEOUT_LIMIT)"
  shows "snd (ticks n (start_user_mode pid m, s)) = (if n < max 1 (unat l) then s else kill_process pid s)
    \<and> user_mode_active (fst (ticks n (start_user_mode pid m, s))) = (n < max 1 (unat l))"
proof -
  have start: "monitored pid (current_tick m) l 0 (start_user_mode pid m)"
    unfolding assms(2) by (rule monitored_start)
  show ?thesis
  proof (cases "n < max 1 (unat l)")
    case True
    then have "n = 0 \<or> n < unat l" and "unat (current_tick m) + n < 2 ^ 64" using assms(1) by auto
    from ticks_before_limit [OF start this, of s] True show ?thesis by (auto simp: monitored_def)
  next
    case False
    define k where "k = max 1 (unat l) - 1"
    have "k = 0 \<or> k < unat l" and "unat (current_tick m) + k < 2 ^ 64" using assms(1) by (auto simp: k_def)
    from ticks_before_limit [OF start this, of s] obtain m1 where
      m1: "ticks k (start_user_mode pid m, s) = (m1, s)" "monitored pid (current_tick m) l k m1" by blast
    have "unat l \<le> Suc k" and "unat (current_tick m) + Suc k < 2 ^ 64" using assms(1) by (auto simp: k_def)
    from tick_at_limit [OF m1(2) this, of s] obtain m2 where
      m2: "TimeoutManager_increment_tick (m1, s) = (m2, kill_process pid s)" "\<not> user_mode_active m2" by blast
    have "n = (n - Suc k) + Suc k" using False by (simp add: k_def)
    then have "ticks n (start_user_mode pid m, s) = ticks (n - Suc k) (ticks (Suc k) (start_user_mode pid m, s))"
      by (metis comp_apply funpow_add)
    also have "ticks (Suc k) (start_user_mode pid m, s) = (m2, kill_process pid s)" using m1 m2 by simp
    finally show ?thesis
      using ticks_inactive [OF m2(2), of "n - Suc k" "kill_process pid s"] False by auto
  qed
qed

theorem timeout_exact_witness:
  "snd (ticks 29 (start_user_mode 1 TimeoutManager_new, example_scheduler Running Ready))
     = example_scheduler Running Ready
   \<and> snd (ticks 30 (start_user_mode 1 TimeoutManager_new, example_scheduler Running Ready))
     = kill_process 1 (example_scheduler Running Ready)"
proof -
  have h: "unat (current_tick TimeoutManager_new) + max 1 (unat (30 :: u64)) < 2 ^ 64"
    "30 = (case find_timeout 1 TimeoutManager_new of Some t \<Rightarrow> limit t | None \<Rightarrow> DEFAULT_TIMEOUT_LIMIT)"
    by (simp_all add: TimeoutManager_new_def find_timeout_def keyed_lookup_def DEFAULT_TIMEOUT_LIMIT_def)
  have "29 < max 1 (unat (30 :: u64))" and "\<not> 30 < max 1 (unat (30 :: u64))" by simp_all
  then show ?thesis
    using timeout_exact [OF h, of 29 "example_scheduler Running Ready"]
      timeout_exact [OF h, of 30 "example_scheduler Running Ready"]
    by (simp only: if_True if_False simp_thms)
qed

text \<open>
  Killing on timeout. The killed process becomes a zombie with exit code \<open>-1\<close>; every other
  process is unchanged except that one which waits for it, or for any child, is made ready, whether
  or not it is the parent; and the scheduler's invariant is kept.
\<close>

theorem kill_process_effects:
  assumes "Scheduler_inv s"
  shows "Scheduler_inv (kill_process pid s)
    \<and> (\<forall>p. lookup_process pid s = Some p \<longrightarrow>
          lookup_process pid (kill_process pid s) = Some (p\<lparr>state := Zombie, exit_code := - 1\<rparr>))
    \<and> (\<forall>k p. k \<noteq> pid \<longrightarrow> lookup_process k s = Some p \<longrightarrow> lookup_process k (kill_process pid s)
          = Some (if state p \<in> {Waiting (Child pid), Waiting (Child (- 1))} then p\<lparr>state := Ready\<rparr> else p))"
  using kill_process_inv [OF assms, of pid] kill_process_lookup [OF assms, of _ pid]
  by (simp add: wake_zombie wake_waiting_parent_eq)

theorem kill_process_effects_witness:
  "lookup_process 2 (kill_process 2 (example_scheduler (Waiting (Child 2)) Ready))
     = Some (example_process 2 1 Ready \<lparr>state := Zombie, exit_code := - 1\<rparr>)
   \<and> lookup_process 1 (kill_process 2 (example_scheduler (Waiting (Child 2)) Ready)) = Some (example_process 1 0 Ready)"
proof -
  have "Scheduler_inv (example_scheduler (Waiting (Child 2)) Ready)" by (rule example_scheduler_inv) simp
  from kill_process_effects [OF this, of 2] example_lookup [of "Waiting (Child 2)" Ready] show ?thesis
    by (auto simp: example_process_def)
qed

text \<open>
  Programming of the interval timer. The divisor for the intended 10 Hz is 119318, but only its
  low 16 bits reach the timer: the two data bytes encode 53782, about 22 Hz.
\<close>

theorem timer_init_truncates:
  "\<exists>lo hi. timer_init = [(0x43, 0x36), (0x40, lo), (0x40, hi)]
    \<and> unat lo + 256 * unat hi = 53782
    \<and> unat (PIT_FREQUENCY div TIMER_INTERVAL) = 119318
    \<and> unat PIT_FREQUENCY div 53782 = 22"
proof -
  have "timer_init = [(0x43, 0x36), (0x40, 0x16), (0x40, 0xD2)]" by code_simp
  then show ?thesis
    by (intro exI [of _ "0x16"] exI [of _ "0xD2"])
      (simp add: PIT_FREQUENCY_def TIMER_INTERVAL_def unat_div)
qed

end
