(* ===== verification/Ruix_Utf8.thy ===== *)
theory Ruix_Utf8
  imports Ruix_Prelude
begin

text \<open>
  Validation of UTF-8 in Rust's core library, which system calls and the console use on byte
  buffers.
\<close>

text \<open>The byte sequences that \<^verbatim>\<open>core::str::from_utf8\<close> accepts.\<close>

definition cont :: "u8 \<Rightarrow> bool" where
  "cont b \<longleftrightarrow> 0x80 \<le> b \<and> b \<le> 0xBF"

fun valid_utf8 :: "u8 list \<Rightarrow> bool" where
  "valid_utf8 [] = True"
| "valid_utf8 (a # bs) =
     (if a < 0x80 then valid_utf8 bs
      else case bs of
        [] \<Rightarrow> False
      | b # bs1 \<Rightarrow>
          if 0xC2 \<le> a \<and> a \<le> 0xDF then cont b \<and> valid_utf8 bs1
          else case bs1 of
            [] \<Rightarrow> False
          | c # bs2 \<Rightarrow>
              if a = 0xE0 \<and> 0xA0 \<le> b \<and> b \<le> 0xBF \<or> (0xE1 \<le> a \<and> a \<le> 0xEC \<or> a = 0xEE \<or> a = 0xEF) \<and> cont b
                 \<or> a = 0xED \<and> 0x80 \<le> b \<and> b \<le> 0x9F
              then cont c \<and> valid_utf8 bs2
              else case bs2 of
                [] \<Rightarrow> False
              | d # bs3 \<Rightarrow>
                  (a = 0xF0 \<and> 0x90 \<le> b \<and> b \<le> 0xBF \<or> 0xF1 \<le> a \<and> a \<le> 0xF3 \<and> cont b
                   \<or> a = 0xF4 \<and> 0x80 \<le> b \<and> b \<le> 0x8F) \<and> cont c \<and> cont d \<and> valid_utf8 bs3)"

text \<open>ASCII text is valid, and validity does not depend on what follows a valid prefix.\<close>

lemma valid_utf8_ascii: "\<forall>b \<in> set bs. b < 0x80 \<Longrightarrow> valid_utf8 bs"
  by (induction bs) auto

lemma valid_utf8_ascii_append: "\<forall>b \<in> set as. b < 0x80 \<Longrightarrow> valid_utf8 (as @ bs) = valid_utf8 bs"
  by (induction as) auto

end
