(* ===== verification/Ruix_Syscall.thy ===== *)
theory Ruix_Syscall
  imports Ruix_Channel Ruix_Handle Ruix_Timer Ruix_Utf8
begin

text \<open>
  System calls (\<^verbatim>\<open>src/syscall.rs\<close>): reading the arguments from the kernel stack, the
  validation of user pointers, and the handler, with one definition per system call. The state is
  the record \<open>kernel\<close> of everything that the handler reads and writes: the scheduler, the two
  IPC registries, the processor's data, memory, the process identifier counter and the bytes
  printed by \<^verbatim>\<open>sys_write\<close>.
\<close>

section \<open>State and arguments\<close>

record ('fut, 'w) kernel =
  sched :: "('fut, 'w) Scheduler"
  chans :: ChannelRegistry
  hands :: HandleRegistry
  cpu_data :: cpu
  kmem :: mem
  kpid :: u64
  stdout :: "u8 list"

record SyscallArgs =
  syscall_number :: u64
  arg1 :: u64
  arg2 :: u64
  arg3 :: u64
  arg4 :: u64
  arg5 :: u64
  arg6 :: u64

text \<open>The module's own error type, named like the one of \<^verbatim>\<open>error.rs\<close> in the source.\<close>

datatype SyscallArgError = InvalidStackPointer | InvalidSyscallNumber u64 | InvalidPointer u64
  | AccessViolation u64 | BoundsExceeded

definition validate_stack_pointer :: "u64 \<Rightarrow> bool" where
  "validate_stack_pointer stack_ptr =
     (if stack_ptr < 0xFFFF800000000000 \<or> stack_ptr > 0xFFFFFFFFFFFFFFFF then False
      else if stack_ptr mod 16 \<noteq> 0 then False
      else True)"

definition validate_syscall_number :: "u64 \<Rightarrow> bool" where
  "validate_syscall_number n \<longleftrightarrow> n \<in> set [0, 1, 2, 3, 4, 5, 6, 7, 24, 39, 57, 61]"

text \<open>
  The address is computed and compared as an \<^verbatim>\<open>isize\<close>; a signed value is never above
  \<^verbatim>\<open>0x7FFF_FFFF_FFFF_FFFF\<close>.
\<close>

definition safe_read_register :: "u64 \<Rightarrow> i64 \<Rightarrow> mem \<Rightarrow> SyscallArgError + u64" where
  "safe_read_register stack_ptr offset m =
     (let addr = stack_ptr + offset * 8
      in if sint addr < 0 \<or> sint addr > 0x7FFFFFFFFFFFFFFF then Inl (InvalidPointer addr)
         else let val = read_u64 (stack_ptr + offset * 8) m
              in if val = 0xDEADBEEFDEADBEEF then Inl (AccessViolation val) else Inr val)"

text \<open>The operator \<^verbatim>\<open>?\<close> on results.\<close>

definition bind_result :: "'e + 'a \<Rightarrow> ('a \<Rightarrow> 'e + 'b) \<Rightarrow> 'e + 'b" where
  "bind_result r f = (case r of Inl e \<Rightarrow> Inl e | Inr v \<Rightarrow> f v)"

definition safe_parse :: "u64 \<Rightarrow> mem \<Rightarrow> SyscallArgError + SyscallArgs" where
  "safe_parse stack_ptr m =
     (if \<not> validate_stack_pointer stack_ptr then Inl InvalidStackPointer
      else bind_result (safe_read_register stack_ptr (- 1) m) (\<lambda>n.
           bind_result (safe_read_register stack_ptr 2 m) (\<lambda>a1.
           bind_result (safe_read_register stack_ptr 4 m) (\<lambda>a2.
           bind_result (safe_read_register stack_ptr 5 m) (\<lambda>a3.
           bind_result (safe_read_register stack_ptr 6 m) (\<lambda>a4.
           bind_result (safe_read_register stack_ptr 7 m) (\<lambda>a5.
           bind_result (safe_read_register stack_ptr 8 m) (\<lambda>a6.
             if \<not> validate_syscall_number n then Inl (InvalidSyscallNumber n)
             else Inr \<lparr>syscall_number = n, arg1 = a1, arg2 = a2, arg3 = a3, arg4 = a4,
                       arg5 = a5, arg6 = a6\<rparr>))))))))"

definition validate_user_pointer :: "u64 \<Rightarrow> usize \<Rightarrow> SyscallArgError + unit" where
  "validate_user_pointer ptr sz =
     (if ptr = 0 then Inl (InvalidPointer 0)
      else if ptr < 0x400000 \<or> ptr > 0x7FFFFFFF then Inl (InvalidPointer ptr)
      else if sz > 0x1000 then Inl BoundsExceeded
      else case checked_add ptr sz of
             None \<Rightarrow> Inl BoundsExceeded
           | Some end_addr \<Rightarrow> if end_addr > 0x7FFFFFFF then Inl BoundsExceeded else Inr ())"

section \<open>The system calls\<close>

text \<open>
  Each takes the arguments and the current process and returns the value for \<^verbatim>\<open>RAX\<close> with
  the new state. \<open>ERR\<close> is \<^verbatim>\<open>-1i64 as u64\<close>.
\<close>

abbreviation ERR :: u64 where
  "ERR \<equiv> - 1"

definition sys_getpid :: "u64 \<Rightarrow> ('fut, 'w) kernel \<Rightarrow> u64 \<times> ('fut, 'w) kernel" where
  "sys_getpid current_pid k = (current_pid, k)"

definition sys_fork :: "u64 \<Rightarrow> ('fut, 'w) kernel \<Rightarrow> u64 \<times> ('fut, 'w) kernel" where
  "sys_fork current_pid k =
     (case processes (sched k) of
        parent # _ \<Rightarrow>
          if proc_id parent = current_pid then
            if \<not> check_resource_limits parent then (ERR, k)
            else if children_count (stats parent) \<ge> max_processes (resource_limits parent) then (ERR, k)
            else
              let child_pid = kpid k; k = k\<lparr>kpid := kpid k + 1\<rparr>;
                  (res, s) = register_child current_pid child_pid (sched k);
                  k = k\<lparr>sched := s\<rparr>
              in (case res of Inl _ \<Rightarrow> (ERR, k) | Inr _ \<Rightarrow> (child_pid, k))
          else (ERR, k)
      | [] \<Rightarrow> (ERR, k))"

text \<open>\<^verbatim>\<open>*(status_ptr as *mut i32) = exit_code\<close>\<close>

definition write_i32 :: "u64 \<Rightarrow> i32 \<Rightarrow> mem \<Rightarrow> mem" where
  "write_i32 a v m = write_bytes a (le_bytes 4 (ucast v)) m"

definition wait4_target :: "u64 \<Rightarrow> u64 list \<Rightarrow> u64" where
  "wait4_target target_pid zombie_children =
     (if target_pid = - 1 then (case zombie_children of [] \<Rightarrow> 0 | z # _ \<Rightarrow> z)
      else case find (\<lambda>pid. pid = target_pid) zombie_children of Some z \<Rightarrow> z | None \<Rightarrow> 0)"

definition wait4_block :: "u64 \<Rightarrow> u64 \<Rightarrow> ('fut, 'w) kernel \<Rightarrow> u64 \<times> ('fut, 'w) kernel" where
  "wait4_block current_pid target_pid k =
     (case processes (sched k) of
        p # ps \<Rightarrow>
          if proc_id p = current_pid then
            let qs = ps @ [p\<lparr>state := Waiting (Child target_pid)\<rparr>];
                k = k\<lparr>sched := (sched k)\<lparr>processes := qs\<rparr>\<rparr>
            in (case qs of
                  next # _ \<Rightarrow> (context_ptr next, k\<lparr>cpu_data := switch_to next (cpu_data k)\<rparr>)
                | [] \<Rightarrow> (ERR, k))
          else (ERR, k)
      | [] \<Rightarrow> (ERR, k))"

definition sys_wait4 :: "SyscallArgs \<Rightarrow> u64 \<Rightarrow> ('fut, 'w) kernel \<Rightarrow> u64 \<times> ('fut, 'w) kernel" where
  "sys_wait4 args current_pid k =
     (let target_pid = arg1 args; status_ptr = arg2 args; options = arg3 args in
      if target_pid \<noteq> - 1 \<and> (target_pid < 1000 \<or> target_pid > 10000) then (ERR, k)
      else if status_ptr \<noteq> 0 \<and> validate_user_pointer status_ptr 4 \<noteq> Inr () then (ERR, k)
      else if options \<noteq> 0 then (ERR, k)
      else
        let target_child = wait4_target target_pid (find_zombie_children current_pid (sched k)) in
        if target_child \<noteq> 0 then
          (let (res, s) = reap_zombie_child current_pid target_child (sched k);
               k = k\<lparr>sched := s\<rparr>
           in case res of
                Inr code \<Rightarrow>
                  (target_child, if status_ptr \<noteq> 0 then k\<lparr>kmem := write_i32 status_ptr code (kmem k)\<rparr> else k)
              | Inl _ \<Rightarrow> (ERR, k))
        else wait4_block current_pid target_pid k)"

definition sys_sched_yield :: "u64 \<Rightarrow> ('fut, 'w) kernel \<Rightarrow> u64 \<times> ('fut, 'w) kernel" where
  "sys_sched_yield current_pid k =
     (case processes (sched k) of
        p # ps \<Rightarrow>
          if proc_id p = current_pid then (0, k\<lparr>sched := (sched k)\<lparr>processes := p\<lparr>state := Ready\<rparr> # ps\<rparr>\<rparr>)
          else (0, k)
      | [] \<Rightarrow> (0, k))"

definition sys_exit :: "SyscallArgs \<Rightarrow> u64 \<Rightarrow> ('fut, 'w) kernel \<Rightarrow> u64 \<times> ('fut, 'w) kernel" where
  "sys_exit args current_pid k =
     (let code = ucast (arg1 args) :: i32 in
      if sint code < -255 \<or> sint code > 255 then (ERR, k)
      else
        let (res, s) = handle_process_exit current_pid code (sched k); k = k\<lparr>sched := s\<rparr>
        in (case res of
              Inl _ \<Rightarrow> (ERR, k)
            | Inr _ \<Rightarrow> (0, k\<lparr>cpu_data := (cpu_data k)\<lparr>current_process_id := 0\<rparr>\<rparr>)))"

definition sys_write :: "SyscallArgs \<Rightarrow> ('fut, 'w) kernel \<Rightarrow> u64 \<times> ('fut, 'w) kernel" where
  "sys_write args k =
     (let fd = arg1 args; buf = arg2 args; count = arg3 args in
      if fd > 2 then (ERR, k)
      else if count > 4096 then (ERR, k)
      else if validate_user_pointer buf count \<noteq> Inr () then (ERR, k)
      else if fd = 1 then
        let slice = read_bytes buf (unat count) (kmem k)
        in if valid_utf8 slice then (count, k\<lparr>stdout := stdout k @ slice\<rparr>) else (ERR, k)
      else (ERR, k))"

definition sys_create_channel :: "SyscallArgs \<Rightarrow> u64 \<Rightarrow> ('fut, 'w) kernel \<Rightarrow> u64 \<times> ('fut, 'w) kernel" where
  "sys_create_channel args current_pid k =
     (let target_pid = arg1 args in
      if target_pid = 0 \<or> target_pid > 10000 then (ERR, k)
      else
        let (res, r) = ipc_create_channel current_pid target_pid (chans k); k = k\<lparr>chans := r\<rparr>
        in (case res of Inr channel_id \<Rightarrow> (channel_id, k) | Inl _ \<Rightarrow> (ERR, k)))"

definition sys_send_message :: "SyscallArgs \<Rightarrow> u64 \<Rightarrow> ('fut, 'w) kernel \<Rightarrow> u64 \<times> ('fut, 'w) kernel" where
  "sys_send_message args current_pid k =
     (let channel_id = arg1 args; mtype = ucast (arg2 args) :: u32; data_ptr = arg3 args; len = arg4 args in
      if channel_id = 0 \<or> channel_id > 1000 then (ERR, k)
      else if len > 256 then (ERR, k)
      else if data_ptr \<noteq> 0 \<and> validate_user_pointer data_ptr len \<noteq> Inr () then (ERR, k)
      else
        let (res, r) = ipc_send_message current_pid channel_id mtype (read_bytes data_ptr (unat len) (kmem k)) (chans k);
            k = k\<lparr>chans := r\<rparr>
        in (case res of Inr _ \<Rightarrow> (0, k) | Inl _ \<Rightarrow> (ERR, k)))"

definition sys_receive_message :: "SyscallArgs \<Rightarrow> u64 \<Rightarrow> ('fut, 'w) kernel \<Rightarrow> u64 \<times> ('fut, 'w) kernel" where
  "sys_receive_message args current_pid k =
     (let channel_id = arg1 args; buffer_ptr = arg2 args; buffer_size = arg3 args in
      if channel_id = 0 \<or> channel_id > 1000 then (ERR, k)
      else if buffer_size > 256 then (ERR, k)
      else if buffer_ptr \<noteq> 0 \<and> validate_user_pointer buffer_ptr buffer_size \<noteq> Inr () then (ERR, k)
      else
        let (res, r) = ipc_receive_message current_pid channel_id (chans k); k = k\<lparr>chans := r\<rparr>
        in (case res of
              Inr (Some message) \<Rightarrow>
                let copy_len = min (data_len message) (unat buffer_size)
                in (of_nat copy_len, k\<lparr>kmem := write_bytes buffer_ptr (take copy_len (msg_data message)) (kmem k)\<rparr>)
            | Inr None \<Rightarrow> (- 2, k)
            | Inl _ \<Rightarrow> (ERR, k)))"

fun access_rights_arg :: "u64 \<Rightarrow> AccessRights option" where
  "access_rights_arg a =
     (if a = 0 then Some ReadOnly else if a = 1 then Some ReadWrite else if a = 2 then Some Execute else None)"

fun transfer_mode_arg :: "u64 \<Rightarrow> TransferMode option" where
  "transfer_mode_arg a =
     (if a = 0 then Some Ownership else if a = 1 then Some Shared else if a = 2 then Some Exclusive else None)"

text \<open>The calls on memory handles build addresses with the checked constructors, which may panic.\<close>

definition sys_create_memory_handle ::
    "x86_crate \<Rightarrow> SyscallArgs \<Rightarrow> u64 \<Rightarrow> ('fut, 'w) kernel \<Rightarrow> (u64 \<times> ('fut, 'w) kernel) option" where
  "sys_create_memory_handle X args current_pid k =
     (case virt_new X (arg1 args) of
        None \<Rightarrow> None
      | Some start \<Rightarrow>
          (case access_rights_arg (arg3 args) of
             None \<Rightarrow> Some (ERR, k)
           | Some rts \<Rightarrow>
               (case transfer_mode_arg (arg4 args) of
                  None \<Rightarrow> Some (ERR, k)
                | Some md \<Rightarrow>
                    if validate_user_pointer (arg1 args) (arg2 args) \<noteq> Inr () then Some (ERR, k)
                    else
                      let (res, h) = create_memory_handle current_pid start (arg2 args) rts md (hands k);
                          k = k\<lparr>hands := h\<rparr>
                      in Some (case res of Inr handle_id \<Rightarrow> (handle_id, k) | Inl _ \<Rightarrow> (ERR, k)))))"

definition sys_transfer_memory ::
    "x86_crate \<Rightarrow> SyscallArgs \<Rightarrow> u64 \<Rightarrow> ('fut, 'w) kernel \<Rightarrow> (u64 \<times> ('fut, 'w) kernel) option" where
  "sys_transfer_memory X args current_pid k =
     (if arg1 args = 0 then Some (ERR, k)
      else if arg2 args = 0 \<or> arg2 args > 10000 then Some (ERR, k)
      else case transfer_memory X current_pid (arg1 args) (arg2 args) (hands k) of
             None \<Rightarrow> None
           | Some (Inr _, h) \<Rightarrow> Some (0, k\<lparr>hands := h\<rparr>)
           | Some (Inl _, h) \<Rightarrow> Some (ERR, k\<lparr>hands := h\<rparr>))"

text \<open>On success the message that is printed adds the size to the start of the range.\<close>

definition sys_receive_memory_handle ::
    "x86_crate \<Rightarrow> SyscallArgs \<Rightarrow> u64 \<Rightarrow> ('fut, 'w) kernel \<Rightarrow> (u64 \<times> ('fut, 'w) kernel) option" where
  "sys_receive_memory_handle X args current_pid k =
     (if arg1 args = 0 then Some (ERR, k)
      else case receive_memory_handle X current_pid (arg1 args) (hands k) of
             None \<Rightarrow> None
           | Some (Inr rg, h) \<Rightarrow>
               (case virt_add X (start_addr rg) (range_size rg) of
                  None \<Rightarrow> None
                | Some _ \<Rightarrow> Some (0, k\<lparr>hands := h\<rparr>))
           | Some (Inl _, h) \<Rightarrow> Some (ERR, k\<lparr>hands := h\<rparr>))"

section \<open>The handler\<close>

definition syscall_dispatch ::
    "x86_crate \<Rightarrow> SyscallArgs \<Rightarrow> u64 \<Rightarrow> ('fut, 'w) kernel \<Rightarrow> (u64 \<times> ('fut, 'w) kernel) option" where
  "syscall_dispatch X args current_pid k =
     (let n = syscall_number args in
      if n = 39 then Some (sys_getpid current_pid k)
      else if n = 57 then Some (sys_fork current_pid k)
      else if n = 61 then Some (sys_wait4 args current_pid k)
      else if n = 24 then Some (sys_sched_yield current_pid k)
      else if n = 0 then Some (sys_exit args current_pid k)
      else if n = 1 then Some (sys_write args k)
      else if n = 2 then Some (sys_create_channel args current_pid k)
      else if n = 3 then Some (sys_send_message args current_pid k)
      else if n = 4 then Some (sys_receive_message args current_pid k)
      else if n = 5 then sys_create_memory_handle X args current_pid k
      else if n = 6 then sys_transfer_memory X args current_pid k
      else if n = 7 then sys_receive_memory_handle X args current_pid k
      else Some (ERR, k))"

definition rust_syscall_handler ::
    "x86_crate \<Rightarrow> u64 \<Rightarrow> ('fut, 'w) kernel \<Rightarrow> (u64 \<times> ('fut, 'w) kernel) option" where
  "rust_syscall_handler X stack_ptr k =
     (let current_pid = current_process_id (cpu_data k)
      in case safe_parse stack_ptr (kmem k) of
           Inl _ \<Rightarrow> Some (ERR, k)
         | Inr args \<Rightarrow> syscall_dispatch X args current_pid k)"

section \<open>Pointer checks\<close>

lemma sint_negative:
  assumes "2 ^ 63 \<le> unat (w :: u64)"
  shows "sint w < 0"
proof (rule ccontr)
  assume "\<not> sint w < 0"
  moreover have "sint w < 2 ^ 63" using sint_lt [of w] by simp
  moreover have "uint w = sint w mod 2 ^ 64"
    using uint_word_of_int [of "sint w", where 'a = 64] by simp
  ultimately have "uint w < 2 ^ 63" by simp
  moreover have "int (unat w) = uint w" by simp
  moreover have "9223372036854775808 \<le> unat w" using assms by simp
  moreover have "(2 :: int) ^ 63 = 9223372036854775808" by simp
  ultimately show False by linarith
qed

lemma validate_user_pointer_iff:
  "validate_user_pointer ptr sz = Inr () \<longleftrightarrow>
     0x400000 \<le> unat ptr \<and> unat sz \<le> 0x1000 \<and> unat ptr + unat sz \<le> 0x7FFFFFFF"
proof -
  have lt: "ptr < 0x400000 \<longleftrightarrow> unat ptr < 0x400000" "ptr > 0x7FFFFFFF \<longleftrightarrow> unat ptr > 0x7FFFFFFF"
    "sz > 0x1000 \<longleftrightarrow> unat sz > 0x1000" "ptr = 0 \<longleftrightarrow> unat ptr = 0"
    by (simp_all add: word_less_nat_alt unsigned_eq_0_iff)
  show ?thesis
  proof (cases "checked_add ptr sz")
    case None
    then have "2 ^ 64 \<le> unat ptr + unat sz" by (simp add: checked_add_None_iff)
    with None show ?thesis unfolding validate_user_pointer_def lt by auto
  next
    case (Some e)
    then have e: "unat e = unat ptr + unat sz" by (simp add: checked_add_Some_iff)
    have "e > 0x7FFFFFFF \<longleftrightarrow> unat ptr + unat sz > 0x7FFFFFFF"
      unfolding e [symmetric] by (simp add: word_less_nat_alt)
    with Some show ?thesis unfolding validate_user_pointer_def lt by auto
  qed
qed

text \<open>The part of the address space that the checks let system calls touch.\<close>

definition user_space :: "u64 set" where
  "user_space = {x. 0x400000 \<le> unat x \<and> unat x < 0x7FFFFFFF}"

lemma validated_region:
  assumes "validate_user_pointer ptr sz = Inr ()" and "n \<le> unat sz"
  shows "region ptr n \<subseteq> user_space"
proof -
  have *: "0x400000 \<le> unat ptr" "unat ptr + unat sz \<le> 0x7FFFFFFF"
    using assms(1) by (simp_all add: validate_user_pointer_iff)
  then have "region ptr n = {x. unat ptr \<le> unat x \<and> unat x < unat ptr + n}"
    using assms(2) by (intro region_no_wrap) simp
  with * assms(2) show ?thesis by (auto simp: user_space_def)
qed

section \<open>What a call leaves alone\<close>

lemma sys_frame [simp]:
  "kmem (snd (sys_getpid p k)) = kmem k"
  "kmem (snd (sys_sched_yield p k)) = kmem k"
  "kmem (snd (sys_write a k)) = kmem k"
  "kmem (snd (wait4_block p q k)) = kmem k"
  by (simp_all add: sys_getpid_def sys_sched_yield_def sys_write_def wait4_block_def Let_def
      split: list.split)

lemma sys_fork_frame [simp]: "kmem (snd (sys_fork p k)) = kmem k"
  by (simp add: sys_fork_def Let_def split: list.split prod.split sum.split)

lemma sys_exit_frame [simp]: "kmem (snd (sys_exit a p k)) = kmem k"
  by (simp add: sys_exit_def Let_def split: prod.split sum.split)

lemma sys_create_channel_frame [simp]: "kmem (snd (sys_create_channel a p k)) = kmem k"
  by (simp add: sys_create_channel_def Let_def split: prod.split sum.split)

lemma sys_send_message_frame [simp]: "kmem (snd (sys_send_message a p k)) = kmem k"
  by (simp add: sys_send_message_def Let_def split: prod.split sum.split)

lemma sys_create_memory_handle_frame:
  "sys_create_memory_handle X a p k = Some (v, k') \<Longrightarrow> kmem k' = kmem k"
  by (auto simp: sys_create_memory_handle_def Let_def simp del: access_rights_arg.simps transfer_mode_arg.simps
      split: option.splits prod.splits sum.splits if_splits)

lemma sys_transfer_memory_frame: "sys_transfer_memory X a p k = Some (v, k') \<Longrightarrow> kmem k' = kmem k"
  by (auto simp: sys_transfer_memory_def split: option.splits prod.splits sum.splits if_splits)

lemma sys_receive_memory_handle_frame:
  "sys_receive_memory_handle X a p k = Some (v, k') \<Longrightarrow> kmem k' = kmem k"
  by (auto simp: sys_receive_memory_handle_def split: option.splits prod.splits sum.splits if_splits)

lemmas sys_handle_frame = sys_create_memory_handle_frame sys_transfer_memory_frame
  sys_receive_memory_handle_frame

lemma sys_wait4_memory:
  assumes "kmem (snd (sys_wait4 a p k)) x \<noteq> kmem k x"
  shows "x \<in> user_space"
proof -
  have "arg2 a \<noteq> 0 \<and> validate_user_pointer (arg2 a) 4 = Inr ()
      \<and> (\<exists>code. kmem (snd (sys_wait4 a p k)) = write_i32 (arg2 a) code (kmem k))"
    using assms by (auto simp: sys_wait4_def Let_def split: prod.splits sum.splits if_splits)
  then obtain code where v: "validate_user_pointer (arg2 a) 4 = Inr ()"
    and "write_i32 (arg2 a) code (kmem k) x \<noteq> kmem k x" using assms by auto
  then have "x \<in> region (arg2 a) 4"
    using write_bytes_outside [of x "arg2 a" "le_bytes 4 (ucast code)" "kmem k"]
    by (auto simp: write_i32_def)
  with validated_region [OF v, of 4] show ?thesis by auto
qed

lemma sys_receive_memory:
  assumes "kmem (snd (sys_receive_message a p k)) x \<noteq> kmem k x"
  shows "x \<in> user_space \<or> arg2 a = 0 \<and> unat x < 256"
proof -
  obtain n bs where w: "kmem (snd (sys_receive_message a p k)) = write_bytes (arg2 a) (take n bs) (kmem k)"
    and n: "n \<le> unat (arg3 a)" "unat (arg3 a) \<le> 256"
    and ok: "arg2 a = 0 \<or> validate_user_pointer (arg2 a) (arg3 a) = Inr ()"
    using assms
    by (auto simp: sys_receive_message_def Let_def word_less_nat_alt not_less
        split: prod.splits sum.splits option.splits if_splits)
  from w assms have "x \<in> region (arg2 a) (length (take n bs))"
    using write_bytes_outside by metis
  then have x: "x \<in> region (arg2 a) n" by (auto simp: region_def)
  from ok show ?thesis
  proof
    assume "arg2 a = 0"
    with x n show ?thesis by (simp add: region_def)
  next
    assume "validate_user_pointer (arg2 a) (arg3 a) = Inr ()"
    from validated_region [OF this n(1)] x show ?thesis by auto
  qed
qed

section \<open>The invariant of the kernel's state\<close>

definition kernel_inv :: "('fut, 'w) kernel \<Rightarrow> bool" where
  "kernel_inv k \<longleftrightarrow> Scheduler_inv (sched k) \<and> ChannelRegistry_inv (chans k) \<and> HandleRegistry_inv (hands k)"

text \<open>Neither identifier counter has reached the end of its range.\<close>

definition ids_left :: "('fut, 'w) kernel \<Rightarrow> bool" where
  "ids_left k \<longleftrightarrow> next_id (chans k) \<noteq> - 1 \<and> next_handle_id (hands k) \<noteq> - 1"

lemma kernel_inv_update:
  "kernel_inv k \<Longrightarrow> Scheduler_inv s \<Longrightarrow> kernel_inv (k\<lparr>sched := s\<rparr>)"
  "kernel_inv k \<Longrightarrow> ChannelRegistry_inv r \<Longrightarrow> kernel_inv (k\<lparr>chans := r\<rparr>)"
  "kernel_inv k \<Longrightarrow> HandleRegistry_inv h \<Longrightarrow> kernel_inv (k\<lparr>hands := h\<rparr>)"
  by (simp_all add: kernel_inv_def)

lemma kernel_inv_cong [simp]:
  "kernel_inv (k\<lparr>cpu_data := c\<rparr>) = kernel_inv k" "kernel_inv (k\<lparr>kmem := m\<rparr>) = kernel_inv k"
  "kernel_inv (k\<lparr>kpid := n\<rparr>) = kernel_inv k" "kernel_inv (k\<lparr>stdout := out\<rparr>) = kernel_inv k"
  by (simp_all add: kernel_inv_def)

lemma kernel_invD:
  "kernel_inv k \<Longrightarrow> Scheduler_inv (sched k)" "kernel_inv k \<Longrightarrow> ChannelRegistry_inv (chans k)"
  "kernel_inv k \<Longrightarrow> HandleRegistry_inv (hands k)"
  by (simp_all add: kernel_inv_def)

lemma Scheduler_inv_rotate:
  "Scheduler_inv s \<Longrightarrow> processes s = p # ps \<Longrightarrow>
     Scheduler_inv (s\<lparr>processes := ps @ [p\<lparr>state := Waiting r\<rparr>]\<rparr>)"
  by (cases ps) (auto simp: Scheduler_inv_def Process_wf_def)

lemma Scheduler_inv_front_ready:
  "Scheduler_inv s \<Longrightarrow> processes s = p # ps \<Longrightarrow> Scheduler_inv (s\<lparr>processes := p\<lparr>state := Ready\<rparr> # ps\<rparr>)"
  by (auto simp: Scheduler_inv_def Process_wf_def)

lemma sys_fork_inv [ruix_inv]:
  assumes "kernel_inv k"
  shows "kernel_inv (snd (sys_fork p k))"
proof -
  have "kernel_inv (k\<lparr>kpid := n, sched := s\<rparr>)" if "register_child p c (sched k) = (res, s)" for n c res s
    using register_child_inv [OF kernel_invD(1) [OF assms], of p c] that assms
    by (intro kernel_inv_update(1)) simp_all
  with assms show ?thesis
    by (auto simp: sys_fork_def Let_def split: list.split prod.split sum.split)
qed

lemma wait4_block_inv:
  assumes "kernel_inv k"
  shows "kernel_inv (snd (wait4_block p q k))"
proof (cases "processes (sched k)")
  case Nil
  with assms show ?thesis by (simp add: wait4_block_def)
next
  case (Cons r rs)
  let ?qs = "rs @ [r\<lparr>state := Waiting (Child q)\<rparr>]"
  obtain y ys where qs: "?qs = y # ys" by (cases ?qs) simp_all
  have "kernel_inv (k\<lparr>sched := (sched k)\<lparr>processes := ?qs\<rparr>\<rparr>)"
    using assms Cons by (intro kernel_inv_update Scheduler_inv_rotate kernel_invD)
  with assms Cons qs show ?thesis by (simp add: wait4_block_def Let_def)
qed

lemma sys_wait4_inv [ruix_inv]:
  assumes "kernel_inv k"
  shows "kernel_inv (snd (sys_wait4 a p k))"
proof -
  have "kernel_inv (k\<lparr>sched := s\<rparr>)" if "reap_zombie_child p c (sched k) = (res, s)" for c res s
    using reap_zombie_child_inv [OF kernel_invD(1) [OF assms], of p c] that assms
    by (intro kernel_inv_update(1)) simp_all
  with assms wait4_block_inv [OF assms] show ?thesis
    unfolding sys_wait4_def Let_def by (auto split: prod.split sum.split)
qed

lemma sys_sched_yield_inv [ruix_inv]: "kernel_inv k \<Longrightarrow> kernel_inv (snd (sys_sched_yield p k))"
  using Scheduler_inv_front_ready [OF kernel_invD(1), of k]
  by (auto simp: sys_sched_yield_def kernel_inv_update split: list.split)

lemma sys_exit_inv [ruix_inv]: "kernel_inv k \<Longrightarrow> kernel_inv (snd (sys_exit a p k))"
  using handle_process_exit_inv [OF kernel_invD(1), of k p "ucast (arg1 a)"]
  by (cases "handle_process_exit p (ucast (arg1 a)) (sched k)")
    (auto simp: sys_exit_def Let_def kernel_inv_update split: sum.split)

lemma sys_write_inv [ruix_inv]: "kernel_inv k \<Longrightarrow> kernel_inv (snd (sys_write a k))"
  by (simp add: sys_write_def Let_def)

lemma sys_create_channel_inv [ruix_inv]:
  "kernel_inv k \<Longrightarrow> ids_left k \<Longrightarrow> kernel_inv (snd (sys_create_channel a p k))"
  using ipc_create_channel_inv [OF kernel_invD(2), of k p "arg1 a"]
  by (cases "ipc_create_channel p (arg1 a) (chans k)")
    (auto simp: sys_create_channel_def Let_def ids_left_def kernel_inv_update split: sum.split)

lemma sys_send_message_inv [ruix_inv]:
  assumes "kernel_inv k"
  shows "kernel_inv (snd (sys_send_message a p k))"
proof -
  have "kernel_inv (k\<lparr>chans := snd (ipc_send_message p c t d (chans k))\<rparr>)" for c t d
    using assms by (intro kernel_inv_update ipc_send_message_inv kernel_invD)
  then have "ipc_send_message p c t d (chans k) = (res, r) \<Longrightarrow> kernel_inv (k\<lparr>chans := r\<rparr>)" for c t d res r
    by (metis snd_conv)
  with assms show ?thesis
    by (auto simp: sys_send_message_def Let_def split: prod.split sum.split)
qed

lemma sys_receive_message_inv [ruix_inv]:
  assumes "kernel_inv k"
  shows "kernel_inv (snd (sys_receive_message a p k))"
proof -
  have "kernel_inv (k\<lparr>chans := snd (ipc_receive_message p c (chans k))\<rparr>)" for c
    using assms by (intro kernel_inv_update ipc_receive_message_inv kernel_invD)
  then have "ipc_receive_message p c (chans k) = (res, r) \<Longrightarrow> kernel_inv (k\<lparr>chans := r\<rparr>)" for c res r
    by (metis snd_conv)
  with assms show ?thesis
    by (auto simp: sys_receive_message_def Let_def split: prod.split sum.split option.split)
qed

lemma sys_create_memory_handle_inv:
  assumes "kernel_inv k" and "ids_left k" and "sys_create_memory_handle X a p k = Some (v, k')"
  shows "kernel_inv k'"
proof -
  have "kernel_inv (k\<lparr>hands := h\<rparr>)" if "create_memory_handle p st n rts md (hands k) = (res, h)" for st n rts md res h
    using create_memory_handle_inv [OF kernel_invD(3) [OF assms(1)], of p st n rts md] that assms(1,2)
    by (intro kernel_inv_update(3)) (simp_all add: ids_left_def)
  with assms show ?thesis
    by (auto simp: sys_create_memory_handle_def Let_def simp del: access_rights_arg.simps transfer_mode_arg.simps
        split: option.splits prod.splits sum.splits if_splits)
qed

lemma sys_transfer_memory_inv:
  assumes "kernel_inv k" and "sys_transfer_memory X a p k = Some (v, k')"
  shows "kernel_inv k'"
proof -
  have "kernel_inv (k\<lparr>hands := h\<rparr>)" if "transfer_memory X p i t (hands k) = Some (res, h)" for i t res h
    using transfer_memory_inv [OF kernel_invD(3) [OF assms(1)], of X p i t] that assms(1)
    by (intro kernel_inv_update(3)) simp_all
  with assms show ?thesis
    by (auto simp: sys_transfer_memory_def split: option.splits prod.splits sum.splits if_splits)
qed

lemma sys_receive_memory_handle_inv:
  assumes "kernel_inv k" and "sys_receive_memory_handle X a p k = Some (v, k')"
  shows "kernel_inv k'"
proof -
  have "kernel_inv (k\<lparr>hands := h\<rparr>)" if "receive_memory_handle X p i (hands k) = Some (res, h)" for i res h
    using receive_memory_handle_inv [OF kernel_invD(3) [OF assms(1)], of X p i] that assms(1)
    by (intro kernel_inv_update(3)) simp_all
  with assms show ?thesis
    by (auto simp: sys_receive_memory_handle_def split: option.splits prod.splits sum.splits if_splits)
qed

text \<open>The calls that can not panic, as one case of the dispatch, and the three that can.\<close>

lemma syscall_dispatch_cases:
  assumes "syscall_dispatch X a p k = Some (v, k')"
  obtains "(v, k') \<in> {sys_getpid p k, sys_fork p k, sys_wait4 a p k, sys_sched_yield p k, sys_exit a p k,
      sys_write a k, sys_create_channel a p k, sys_send_message a p k, (ERR, k)}"
  | "syscall_number a = 4" "(v, k') = sys_receive_message a p k"
  | "sys_create_memory_handle X a p k = Some (v, k')"
  | "sys_transfer_memory X a p k = Some (v, k')"
  | "sys_receive_memory_handle X a p k = Some (v, k')"
proof -
  have chain: P if "(if b then x else y) = z" "b \<Longrightarrow> x = z \<Longrightarrow> P" "y = z \<Longrightarrow> P"
    for b and x y z :: "(u64 \<times> ('a, 'b) kernel) option" and P
    using that by (cases b) simp_all
  show ?thesis
    using assms unfolding syscall_dispatch_def Let_def
    by (elim chain)
      (rule that(3), assumption | rule that(4), assumption | rule that(5), assumption
        | rule that(2), assumption, simp | rule that(1), force)+
qed

lemma syscall_dispatch_inv [ruix_inv]:
  assumes "kernel_inv k" and "ids_left k" and "syscall_dispatch X a p k = Some (v, k')"
  shows "kernel_inv k'"
  using assms(3)
proof (cases rule: syscall_dispatch_cases)
  case 1
  have "kernel_inv (snd (sys_getpid p k))" using assms(1) by (simp add: sys_getpid_def)
  with 1 show ?thesis
    using assms(1,2) sys_fork_inv [of k p] sys_wait4_inv [of k a p] sys_sched_yield_inv [of k p]
      sys_exit_inv [of k a p] sys_write_inv [of k a] sys_create_channel_inv [of k a p]
      sys_send_message_inv [of k a p]
    by (auto dest: sym)
next
  case 2
  then show ?thesis using sys_receive_message_inv [OF assms(1), of a p] by (simp add: prod_eq_iff)
next
  case 3
  with assms show ?thesis by (blast intro: sys_create_memory_handle_inv)
next
  case 4
  with assms show ?thesis by (blast intro: sys_transfer_memory_inv)
next
  case 5
  with assms show ?thesis by (blast intro: sys_receive_memory_handle_inv)
qed

lemma safe_read_negative:
  assumes "validate_stack_pointer sp"
  shows "safe_read_register sp (- 1) m = Inl (InvalidPointer (sp - 8))"
proof -
  from assms have "0xFFFF800000000000 \<le> unat sp"
    by (simp add: validate_stack_pointer_def word_less_nat_alt split: if_splits)
  then have "unat (sp - 8) = unat sp - 8"
    by (subst unat_sub) (simp_all add: word_le_nat_alt)
  with \<open>0xFFFF800000000000 \<le> unat sp\<close> have "2 ^ 63 \<le> unat (sp - 8)" by simp
  then have "sint (sp - 8) < 0" by (rule sint_negative)
  then show ?thesis by (simp add: safe_read_register_def Let_def)
qed

section \<open>Calls that succeed\<close>

lemma sys_receive_message_ok:
  assumes "ipc_receive_message p (arg1 a) (chans k) = (Inr (Some m), r)"
    and "arg1 a \<noteq> 0" and "unat (arg1 a) \<le> 1000" and "unat (arg3 a) \<le> 256"
    and "arg2 a = 0 \<or> validate_user_pointer (arg2 a) (arg3 a) = Inr ()"
  defines "n \<equiv> min (data_len m) (unat (arg3 a))"
  shows "sys_receive_message a p k
    = (of_nat n, k\<lparr>chans := r, kmem := write_bytes (arg2 a) (take n (msg_data m)) (kmem k)\<rparr>)"
proof -
  have "\<not> arg1 a > 1000" "\<not> arg3 a > 256" using assms(3,4) by (simp_all add: word_less_nat_alt)
  then show ?thesis using assms by (auto simp: sys_receive_message_def Let_def)
qed

lemma sys_send_message_ok:
  assumes "ipc_send_message p (arg1 a) (ucast (arg2 a)) (read_bytes (arg3 a) (unat (arg4 a)) (kmem k)) (chans k) = (Inr (), r)"
    and "arg1 a \<noteq> 0" and "unat (arg1 a) \<le> 1000" and "unat (arg4 a) \<le> 256"
    and "validate_user_pointer (arg3 a) (arg4 a) = Inr ()"
  shows "sys_send_message a p k = (0, k\<lparr>chans := r\<rparr>)"
proof -
  have "\<not> arg1 a > 1000" "\<not> arg4 a > 256" using assms(3,4) by (simp_all add: word_less_nat_alt)
  then show ?thesis using assms by (simp add: sys_send_message_def Let_def)
qed

section \<open>Properties\<close>

definition example_kernel :: "(unit, unit) Scheduler \<Rightarrow> ChannelRegistry \<Rightarrow> (unit, unit) kernel" where
  "example_kernel s r = \<lparr>sched = s, chans = r, hands = HandleRegistry_new, cpu_data = example_cpu,
     kmem = (\<lambda>_. 0), kpid = 3, stdout = []\<rparr>"

definition example_args :: "u64 \<Rightarrow> u64 \<Rightarrow> u64 \<Rightarrow> u64 \<Rightarrow> u64 \<Rightarrow> SyscallArgs" where
  "example_args n a b c d = \<lparr>syscall_number = n, arg1 = a, arg2 = b, arg3 = c, arg4 = d, arg5 = 0, arg6 = 0\<rparr>"

text \<open>
  C2 (system calls write user memory only). Whatever the system call, its arguments and the calling
  process, the bytes of memory that it changes lie in the user range that the pointer check allows,
  with one exception: a \<^verbatim>\<open>receive_message\<close> with a null buffer writes the first bytes
  of the address space.
\<close>

theorem syscall_memory_confined:
  assumes "syscall_dispatch X a p k = Some (v, k')" and "kmem k' x \<noteq> kmem k x"
  shows "x \<in> user_space \<or> syscall_number a = 4 \<and> arg2 a = 0 \<and> unat x < 256"
  using assms(1)
proof (cases rule: syscall_dispatch_cases)
  case 1
  have "kmem k' = kmem k \<or> (v, k') = sys_wait4 a p k"
    using 1 by (auto dest!: arg_cong [where f = "\<lambda>r. kmem (snd r)"])
  with assms(2) have "kmem (snd (sys_wait4 a p k)) x \<noteq> kmem k x" by (metis snd_conv)
  then show ?thesis using sys_wait4_memory by blast
next
  case 2
  then have "k' = snd (sys_receive_message a p k)" by (metis snd_conv)
  with assms(2) 2(1) sys_receive_memory [of a p k x] show ?thesis by simp
qed (use assms(2) in \<open>auto dest: sys_handle_frame\<close>)

theorem syscall_memory_confined_witness:
  "\<exists>v k' x. syscall_dispatch x86_ref (example_args 4 1 0x500000 16 0) 9
       (example_kernel SCHEDULER_init example_channels) = Some (v, k')
     \<and> kmem k' x \<noteq> 0 \<and> x \<in> user_space"
proof -
  let ?k = "example_kernel SCHEDULER_init example_channels"
  obtain r where m: "ipc_receive_message 9 1 (chans ?k) = (Inr (Some (Message_new 7 4 [1, 2])), r)"
    using example_channels_receive by (cases "ipc_receive_message 9 1 example_channels") (simp add: example_kernel_def)
  let ?a = "example_args 4 1 0x500000 16 0"
  let ?k' = "?k\<lparr>chans := r, kmem := write_bytes 0x500000 [1, 2] (kmem ?k)\<rparr>"
  have "validate_user_pointer 0x500000 16 = Inr ()" by (simp add: validate_user_pointer_iff)
  then have d: "syscall_dispatch x86_ref ?a 9 ?k = Some (2, ?k')"
    using sys_receive_message_ok [of 9 ?a ?k "Message_new 7 4 [1, 2]" r] m
    by (simp add: syscall_dispatch_def example_args_def Message_new_def)
  moreover have x: "kmem ?k' 0x500000 \<noteq> kmem ?k 0x500000"
    by (simp add: example_kernel_def write_bytes_def)
  moreover have "0x500000 \<in> user_space"
    using syscall_memory_confined [OF d x] by (simp add: example_args_def)
  ultimately show ?thesis by (auto simp: example_kernel_def)
qed

text \<open>
  A null receive buffer is not checked. If a message waits for the caller on a channel, then
  \<^verbatim>\<open>receive_message\<close> with a null buffer and a size succeeds and stores the message at
  address 0.
\<close>

theorem null_buffer_written:
  assumes "channel_between ch q p (chans k)" and "pending ch p (chans k) = m # ms" and "Message_wf m"
    and "ch \<noteq> 0" and "unat ch \<le> 1000" and "unat sz \<le> 256" and "arg1 a = ch" and "arg2 a = 0" and "arg3 a = sz"
  shows "fst (sys_receive_message a p k) = of_nat (min (data_len m) (unat sz))
    \<and> read_bytes 0 (min (data_len m) (unat sz)) (kmem (snd (sys_receive_message a p k)))
      = take (min (data_len m) (unat sz)) (msg_data m)"
proof -
  obtain c where "get_channel ch (chans k) = Some c" "fst (Channel_receive p c) = Some m"
    using assms(1,2) by (auto simp: channel_between_def pending_def Channel_inv_def Channel_receive_def)
  then have "fst (ipc_receive_message p ch (chans k)) = Inr (Some m)" by (simp add: ipc_receive_message_def)
  then obtain r where r: "ipc_receive_message p ch (chans k) = (Inr (Some m), r)"
    by (cases "ipc_receive_message p ch (chans k)") simp
  let ?n = "min (data_len m) (unat sz)"
  have "sys_receive_message a p k
      = (of_nat ?n, k\<lparr>chans := r, kmem := write_bytes 0 (take ?n (msg_data m)) (kmem k)\<rparr>)"
    using sys_receive_message_ok [of p a k m r] r assms(4-9) by simp
  moreover have "length (take ?n (msg_data m)) = ?n"
    using assms(3) unfolding Message_wf_def length_take by linarith
  moreover have "?n \<le> 2 ^ 64" using assms(6) by simp
  ultimately show ?thesis
    using read_write_bytes [of "take ?n (msg_data m)" 0 "kmem k"] by simp
qed

theorem null_buffer_written_witness:
  "read_bytes 0 2 (kmem (snd (sys_receive_message (example_args 4 1 0 16 0) 9
     (example_kernel SCHEDULER_init example_channels)))) = [1, 2]"
proof -
  let ?k = "example_kernel SCHEDULER_init example_channels" and ?m = "Message_new 7 4 [1, 2]"
  have "get_channel 1 example_channels = Some (snd (Channel_send 7 ?m (Channel_new 1 7 9)))"
    by (simp add: example_channels_def ipc_send_message_def ipc_create_channel_def Let_def
        ChannelRegistry_create_channel_def ChannelRegistry_new_def get_channel_def Channel_new_def
        get_channel_mut_def Channel_send_def MAX_QUEUE_SIZE_def)
  then have "channel_between 1 7 9 (chans ?k)" and "pending 1 9 (chans ?k) = ?m # []"
    by (simp_all add: channel_between_def pending_def example_kernel_def Channel_send_def Channel_new_def
        Channel_inv_def MAX_QUEUE_SIZE_def)
  note c = this
  have a: "(1 :: u64) \<noteq> 0" "unat (1 :: u64) \<le> 1000" "unat (16 :: u64) \<le> 256"
    "arg1 (example_args 4 1 0 16 0) = 1" "arg2 (example_args 4 1 0 16 0) = 0"
    "arg3 (example_args 4 1 0 16 0) = 16"
    by (simp_all add: example_args_def)
  have n: "min (data_len ?m) (unat (16 :: u64)) = 2" and t: "take 2 (msg_data ?m) = [1, 2]"
    by (simp_all add: Message_new_def)
  show ?thesis using null_buffer_written [OF c Message_new_wf a, unfolded n t] by simp
qed

text \<open>
  C20 (messages through system calls). Between two endpoints of a channel with nothing waiting, a
  send from a checked user buffer returns 0 and the receive of the other endpoint returns the
  length and leaves the same bytes in its checked buffer.
\<close>

theorem syscall_message_round_trip:
  assumes "channel_between (arg1 a) p q (chans k)" and "pending (arg1 a) q (chans k) = []"
    and "arg1 a \<noteq> 0" and "unat (arg1 a) \<le> 1000" and "unat (arg4 a) \<le> 256"
    and "validate_user_pointer (arg3 a) (arg4 a) = Inr ()"
    and "arg1 b = arg1 a" and "unat (arg4 a) \<le> unat (arg3 b)" and "unat (arg3 b) \<le> 256"
    and "validate_user_pointer (arg2 b) (arg3 b) = Inr ()"
  defines "k1 \<equiv> snd (sys_send_message a p k)"
  shows "fst (sys_send_message a p k) = 0
    \<and> fst (sys_receive_message b q k1) = arg4 a
    \<and> read_bytes (arg2 b) (unat (arg4 a)) (kmem (snd (sys_receive_message b q k1)))
      = read_bytes (arg3 a) (unat (arg4 a)) (kmem k)"
proof -
  let ?d = "read_bytes (arg3 a) (unat (arg4 a)) (kmem k)" and ?n = "unat (arg4 a)"
  let ?send = "ipc_send_message p (arg1 a) (ucast (arg2 a)) ?d (chans k)"
  obtain c where c: "get_channel (arg1 a) (chans k) = Some c" "Channel_inv p q c \<or> Channel_inv q p c"
    using assms(1) by (auto simp: channel_between_def)
  let ?m = "Message_new p (ucast (arg2 a)) ?d"
  have sent: "fst ?send = Inr ()" "fst (ipc_receive_message q (arg1 a) (snd ?send)) = Inr (Some ?m)"
    using c assms(2)
    by (auto simp: ipc_send_message_def ipc_receive_message_def Let_def get_channel_mut_lookup
        Channel_inv_def Channel_send_def Channel_receive_def pending_def MAX_QUEUE_SIZE_def)
  then have k1: "sys_send_message a p k = (0, k\<lparr>chans := snd ?send\<rparr>)"
    using assms by (intro sys_send_message_ok) (simp_all add: prod_eq_iff)
  obtain r where r: "ipc_receive_message q (arg1 b) (chans k1) = (Inr (Some ?m), r)"
    using sent(2) k1 assms(7) by (cases "ipc_receive_message q (arg1 a) (snd ?send)") (simp add: k1_def)
  have m: "data_len ?m = ?n" "take ?n (msg_data ?m) = ?d" using assms(5) by (simp_all add: Message_new_def Let_def)
  have "sys_receive_message b q k1 = (of_nat ?n, k1\<lparr>chans := r, kmem := write_bytes (arg2 b) ?d (kmem k1)\<rparr>)"
    using sys_receive_message_ok [OF r] assms(3,4,7-10) m by (simp add: min_absorb1)
  moreover have "read_bytes (arg2 b) (length ?d) (write_bytes (arg2 b) ?d (kmem k1)) = ?d"
    by (rule read_write_bytes) (use assms(5) in simp)
  ultimately show ?thesis using k1 by simp
qed

theorem syscall_message_round_trip_witness:
  "let k = (example_kernel SCHEDULER_init (snd (ipc_create_channel 7 9 ChannelRegistry_new)))
         \<lparr>kmem := write_bytes 0x400000 [5, 6] (\<lambda>_. 0)\<rparr>
   in read_bytes 0x500000 2 (kmem (snd (sys_receive_message (example_args 4 1 0x500000 16 0) 9
        (snd (sys_send_message (example_args 3 1 0 0x400000 2) 7 k))))) = read_bytes 0x400000 2 (kmem k)"
proof -
  define k where "k = (example_kernel SCHEDULER_init (snd (ipc_create_channel 7 9 ChannelRegistry_new)))
      \<lparr>kmem := write_bytes 0x400000 [5, 6] (\<lambda>_. 0)\<rparr>"
  have "channel_between 1 7 9 (chans k)" "pending 1 9 (chans k) = []"
    using channel_between_created [of 7 9 ChannelRegistry_new]
    by (simp_all add: ChannelRegistry_new_def get_channel_def k_def example_kernel_def)
  then have "read_bytes 0x500000 2 (kmem (snd (sys_receive_message (example_args 4 1 0x500000 16 0) 9
        (snd (sys_send_message (example_args 3 1 0 0x400000 2) 7 k))))) = read_bytes 0x400000 2 (kmem k)"
    using syscall_message_round_trip [of "example_args 3 1 0 0x400000 2" 7 9 k "example_args 4 1 0x500000 16 0"]
    by (simp add: example_args_def validate_user_pointer_iff)
  then show ?thesis by (simp add: k_def Let_def)
qed

text \<open>
  C32 (no system call gets through). The stack pointer must lie in the upper half of the address space,
  but a register is only read from an address that is not negative as a signed number: for every
  stack pointer and every state the handler returns the error value and changes nothing.
\<close>

theorem every_syscall_rejected:
  "rust_syscall_handler X sp k = Some (ERR, k)"
proof (cases "validate_stack_pointer sp")
  case True
  then show ?thesis
    by (simp add: rust_syscall_handler_def safe_parse_def safe_read_negative bind_result_def Let_def)
next
  case False
  then show ?thesis by (simp add: rust_syscall_handler_def safe_parse_def Let_def)
qed

text \<open>
  C34 (pointer validation). The check accepts a pointer and a size exactly when the buffer starts at
  or above 4 MiB, has at most 4096 bytes and ends at or below \<^verbatim>\<open>0x7FFF_FFFF\<close>; its
  addition can then not overflow, and all bytes of the buffer lie in the user range.
\<close>

theorem validate_user_pointer_exact:
  "(validate_user_pointer ptr sz = Inr () \<longleftrightarrow>
      0x400000 \<le> unat ptr \<and> unat sz \<le> 0x1000 \<and> unat ptr + unat sz \<le> 0x7FFFFFFF)
   \<and> (validate_user_pointer ptr sz = Inr () \<longrightarrow> region ptr (unat sz) \<subseteq> user_space)"
  using validate_user_pointer_iff validated_region [of ptr sz "unat sz"] by blast

theorem validate_user_pointer_exact_witness:
  "region 0x400000 4096 \<subseteq> user_space"
  using validate_user_pointer_exact [of "0x400000" 4096] by simp

text \<open>
  Fork only reserves an identifier. When the front process is the caller and is within its
  limits, \<^verbatim>\<open>fork\<close> returns the next process identifier, records it as a child in the
  parent and in the process tree, and increments the counter; but no process with that identifier is
  created: the queue has the same processes as before.
\<close>

theorem fork_syscall_effects:
  assumes "processes (sched k) = p # ps" and "check_resource_limits p"
    and "children_count (stats p) < max_processes (resource_limits p)"
  defines "k' \<equiv> snd (sys_fork (proc_id p) k)"
  shows "fst (sys_fork (proc_id p) k) = kpid k \<and> kpid k' = kpid k + 1
    \<and> processes (sched k') = p\<lparr>children := children p @ [kpid k],
          stats := (stats p)\<lparr>children_count := children_count (stats p) + 1\<rparr>\<rparr> # ps
    \<and> map_of (process_tree (sched k')) (kpid k) = Some (proc_id p)"
proof -
  let ?s = "(sched k)\<lparr>process_tree := btree_insert (kpid k) (proc_id p) (process_tree (sched k))\<rparr>"
  have l: "lookup_process (proc_id p) ?s = Some p"
    using assms(1) by (simp add: lookup_process_def keyed_lookup_def)
  have "fst (add_child (kpid k) p) = Inr ()" using assms(3) by (simp add: add_child_def not_le [symmetric])
  then have r: "register_child (proc_id p) (kpid k) (sched k)
      = (Inr (), remove_orphan (kpid k) (update_process (proc_id p) (\<lambda>p. snd (add_child (kpid k) p)) ?s))"
    using l by (cases "add_child (kpid k) p") (simp add: register_child_def Let_def)
  have "sys_fork (proc_id p) k = (kpid k, k\<lparr>kpid := kpid k + 1,
      sched := snd (register_child (proc_id p) (kpid k) (sched k))\<rparr>)"
    using assms(1-3) r by (simp add: sys_fork_def Let_def not_le [symmetric])
  then show ?thesis
    using r assms(1,3)
    by (simp add: not_le [symmetric] k'_def update_process_def keyed_modify_def add_child_def btree_get_insert)
qed

theorem fork_syscall_effects_witness:
  "fst (sys_fork 1 (example_kernel (example_scheduler Running Ready) ChannelRegistry_new)) = 3"
  using fork_syscall_effects [of "example_kernel (example_scheduler Running Ready) ChannelRegistry_new"
      "example_process 1 0 Running" "[example_process 2 1 Ready]"]
  by (simp add: example_kernel_def example_scheduler_eq check_resource_limits_def example_process_def
      example_parent_def ProcessStats_default_def ResourceLimits_default_def)

lemma zombie_children_iff:
  assumes "Scheduler_inv s"
  shows "i \<in> set (find_zombie_children par s) \<longleftrightarrow>
    (\<exists>z. lookup_process i s = Some z \<and> parent_id z = par \<and> state z = Zombie)"
  using assms by (auto simp: find_zombie_children_def sched_reg.lookup_iff Scheduler_inv_def)

lemma distinct_singleton:
  assumes "set xs = {a}" and "distinct xs"
  shows "xs = [a]"
proof (cases xs)
  case Nil
  with assms show ?thesis by simp
next
  case (Cons y ys)
  with assms have "y = a" "a \<notin> set ys" "set ys \<subseteq> {a}" by auto
  then have "ys = []" by (cases ys) auto
  with Cons \<open>y = a\<close> show ?thesis by simp
qed

lemma zombie_children_after_exit:
  assumes "Scheduler_inv s" and "lookup_process pid s = Some p"
    and "- 255 \<le> sint code" and "sint code \<le> 255" and "map_of (process_tree s) pid \<noteq> Some pid"
    and "parent_id p \<noteq> 0" and "find_zombie_children (parent_id p) s = []"
  shows "find_zombie_children (parent_id p) (snd (handle_process_exit pid code s)) = [pid]"
proof -
  let ?s = "snd (handle_process_exit pid code s)"
  have i: "Scheduler_inv ?s" using assms(1) by (rule handle_process_exit_inv)
  have "set (find_zombie_children (parent_id p) ?s) = {pid}"
  proof (rule set_eqI)
    fix j
    have zs: "state (exit_effect pid par b j q) = Zombie \<Longrightarrow> state q = Zombie" for par b q
      by (auto simp: exit_effect_def Let_def wake_waiting_parent_def
          split: if_splits ProcessState.splits WaitReason.splits)
    have none: "\<not> (\<exists>q. lookup_process j s = Some q \<and> parent_id q = parent_id p \<and> state q = Zombie)"
      using zombie_children_iff [OF assms(1), of j "parent_id p"] assms(7) by simp
    show "j \<in> set (find_zombie_children (parent_id p) ?s) \<longleftrightarrow> j \<in> {pid}"
    proof (cases "j = pid")
      case True
      with assms(2,5) show ?thesis
        unfolding zombie_children_iff [OF i] exited_lookup [OF assms(1-4)]
        by (simp add: exit_effect_zombie)
    next
      case False
      with assms(6) none zs show ?thesis
        unfolding zombie_children_iff [OF i] exited_lookup [OF assms(1-4)]
        by (cases "lookup_process j s") (auto simp: exit_effect_zombie(4) split: if_splits)
    qed
  qed
  moreover have "distinct (find_zombie_children (parent_id p) ?s)"
    using i by (simp add: find_zombie_children_def Scheduler_inv_def distinct_map_filter)
  ultimately show ?thesis by (rule distinct_singleton)
qed

text \<open>
  C8 (exit status through system calls). A process with a parent that has no other zombie child calls
  \<^verbatim>\<open>exit\<close>; the parent then calls \<^verbatim>\<open>wait4\<close> for any child with a checked status
  pointer. The first call returns 0; the second returns the child's identifier and stores the exit
  code at the pointer, and the child is gone from the scheduler.
\<close>

theorem exit_wait4_round_trip:
  assumes "kernel_inv k" and "lookup_process pid (sched k) = Some p" and "pid \<noteq> 0"
    and "- 255 \<le> sint (ucast (arg1 a) :: i32)" and "sint (ucast (arg1 a) :: i32) \<le> 255"
    and "map_of (process_tree (sched k)) pid \<noteq> Some pid" and "parent_id p \<noteq> 0"
    and "find_zombie_children (parent_id p) (sched k) = []"
    and "arg1 b = - 1" and "arg3 b = 0" and "arg2 b \<noteq> 0" and "validate_user_pointer (arg2 b) 4 = Inr ()"
  defines "k1 \<equiv> snd (sys_exit a pid k)"
  shows "fst (sys_exit a pid k) = 0 \<and> fst (sys_wait4 b (parent_id p) k1) = pid
    \<and> read_bytes (arg2 b) 4 (kmem (snd (sys_wait4 b (parent_id p) k1)))
      = le_bytes 4 (ucast (ucast (arg1 a) :: i32))
    \<and> lookup_process pid (sched (snd (sys_wait4 b (parent_id p) k1))) = None"
proof -
  let ?code = "ucast (arg1 a) :: i32" and ?par = "parent_id p"
  let ?s1 = "snd (handle_process_exit pid ?code (sched k))"
  have inv: "Scheduler_inv (sched k)" using assms(1) by (rule kernel_invD)
  have x: "sys_exit a pid k = (0, k\<lparr>sched := ?s1, cpu_data := (cpu_data k)\<lparr>current_process_id := 0\<rparr>\<rparr>)"
    using assms(2,4,5) handle_process_exit_eq [of pid "sched k" p ?code] by (simp add: sys_exit_def Let_def)
  then have s1: "sched k1 = ?s1" by (simp add: k1_def)
  have z: "find_zombie_children ?par ?s1 = [pid]"
    using inv assms(2,4-8) by (intro zombie_children_after_exit)
  obtain q where q: "lookup_process pid ?s1 = Some q" "state q = Zombie" "exit_code q = ?code" "parent_id q = ?par"
    using exited_lookup [OF inv assms(2,4,5), of pid] assms(2,6) by (auto simp: exit_effect_zombie)
  obtain s2 where r: "reap_zombie_child ?par pid ?s1 = (Inr ?code, s2)" "lookup_process pid s2 = None"
    using reap_succeeds [OF handle_process_exit_inv [OF inv] q(1,2)] q(3,4)
    by (cases "reap_zombie_child ?par pid ?s1") simp
  have "sys_wait4 b ?par k1 = (pid, k1\<lparr>sched := s2, kmem := write_i32 (arg2 b) ?code (kmem k1)\<rparr>)"
    using z r(1) s1 assms(3,9-12) by (simp add: sys_wait4_def wait4_target_def Let_def)
  moreover have "read_bytes (arg2 b) 4 (write_i32 (arg2 b) ?code (kmem k1)) = le_bytes 4 (ucast ?code)"
    using read_write_bytes [of "le_bytes 4 (ucast ?code)" "arg2 b" "kmem k1"] by (simp add: write_i32_def)
  ultimately show ?thesis using x r(2) by simp
qed

theorem exit_wait4_round_trip_witness:
  "fst (sys_wait4 (example_args 61 (- 1) 0x500000 0 0) 1 (snd (sys_exit (example_args 0 7 0 0 0) 2
     (example_kernel (example_scheduler Running Ready) ChannelRegistry_new)))) = 2"
proof -
  let ?k = "example_kernel (example_scheduler Running Ready) ChannelRegistry_new"
  have "kernel_inv ?k"
    by (simp add: kernel_inv_def example_kernel_def example_scheduler_inv ChannelRegistry_new_inv
        HandleRegistry_new_inv)
  moreover have "lookup_process 2 (sched ?k) = Some (example_process 2 1 Ready)"
    by (simp add: example_kernel_def example_lookup)
  moreover have "find_zombie_children 1 (sched ?k) = []"
    by (simp add: find_zombie_children_def example_kernel_def example_scheduler_eq example_process_def)
  ultimately show ?thesis
    using exit_wait4_round_trip [of ?k 2 "example_process 2 1 Ready" "example_args 0 7 0 0 0"
        "example_args 61 (- 1) 0x500000 0 0"]
    by (simp add: example_args_def validate_user_pointer_iff example_kernel_def example_scheduler_eq
        example_process_def)
qed

text \<open>
  Waiting for a particular child. A request to wait for one particular process is refused
  whenever its identifier is below 1000, although identifiers are handed out from 1: the error value
  is returned and nothing changes, even if that child is a zombie.
\<close>

theorem wait4_refuses_small_pids:
  assumes "unat (arg1 a) < 1000"
  shows "sys_wait4 a p k = (ERR, k)"
proof -
  have "arg1 a < 1000" using assms by (simp add: word_less_nat_alt)
  moreover have "arg1 a \<noteq> - 1" using assms by (auto simp: unsigned_minus_1_eq_mask mask_eq_exp_minus_1)
  ultimately show ?thesis by (simp add: sys_wait4_def)
qed

theorem wait4_refuses_small_pids_witness:
  "fst (sys_wait4 (example_args 61 2 0 0 0) 1
     (example_kernel (example_scheduler Running Zombie) ChannelRegistry_new)) = ERR"
  using wait4_refuses_small_pids [of "example_args 61 2 0 0 0" 1
      "example_kernel (example_scheduler Running Zombie) ChannelRegistry_new"]
  by (simp add: example_args_def)

end
