(* ===== verification/Ruix_Kernel.thy ===== *)
theory Ruix_Kernel
  imports Ruix_Syscall
begin

text \<open>
  The kernel as a whole: the events that change its state, in any order. System calls come from
  the process that is current on the processor; the timer interrupt switches processes and then
  advances the tick; new processes are added, zombies and the remains of finished processes are
  removed, timeouts are managed, and user programs store into memory.
\<close>

definition kernel_start :: "cpu \<Rightarrow> mem \<Rightarrow> ('fut, 'w) kernel \<times> TimeoutManager" where
  "kernel_start c m =
     (\<lparr>sched = SCHEDULER_init, chans = ChannelRegistry_new, hands = HandleRegistry_new, cpu_data = c,
       kmem = m, kpid = 1, stdout = []\<rparr>, TimeoutManager_new)"

text \<open>The two calls of the timer interrupt, in their order.\<close>

definition timer_interrupt :: "u64 \<Rightarrow> ('fut, 'w) kernel \<times> TimeoutManager \<Rightarrow> ('fut, 'w) kernel \<times> TimeoutManager" where
  "timer_interrupt ctx = (\<lambda>(k, m).
     case handle_switch ctx (sched k) (cpu_data k) of
       (_, _, s, c) \<Rightarrow>
         (case increment_tick (m, s) of
            (_, m, s) \<Rightarrow> (k\<lparr>sched := s, cpu_data := c\<rparr>, m)))"

text \<open>The functions of the timer module that the rest of the kernel calls.\<close>

datatype timeout_op = Register u64 "u64 option" | Unregister u64 | StartUser u64 | EndUser | SetLimit u64 u64

fun run_timeout_op :: "timeout_op \<Rightarrow> TimeoutManager \<Rightarrow> TimeoutManager" where
  "run_timeout_op (Register pid lim) m = register_process pid lim m"
| "run_timeout_op (Unregister pid) m = unregister_process pid m"
| "run_timeout_op (StartUser pid) m = start_user_mode pid m"
| "run_timeout_op EndUser m = end_user_mode m"
| "run_timeout_op (SetLimit pid lim) m = set_timeout_limit pid lim m"

text \<open>
  One event. A system call may panic; then the kernel stops. The counters of identifiers are not
  exhausted, and processes are added under identifiers that are not in use.
\<close>

inductive kernel_step :: "x86_crate \<Rightarrow> ('fut, 'w) kernel \<times> TimeoutManager \<Rightarrow> ('fut, 'w) kernel \<times> TimeoutManager \<Rightarrow> bool"
  for X :: x86_crate where
  syscall: "syscall_dispatch X args (current_process_id (cpu_data k)) k = Some (v, k') \<Longrightarrow> ids_left k
    \<Longrightarrow> kernel_step X (k, m) (k', m)"
| timer: "kernel_step X (k, m) (timer_interrupt ctx (k, m))"
| spawn: "lookup_process (proc_id p) (sched k) = None \<Longrightarrow> Process_wf p \<Longrightarrow> state p = Ready
    \<Longrightarrow> kernel_step X (k, m) (k\<lparr>sched := add_process p (sched k)\<rparr>, m)"
| reap: "kernel_step X (k, m) (k\<lparr>sched := snd (cleanup_all_zombies (sched k))\<rparr>, m)"
| drop_channels: "kernel_step X (k, m) (k\<lparr>chans := cleanup_process_channels pid (chans k)\<rparr>, m)"
| drop_handles: "kernel_step X (k, m) (k\<lparr>hands := cleanup_process_handles pid (hands k)\<rparr>, m)"
| timeouts: "kernel_step X (k, m) (k, run_timeout_op t m)"
| user_store: "kernel_step X (k, m) (k\<lparr>kmem := mem'\<rparr>, m)"

inductive reachable :: "x86_crate \<Rightarrow> ('fut, 'w) kernel \<times> TimeoutManager \<Rightarrow> bool" for X :: x86_crate where
  start: "reachable X (kernel_start c m)"
| step: "reachable X s \<Longrightarrow> kernel_step X s s' \<Longrightarrow> reachable X s'"

inductive_cases kernel_stepE: "kernel_step X s s'"

section \<open>Every event keeps the invariant\<close>

lemma kernel_start_inv: "kernel_inv (fst (kernel_start c m))"
  by (simp add: kernel_start_def kernel_inv_def SCHEDULER_init_inv ChannelRegistry_new_inv HandleRegistry_new_inv)

lemma cleanup_all_zombies_inv [ruix_inv]:
  assumes "Scheduler_inv s"
  shows "Scheduler_inv (snd (cleanup_all_zombies s))"
proof -
  have "Scheduler_inv (snd (fold cleanup_step ids (n, t)))" if "Scheduler_inv t" for ids n and t :: "('a, 'b) Scheduler"
    using that
  proof (induction ids arbitrary: n t)
    case (Cons i ids)
    have "Scheduler_inv (snd (cleanup_step i (n, t)))"
      using cleanup_terminated_process_inv [OF Cons.prems, of i] Cons.prems
      by (auto simp: cleanup_step.simps split: prod.splits sum.splits)
    then show ?case using Cons.IH [of "snd (cleanup_step i (n, t))" "fst (cleanup_step i (n, t))"] by simp
  qed simp
  then show ?thesis using assms by (simp add: cleanup_all_zombies_def Let_def split_beta)
qed

lemma check_timeouts_inv: "Scheduler_inv s \<Longrightarrow> Scheduler_inv (snd (check_timeouts (m, s)))"
  by (auto simp: check_timeouts_def handle_timeout_def Let_def kill_process_inv split: option.split TimeoutState.split)

lemma increment_tick_inv [ruix_inv]: "Scheduler_inv s \<Longrightarrow> Scheduler_inv (snd (snd (increment_tick (m, s))))"
  by (simp add: increment_tick_def TimeoutManager_increment_tick_def Let_def split_beta check_timeouts_inv)

lemma timer_interrupt_inv [ruix_inv]:
  assumes "kernel_inv k"
  shows "kernel_inv (fst (timer_interrupt ctx (k, m)))"
proof -
  have "Scheduler_inv (fst (snd (schedule ctx (sched k) (cpu_data k))))"
    using assms by (intro schedule_inv kernel_invD)
  from increment_tick_inv [OF this, of m] assms show ?thesis
    by (simp add: timer_interrupt_def handle_switch_def split_beta kernel_inv_update)
qed

lemma kernel_step_inv:
  assumes "kernel_step X s s'" and "kernel_inv (fst s)"
  shows "kernel_inv (fst s')"
  using assms
proof (cases rule: kernel_step.cases)
  case (syscall args k v k' m)
  with assms(2) show ?thesis using syscall_dispatch_inv by fastforce
next
  case (spawn p k m)
  with assms(2) have "Scheduler_inv (add_process p (sched k))"
    by (intro add_process_inv) (simp_all add: kernel_invD)
  with spawn assms(2) show ?thesis by (simp add: kernel_inv_update)
qed (simp_all add: timer_interrupt_inv kernel_inv_update kernel_invD cleanup_all_zombies_inv
    cleanup_process_channels_inv cleanup_process_handles_inv)

lemma reachable_kernel_inv: "reachable X s \<Longrightarrow> kernel_inv (fst s)"
  by (induction rule: reachable.induct) (auto simp: kernel_start_inv intro: kernel_step_inv)

end
