(* ===== verification/Ruix_Task.thy ===== *)
theory Ruix_Task
  imports Ruix_Process "HOL-Library.Sublist"
begin

text \<open>
  Asynchronous tasks: the executor (\<^verbatim>\<open>src/task/executor.rs\<close>, \<^verbatim>\<open>src/task/mod.rs\<close>),
  the wakers, and the keyboard stream that interrupts feed (\<^verbatim>\<open>src/process/mod.rs\<close>, second
  half, and its earlier copy \<^verbatim>\<open>src/task/keyboard.rs\<close>). The bounded queue of
  \<^verbatim>\<open>crossbeam_queue\<close>, the futures and the decoder of \<^verbatim>\<open>pc_keyboard\<close> are
  parameters; a \<^verbatim>\<open>OnceCell\<close> and an \<^verbatim>\<open>AtomicWaker\<close> are cells that hold a value
  or nothing. Interrupts that arrive while the stream is polled are explicit.
\<close>

section \<open>Bounded queues\<close>

record ('q, 'a) queue_crate =
  q_new :: "nat \<Rightarrow> 'q"
  q_push :: "'a \<Rightarrow> 'q \<Rightarrow> bool \<times> 'q"
  q_pop :: "'q \<Rightarrow> 'a option \<times> 'q"
  q_is_empty :: "'q \<Rightarrow> bool"

text \<open>
  \<^verbatim>\<open>ArrayQueue\<close> is a bounded FIFO queue: \<open>content\<close> are its elements, \<open>cap\<close> its
  capacity. A push fails exactly when the queue is full, a pop exactly when it is empty.
\<close>

definition queue_spec :: "('q, 'a) queue_crate \<Rightarrow> ('q \<Rightarrow> 'a list) \<Rightarrow> ('q \<Rightarrow> nat) \<Rightarrow> bool" where
  "queue_spec Q content cap \<longleftrightarrow>
     (\<forall>n. content (q_new Q n) = [] \<and> cap (q_new Q n) = n)
   \<and> (\<forall>x q. cap (snd (q_push Q x q)) = cap q
        \<and> fst (q_push Q x q) = (length (content q) < cap q)
        \<and> content (snd (q_push Q x q)) = (if length (content q) < cap q then content q @ [x] else content q))
   \<and> (\<forall>q. cap (snd (q_pop Q q)) = cap q
        \<and> fst (q_pop Q q) = (case content q of [] \<Rightarrow> None | x # _ \<Rightarrow> Some x)
        \<and> content (snd (q_pop Q q)) = tl (content q))
   \<and> (\<forall>q. q_is_empty Q q = (content q = []))"

definition list_queue :: "(nat \<times> 'a list, 'a) queue_crate" where
  "list_queue = \<lparr>q_new = (\<lambda>n. (n, [])),
     q_push = (\<lambda>x (n, xs). if length xs < n then (True, n, xs @ [x]) else (False, n, xs)),
     q_pop = (\<lambda>(n, xs). case xs of [] \<Rightarrow> (None, n, []) | x # r \<Rightarrow> (Some x, n, r)),
     q_is_empty = (\<lambda>(n, xs). xs = [])\<rparr>"

lemma list_queue_spec: "queue_spec list_queue snd fst"
  by (auto simp: queue_spec_def list_queue_def split: list.split)

section \<open>Wakers and tasks\<close>

definition as_u64 :: "u64 \<Rightarrow> u64" where
  "as_u64 task_id = task_id"

text \<open>The waker of \<^verbatim>\<open>process/mod.rs\<close> drops the wake-up when the queue is full.\<close>

definition TaskWaker_wake_task :: "('q, u64) queue_crate \<Rightarrow> u64 \<Rightarrow> 'q \<Rightarrow> 'q" where
  "TaskWaker_wake_task Q task queue = snd (q_push Q task queue)"

text \<open>The waker of the executor panics instead.\<close>

definition executor_wake_task :: "('q, u64) queue_crate \<Rightarrow> u64 \<Rightarrow> 'q \<Rightarrow> 'q option" where
  "executor_wake_task Q task queue =
     (case q_push Q task queue of
        (True, q) \<Rightarrow> Some q
      | (False, _) \<Rightarrow> None)"

record 'fut Task =
  task_id :: u64
  task_future :: 'fut

definition Task_new :: "'fut \<Rightarrow> u64 \<Rightarrow> 'fut Task \<times> u64" where
  "Task_new fut NEXT_ID = (let (new_id, NEXT_ID) = TaskId_new NEXT_ID in (\<lparr>task_id = new_id, task_future = fut\<rparr>, NEXT_ID))"

text \<open>
  A waker of the executor is the identifier it pushes. Polling a future is given such a waker and
  may wake tasks: besides the result and the new future, \<open>poll\<close> yields the identifiers whose
  wakers were called meanwhile, by the future or by interrupts, in order, and the new state of
  the world that the futures share.
\<close>

type_synonym ('fut, 'env) poll = "u64 \<Rightarrow> 'fut \<Rightarrow> 'env \<Rightarrow> unit Poll \<times> 'fut \<times> u64 list \<times> 'env"

definition Task_poll :: "('fut, 'env) poll \<Rightarrow> u64 \<Rightarrow> 'fut Task \<Rightarrow> 'env \<Rightarrow> unit Poll \<times> 'fut Task \<times> u64 list \<times> 'env" where
  "Task_poll poll waker t env =
     (case poll waker (task_future t) env of
        (r, fut, woken, env') \<Rightarrow> (r, t\<lparr>task_future := fut\<rparr>, woken, env'))"

section \<open>The executor\<close>

record ('fut, 'q) Executor =
  ex_tasks :: "(u64, 'fut Task) btree_map"
  ex_task_queue :: 'q
  ex_waker_cache :: "(u64, u64) btree_map"

definition Executor_new :: "('q, u64) queue_crate \<Rightarrow> ('fut, 'q) Executor" where
  "Executor_new Q = \<lparr>ex_tasks = [], ex_task_queue = q_new Q 100, ex_waker_cache = []\<rparr>"

definition spawn :: "('q, u64) queue_crate \<Rightarrow> 'fut Task \<Rightarrow> ('fut, 'q) Executor \<Rightarrow> ('fut, 'q) Executor option" where
  "spawn Q t E =
     (if map_of (ex_tasks E) (task_id t) \<noteq> None then None
      else case q_push Q (task_id t) (ex_task_queue E) of
             (True, q) \<Rightarrow> Some (E\<lparr>ex_tasks := btree_insert (task_id t) t (ex_tasks E), ex_task_queue := q\<rparr>)
           | (False, _) \<Rightarrow> None)"

text \<open>The wake-ups made during one poll, each a push that may panic.\<close>

fun wake_all :: "('q, u64) queue_crate \<Rightarrow> u64 list \<Rightarrow> 'q \<Rightarrow> 'q option" where
  "wake_all Q [] q = Some q"
| "wake_all Q (i # ids) q =
     (case executor_wake_task Q i q of
        None \<Rightarrow> None
      | Some q' \<Rightarrow> wake_all Q ids q')"

text \<open>One turn of the loop for a popped identifier; \<open>None\<close> is a panic.\<close>

definition run_task ::
    "('q, u64) queue_crate \<Rightarrow> ('fut, 'env) poll \<Rightarrow> u64 \<Rightarrow> ('fut, 'q) Executor \<times> 'env \<Rightarrow> (('fut, 'q) Executor \<times> 'env) option" where
  "run_task Q poll i =
     (\<lambda>(E, env). case map_of (ex_tasks E) i of
        None \<Rightarrow> Some (E, env)
      | Some t \<Rightarrow>
          (let (waker, cache) =
             (case map_of (ex_waker_cache E) i of
                Some w \<Rightarrow> (w, ex_waker_cache E)
              | None \<Rightarrow> (i, btree_insert i i (ex_waker_cache E)))
           in case Task_poll poll waker t env of
                (r, t', woken, env') \<Rightarrow>
                  (case wake_all Q woken (ex_task_queue E) of
                     None \<Rightarrow> None
                   | Some q \<Rightarrow>
                       (case r of
                          PollReady _ \<Rightarrow>
                            Some (E\<lparr>ex_tasks := btree_remove i (ex_tasks E), ex_task_queue := q,
                              ex_waker_cache := btree_remove i cache\<rparr>, env')
                        | Pending \<Rightarrow>
                            Some (E\<lparr>ex_tasks := btree_insert i t' (ex_tasks E), ex_task_queue := q,
                              ex_waker_cache := cache\<rparr>, env')))))"

text \<open>
  The loop may run for ever: \<open>None\<close> is a run that does not return, \<open>Some None\<close> a panic.
\<close>

partial_function (option) run_ready_tasks ::
    "('q, u64) queue_crate \<Rightarrow> ('fut, 'env) poll \<Rightarrow> ('fut, 'q) Executor \<times> 'env \<Rightarrow> (('fut, 'q) Executor \<times> 'env) option option" where
  "run_ready_tasks Q poll s =
     (case q_pop Q (ex_task_queue (fst s)) of
        (None, q) \<Rightarrow> Some (Some ((fst s)\<lparr>ex_task_queue := q\<rparr>, snd s))
      | (Some i, q) \<Rightarrow>
          (case run_task Q poll i ((fst s)\<lparr>ex_task_queue := q\<rparr>, snd s) of
             None \<Rightarrow> Some None
           | Some s' \<Rightarrow> run_ready_tasks Q poll s'))"

datatype idle = Halted | Resumed

definition sleep_if_idle :: "('q, u64) queue_crate \<Rightarrow> ('fut, 'q) Executor \<Rightarrow> idle" where
  "sleep_if_idle Q E = (if q_is_empty Q (ex_task_queue E) then Halted else Resumed)"

section \<open>The keyboard stream\<close>

record ('q, 'w) keyboard =
  SCANCODE_QUEUE :: "'q option"
  KEYBOARD_WAKER :: "'w option"

text \<open>The waker that an interrupt wakes, if any, is part of the result.\<close>

definition add_keyboard_scancode :: "('q, u8) queue_crate \<Rightarrow> u8 \<Rightarrow> ('q, 'w) keyboard \<Rightarrow> 'w option \<times> ('q, 'w) keyboard" where
  "add_keyboard_scancode Q scancode K =
     (case SCANCODE_QUEUE K of
        None \<Rightarrow> (None, K)
      | Some queue \<Rightarrow>
          (case q_push Q scancode queue of
             (False, queue') \<Rightarrow> (None, K\<lparr>SCANCODE_QUEUE := Some queue'\<rparr>)
           | (True, queue') \<Rightarrow> (KEYBOARD_WAKER K, \<lparr>SCANCODE_QUEUE = Some queue', KEYBOARD_WAKER = None\<rparr>)))"

definition KeyboardScancodeStream_new :: "('q, u8) queue_crate \<Rightarrow> ('q, 'w) keyboard \<Rightarrow> ('q, 'w) keyboard option" where
  "KeyboardScancodeStream_new Q K =
     (case SCANCODE_QUEUE K of
        None \<Rightarrow> Some (K\<lparr>SCANCODE_QUEUE := Some (q_new Q 100)\<rparr>)
      | Some _ \<Rightarrow> None)"

abbreviation interrupts :: "('q, u8) queue_crate \<Rightarrow> u8 list \<Rightarrow> ('q, 'w) keyboard \<Rightarrow> ('q, 'w) keyboard" where
  "interrupts Q codes K \<equiv> fold (\<lambda>c K. snd (add_keyboard_scancode Q c K)) codes K"

text \<open>
  \<^verbatim>\<open>poll_next\<close> with the scancodes that arrive between the first pop and the registration of
  the waker, and between the registration and the second pop. On the short path they arrive
  after the only pop.
\<close>

definition poll_next ::
    "('q, u8) queue_crate \<Rightarrow> 'w \<Rightarrow> u8 list \<Rightarrow> u8 list \<Rightarrow> ('q, 'w) keyboard
      \<Rightarrow> (u8 option Poll \<times> ('q, 'w) keyboard) option" where
  "poll_next Q waker before after K =
     (case SCANCODE_QUEUE K of
        None \<Rightarrow> None
      | Some queue \<Rightarrow>
          (case q_pop Q queue of
             (Some scancode, queue') \<Rightarrow> Some (PollReady (Some scancode), interrupts Q (before @ after) (K\<lparr>SCANCODE_QUEUE := Some queue'\<rparr>))
           | (None, queue') \<Rightarrow>
               (let K1 = interrupts Q before (K\<lparr>SCANCODE_QUEUE := Some queue'\<rparr>);
                    K2 = interrupts Q after (K1\<lparr>KEYBOARD_WAKER := Some waker\<rparr>)
                in case SCANCODE_QUEUE K2 of
                     None \<Rightarrow> None
                   | Some queue2 \<Rightarrow>
                       (case q_pop Q queue2 of
                          (Some scancode, queue3) \<Rightarrow>
                            Some (PollReady (Some scancode), K2\<lparr>SCANCODE_QUEUE := Some queue3, KEYBOARD_WAKER := None\<rparr>)
                        | (None, queue3) \<Rightarrow> Some (Pending, K2\<lparr>SCANCODE_QUEUE := Some queue3\<rparr>)))))"

text \<open>
  The body of the loop of \<^verbatim>\<open>process_keyboard_input\<close>: the decoder of
  \<^verbatim>\<open>pc_keyboard\<close> with its state, and the keys printed.
\<close>

datatype 'k DecodedKey = Unicode u32 | RawKey 'k

record ('kb, 'ev, 'k) decoder =
  add_byte :: "u8 \<Rightarrow> 'kb \<Rightarrow> (unit + 'ev option) \<times> 'kb"
  process_keyevent :: "'ev \<Rightarrow> 'kb \<Rightarrow> 'k DecodedKey option \<times> 'kb"

text \<open>The keys are printed with \<^verbatim>\<open>print!\<close>, or on a line of their own with \<^verbatim>\<open>println!\<close>.\<close>

datatype 'k printed = Print "'k DecodedKey" | Println "'k DecodedKey"

definition print_key :: "'k DecodedKey \<Rightarrow> 'k printed" where
  "print_key key = (case key of Unicode _ \<Rightarrow> Print key | RawKey _ \<Rightarrow> Println key)"

definition process_scancode ::
    "('kb, 'ev, 'k) decoder \<Rightarrow> ('k DecodedKey \<Rightarrow> 'k printed) \<Rightarrow> u8 \<Rightarrow> 'kb \<times> 'k printed list \<Rightarrow> 'kb \<times> 'k printed list" where
  "process_scancode D show_key scancode =
     (\<lambda>(kb, out). case add_byte D scancode kb of
        (Inr (Some ev), kb') \<Rightarrow>
          (case process_keyevent D ev kb' of
             (Some key, kb'') \<Rightarrow> (kb'', out @ [show_key key])
           | (None, kb'') \<Rightarrow> (kb'', out))
      | (_, kb') \<Rightarrow> (kb', out))"

definition process_keyboard_input ::
    "('kb, 'ev, 'k) decoder \<Rightarrow> u8 list \<Rightarrow> 'kb \<Rightarrow> 'k printed list" where
  "process_keyboard_input D received kb = snd (fold (process_scancode D print_key) received (kb, []))"

text \<open>
  The module \<^verbatim>\<open>task::keyboard\<close> has the same code, line for line, under other names; it
  prints raw keys without a line break.
\<close>

definition add_scancode :: "('q, u8) queue_crate \<Rightarrow> u8 \<Rightarrow> ('q, 'w) keyboard \<Rightarrow> 'w option \<times> ('q, 'w) keyboard" where
  "add_scancode = add_keyboard_scancode"

definition ScancodeStream_new :: "('q, u8) queue_crate \<Rightarrow> ('q, 'w) keyboard \<Rightarrow> ('q, 'w) keyboard option" where
  "ScancodeStream_new = KeyboardScancodeStream_new"

definition ScancodeStream_poll_next ::
    "('q, u8) queue_crate \<Rightarrow> 'w \<Rightarrow> u8 list \<Rightarrow> u8 list \<Rightarrow> ('q, 'w) keyboard
      \<Rightarrow> (u8 option Poll \<times> ('q, 'w) keyboard) option" where
  "ScancodeStream_poll_next = poll_next"

definition print_keypresses :: "('kb, 'ev, 'k) decoder \<Rightarrow> u8 list \<Rightarrow> 'kb \<Rightarrow> 'k printed list" where
  "print_keypresses D received kb = snd (fold (process_scancode D Print) received (kb, []))"

section \<open>Laws of the queue\<close>

lemma queue_specD:
  assumes "queue_spec Q content cap"
  shows "content (q_new Q n) = []" and "cap (q_new Q n) = n"
    and "cap (snd (q_push Q x q)) = cap q" and "fst (q_push Q x q) = (length (content q) < cap q)"
    and "content (snd (q_push Q x q)) = (if length (content q) < cap q then content q @ [x] else content q)"
    and "cap (snd (q_pop Q q)) = cap q"
    and "fst (q_pop Q q) = (case content q of [] \<Rightarrow> None | x # _ \<Rightarrow> Some x)"
    and "content (snd (q_pop Q q)) = tl (content q)"
    and "q_is_empty Q q = (content q = [])"
  using assms unfolding queue_spec_def by blast+

lemma q_pop_cases:
  assumes "queue_spec Q content cap"
  obtains (Empty) q' where "q_pop Q q = (None, q')" "content q = []" "content q' = []" "cap q' = cap q"
    | (Full) x r q' where "q_pop Q q = (Some x, q')" "content q = x # r" "content q' = r" "cap q' = cap q"
proof (cases "content q")
  case Nil
  then show ?thesis
    using Empty [of "snd (q_pop Q q)"] queue_specD(6-8) [OF assms, of q] by (simp add: prod_eq_iff)
next
  case (Cons x r)
  then show ?thesis
    using Full [of x "snd (q_pop Q q)" r] queue_specD(6-8) [OF assms, of q] by (simp add: prod_eq_iff)
qed

lemma q_push_ok:
  assumes "queue_spec Q content cap" and "length (content q) < cap q"
  obtains q' where "q_push Q x q = (True, q')" "content q' = content q @ [x]" "cap q' = cap q"
  using queue_specD(3-5) [OF assms(1), of x q] assms(2) that [of "snd (q_push Q x q)"] by (simp add: prod_eq_iff)

lemma q_push_full:
  assumes "queue_spec Q content cap" and "\<not> length (content q) < cap q"
  obtains q' where "q_push Q x q = (False, q')" "content q' = content q" "cap q' = cap q"
  using queue_specD(3-5) [OF assms(1), of x q] assms(2) that [of "snd (q_push Q x q)"] by (simp add: prod_eq_iff)

lemma wake_all_ok:
  assumes "queue_spec Q content cap" and "length (content q) + length ids \<le> cap q"
  shows "\<exists>q'. wake_all Q ids q = Some q' \<and> content q' = content q @ ids \<and> cap q' = cap q"
  using assms(2)
proof (induction ids arbitrary: q)
  case (Cons i ids)
  then have "length (content q) < cap q" by simp
  then obtain q' where q: "q_push Q i q = (True, q')" "content q' = content q @ [i]" "cap q' = cap q"
    by (rule q_push_ok [OF assms(1)])
  with Cons.prems Cons.IH [of q'] show ?case by (simp add: executor_wake_task_def)
qed simp

section \<open>The executor serves every wake-up\<close>

text \<open>
  The tasks and the cache of wakers are ordered maps, and every cached waker is the one of a task
  that is still there.
\<close>

definition executor_inv :: "('fut, 'q) Executor \<Rightarrow> bool" where
  "executor_inv E \<longleftrightarrow> btree_wf (ex_tasks E) \<and> btree_wf (ex_waker_cache E)
     \<and> (\<forall>i w. map_of (ex_waker_cache E) i = Some w \<longrightarrow> w = i \<and> map_of (ex_tasks E) i \<noteq> None)"

text \<open>The wake-ups that polling causes are paid from a budget kept in the shared state.\<close>

definition wakes_paid :: "('fut, 'env) poll \<Rightarrow> ('env \<Rightarrow> nat) \<Rightarrow> bool" where
  "wakes_paid poll budget \<longleftrightarrow> (\<forall>w fut env. case poll w fut env of
     (r, fut', woken, env') \<Rightarrow> length woken + budget env' \<le> budget env)"

text \<open>The polls, recorded in the shared state by the waker they are given.\<close>

definition logged :: "('fut, 'env) poll \<Rightarrow> ('fut, 'env \<times> u64 list) poll" where
  "logged poll w fut = (\<lambda>(env, log). case poll w fut env of
     (r, fut', woken, env') \<Rightarrow> (r, fut', woken, env', log @ [w]))"

lemma executor_inv_new: "executor_inv (Executor_new Q)"
  by (simp add: executor_inv_def Executor_new_def)

lemma executor_inv_queue: "executor_inv (E\<lparr>ex_task_queue := q\<rparr>) = executor_inv E"
  by (simp add: executor_inv_def)

lemma spawn_ok:
  assumes "queue_spec Q content cap" and "executor_inv E" and "map_of (ex_tasks E) (task_id t) = None"
    and "length (content (ex_task_queue E)) < cap (ex_task_queue E)"
  shows "\<exists>E'. spawn Q t E = Some E' \<and> executor_inv E' \<and> map_of (ex_tasks E') = (map_of (ex_tasks E))(task_id t \<mapsto> t)
    \<and> content (ex_task_queue E') = content (ex_task_queue E) @ [task_id t] \<and> cap (ex_task_queue E') = cap (ex_task_queue E)"
proof -
  obtain q' where "q_push Q (task_id t) (ex_task_queue E) = (True, q')"
      "content q' = content (ex_task_queue E) @ [task_id t]" "cap q' = cap (ex_task_queue E)"
    by (rule q_push_ok [OF assms(1,4)])
  then show ?thesis
    using assms(2,3) by (auto simp: spawn_def executor_inv_def btree_get_insert btree_insert_wf)
qed

lemma executor_inv_remove:
  assumes "executor_inv E" and "map_of (ex_tasks E) i = Some t"
    and "cache = ex_waker_cache E \<or> cache = btree_insert i i (ex_waker_cache E)"
  shows "executor_inv (E\<lparr>ex_tasks := btree_remove i (ex_tasks E), ex_task_queue := q, ex_waker_cache := btree_remove i cache\<rparr>)"
  using assms by (auto simp: executor_inv_def btree_get_remove btree_get_insert btree_remove_wf btree_insert_wf)

lemma executor_inv_insert:
  assumes "executor_inv E" and "map_of (ex_tasks E) i = Some t"
    and "cache = ex_waker_cache E \<or> cache = btree_insert i i (ex_waker_cache E)"
  shows "executor_inv (E\<lparr>ex_tasks := btree_insert i t' (ex_tasks E), ex_task_queue := q, ex_waker_cache := cache\<rparr>)"
  using assms by (auto simp: executor_inv_def btree_get_insert btree_insert_wf)

text \<open>One turn of the loop.\<close>

lemma run_task_step:
  assumes "queue_spec Q content cap" and "wakes_paid poll budget" and "executor_inv E"
    and "length (content (ex_task_queue E)) + budget env \<le> cap (ex_task_queue E)"
  shows "\<exists>E' env' ext log'. run_task Q (logged poll) i (E, env, log) = Some (E', env', log @ log') \<and> executor_inv E'
    \<and> cap (ex_task_queue E') = cap (ex_task_queue E) \<and> content (ex_task_queue E') = content (ex_task_queue E) @ ext
    \<and> length ext + budget env' \<le> budget env \<and> log' = (if map_of (ex_tasks E) i = None then [] else [i])
    \<and> dom (map_of (ex_tasks E')) \<subseteq> dom (map_of (ex_tasks E))
    \<and> (\<forall>j. j \<noteq> i \<longrightarrow> map_of (ex_tasks E') j = map_of (ex_tasks E) j)"
proof (cases "map_of (ex_tasks E) i")
  case None
  then show ?thesis using assms(3) by (simp add: run_task_def)
next
  case (Some t)
  define cache where "cache = (case map_of (ex_waker_cache E) i of Some w \<Rightarrow> ex_waker_cache E | None \<Rightarrow> btree_insert i i (ex_waker_cache E))"
  have c: "cache = ex_waker_cache E \<or> cache = btree_insert i i (ex_waker_cache E)"
    by (auto simp: cache_def split: option.split)
  have w: "(case map_of (ex_waker_cache E) i of Some w \<Rightarrow> (w, ex_waker_cache E) | None \<Rightarrow> (i, btree_insert i i (ex_waker_cache E))) = (i, cache)"
    using assms(3) by (auto simp: cache_def executor_inv_def split: option.split)
  obtain r fut woken env' where p: "poll i (task_future t) env = (r, fut, woken, env')" by (metis prod_cases4)
  have b: "length woken + budget env' \<le> budget env"
    using assms(2) p unfolding wakes_paid_def by (metis (mono_tags, lifting) case_prod_conv)
  obtain q where q: "wake_all Q woken (ex_task_queue E) = Some q" "content q = content (ex_task_queue E) @ woken"
      "cap q = cap (ex_task_queue E)"
    using wake_all_ok [OF assms(1), of "ex_task_queue E" woken] b assms(4) by fastforce
  have wf: "btree_wf (ex_tasks E)" using assms(3) by (simp add: executor_inv_def)
  show ?thesis
    using Some p q b c wf executor_inv_remove [OF assms(3) Some c] executor_inv_insert [OF assms(3) Some c]
    by (cases r) (auto simp: run_task_def w Task_poll_def logged_def btree_get_remove btree_get_insert)
qed

text \<open>
  C13 (The executor serves every wake-up). If the futures cause no more wake-ups than a budget
  allows and the queue has room for them, \<^verbatim>\<open>run_ready_tasks\<close> returns and does not panic.
  Then the queue is empty; every task that was queued has been polled, with its own waker; the
  number of polls is at most the number of wake-ups, queued and paid; a task that was not polled
  is as before; and wakers are cached only for tasks that remain.
\<close>

theorem run_ready_tasks_returns:
  assumes "queue_spec Q content cap" and "wakes_paid poll budget" and "executor_inv E"
    and "length (content (ex_task_queue E)) + budget env \<le> cap (ex_task_queue E)"
  shows "\<exists>E' env' polled. run_ready_tasks Q (logged poll) (E, env, log) = Some (Some (E', env', log @ polled))
    \<and> content (ex_task_queue E') = [] \<and> executor_inv E'
    \<and> (\<forall>i \<in> set (content (ex_task_queue E)). map_of (ex_tasks E) i \<noteq> None \<longrightarrow> i \<in> set polled)
    \<and> length polled + budget env' \<le> length (content (ex_task_queue E)) + budget env
    \<and> dom (map_of (ex_tasks E')) \<subseteq> dom (map_of (ex_tasks E))
    \<and> (\<forall>j. j \<notin> set polled \<longrightarrow> map_of (ex_tasks E') j = map_of (ex_tasks E) j)"
  using assms(3,4)
proof (induction "length (content (ex_task_queue E)) + budget env" arbitrary: E env log rule: less_induct)
  case less
  show ?case using assms(1)
  proof (cases rule: q_pop_cases [where q = "ex_task_queue E"])
    case (Empty q')
    then show ?thesis
      using less.prems by (subst run_ready_tasks.simps) (simp add: executor_inv_queue)
  next
    case (Full x r q')
    let ?E = "E\<lparr>ex_task_queue := q'\<rparr>"
    obtain E' env' ext log' where s: "run_task Q (logged poll) x (?E, env, log) = Some (E', env', log @ log')"
        "executor_inv E'" "cap (ex_task_queue E') = cap q'" "content (ex_task_queue E') = r @ ext"
        "length ext + budget env' \<le> budget env" "log' = (if map_of (ex_tasks E) x = None then [] else [x])"
        "dom (map_of (ex_tasks E')) \<subseteq> dom (map_of (ex_tasks E))"
        "\<And>j. j \<noteq> x \<Longrightarrow> map_of (ex_tasks E') j = map_of (ex_tasks E) j"
      using run_task_step [OF assms(1,2), of ?E env x log] less.prems Full by (auto simp: executor_inv_queue)
    obtain E'' env'' p where h: "run_ready_tasks Q (logged poll) (E', env', log @ log') = Some (Some (E'', env'', (log @ log') @ p))"
        "content (ex_task_queue E'') = []" "executor_inv E''"
        "\<And>i. i \<in> set (r @ ext) \<Longrightarrow> map_of (ex_tasks E') i \<noteq> None \<Longrightarrow> i \<in> set p"
        "length p + budget env'' \<le> length (r @ ext) + budget env'"
        "dom (map_of (ex_tasks E'')) \<subseteq> dom (map_of (ex_tasks E'))"
        "\<And>j. j \<notin> set p \<Longrightarrow> map_of (ex_tasks E'') j = map_of (ex_tasks E') j"
      using less.hyps [of E' env' "log @ log'"] s Full less.prems by auto
    have "run_ready_tasks Q (logged poll) (E, env, log) = Some (Some (E'', env'', log @ (log' @ p)))"
      by (subst run_ready_tasks.simps) (simp add: Full s(1) h(1))
    moreover have "i \<in> set (log' @ p)" if "i \<in> set (content (ex_task_queue E))" "map_of (ex_tasks E) i \<noteq> None" for i
      using that h(4) [of i] s(6) s(8) [of i] Full by (cases "i = x") auto
    moreover have "map_of (ex_tasks E'') j = map_of (ex_tasks E) j" if "j \<notin> set (log' @ p)" for j
    proof (cases "j = x")
      case True
      then have "map_of (ex_tasks E) x = None" using that s(6) by (auto split: if_splits)
      then show ?thesis using True s(7) h(6) by (metis domIff subsetD)
    qed (use that h(7) [of j] s(8) [of j] in auto)
    moreover have "length (log' @ p) + budget env'' \<le> length (content (ex_task_queue E)) + budget env"
      using h(5) s(5,6) Full by (auto split: if_splits)
    moreover have "dom (map_of (ex_tasks E'')) \<subseteq> dom (map_of (ex_tasks E))" using s(7) h(6) by blast
    ultimately show ?thesis using h(2,3) by blast
  qed
qed

text \<open>A future that yields a number of times, waking itself each time while the budget lasts.\<close>

definition yield_poll :: "(nat, nat) poll" where
  "yield_poll w n b = (if n = 0 \<or> b = 0 then (PollReady (), 0, [], b) else (Pending, n - 1, [w], b - 1))"

definition two_tasks :: "(nat, nat \<times> u64 list) Executor" where
  "two_tasks = \<lparr>ex_tasks = [(0, \<lparr>task_id = 0, task_future = 2\<rparr>), (1, \<lparr>task_id = 1, task_future = 0\<rparr>)],
     ex_task_queue = (100, [0, 1]), ex_waker_cache = []\<rparr>"

theorem run_ready_tasks_returns_witness:
  "\<exists>E' env' polled. run_ready_tasks list_queue (logged yield_poll) (two_tasks, 3, []) = Some (Some (E', env', polled))
    \<and> snd (ex_task_queue E') = [] \<and> {0, 1} \<subseteq> set polled \<and> length polled \<le> 5"
proof -
  have "wakes_paid yield_poll (\<lambda>b. b)" by (simp add: wakes_paid_def yield_poll_def)
  moreover have "executor_inv two_tasks" by (simp add: executor_inv_def two_tasks_def btree_wf_def)
  ultimately show ?thesis
    using run_ready_tasks_returns [OF list_queue_spec, of yield_poll "\<lambda>b. b" two_tasks 3 "[]"]
    by (fastforce simp: two_tasks_def)
qed

text \<open>
  Without such a budget the loop need not end: a task that wakes itself whenever it is polled
  keeps \<^verbatim>\<open>run_ready_tasks\<close> running for ever, and the processor never sleeps.
\<close>

definition busy_poll :: "(unit, unit) poll" where
  "busy_poll w fut env = (Pending, (), [w], ())"

definition busy_executor :: "(u64 \<times> u64) list \<Rightarrow> (unit, nat \<times> u64 list) Executor" where
  "busy_executor cache = \<lparr>ex_tasks = [(0, \<lparr>task_id = 0, task_future = ()\<rparr>)], ex_task_queue = (100, [0]), ex_waker_cache = cache\<rparr>"

lemma busy_turn:
  assumes "cache = [] \<or> cache = [(0, 0)]"
  shows "q_pop list_queue (ex_task_queue (busy_executor cache)) = (Some 0, 100, [])"
    and "run_task list_queue busy_poll 0 ((busy_executor cache)\<lparr>ex_task_queue := (100, [])\<rparr>, ()) = Some (busy_executor [(0, 0)], ())"
  using assms
  by (auto simp: busy_executor_def list_queue_def run_task_def Task_poll_def executor_wake_task_def busy_poll_def)

lemma busy_task_runs_for_ever: "run_ready_tasks list_queue busy_poll (busy_executor [], ()) = None"
proof -
  have "Q = list_queue \<Longrightarrow> poll = busy_poll \<Longrightarrow> \<exists>cache. s = (busy_executor cache, ()) \<and> (cache = [] \<or> cache = [(0, 0)]) \<Longrightarrow> False"
    if "run_ready_tasks Q poll s = Some y" for Q poll s y
    using that
  proof (induction rule: run_ready_tasks.raw_induct [rotated 1, consumes 1])
    case (1 f Q poll s y)
    from 1(5) obtain cache where s: "s = (busy_executor cache, ())" and c: "cache = [] \<or> cache = [(0, 0)]" by blast
    have "f list_queue busy_poll (busy_executor [(0, 0)], ()) = Some y"
      using 1(2) by (simp only: 1(3,4) s busy_turn [OF c] fst_conv snd_conv prod.case option.case)
    from 1(1) [OF this] show ?case by blast
  qed
  then show ?thesis by (metis option.exhaust)
qed

section \<open>No key press is lost\<close>

datatype key_event = Arrive u8 | PollNext "u8 list" "u8 list"

fun arrivals :: "key_event \<Rightarrow> u8 list" where
  "arrivals (Arrive c) = [c]"
| "arrivals (PollNext before after) = before @ after"

text \<open>
  The keyboard task under any interleaving of interrupts and polls. The task sleeps from a poll
  that is pending until its waker is woken; the scancodes that it received are kept in order. A
  panic ends the run.
\<close>

record 'q key_run =
  device :: "('q, unit) keyboard"
  asleep :: bool
  received :: "u8 list"

definition key_step :: "('q, u8) queue_crate \<Rightarrow> key_event \<Rightarrow> 'q key_run option \<Rightarrow> 'q key_run option" where
  "key_step Q e r = (case r of None \<Rightarrow> None | Some s \<Rightarrow>
     (case e of
        Arrive c \<Rightarrow>
          (let (woken, K) = add_keyboard_scancode Q c (device s)
           in Some (s\<lparr>device := K, asleep := asleep s \<and> woken = None\<rparr>))
      | PollNext before after \<Rightarrow>
          (case poll_next Q () before after (device s) of
             None \<Rightarrow> None
           | Some (PollReady (Some c), K) \<Rightarrow> Some \<lparr>device = K, asleep = False, received = received s @ [c]\<rparr>
           | Some (PollReady None, K) \<Rightarrow> Some (s\<lparr>device := K, asleep := False\<rparr>)
           | Some (Pending, K) \<Rightarrow> Some (s\<lparr>device := K, asleep := True\<rparr>))))"

definition key_start :: "('q, u8) queue_crate \<Rightarrow> 'q key_run option" where
  "key_start Q = map_option (\<lambda>K. \<lparr>device = K, asleep = False, received = []\<rparr>)
     (KeyboardScancodeStream_new Q \<lparr>SCANCODE_QUEUE = None, KEYBOARD_WAKER = None\<rparr>)"

lemma add_keyboard_scancode_queue:
  assumes "queue_spec Q content cap" and "SCANCODE_QUEUE K = Some q"
  shows "\<exists>q'. SCANCODE_QUEUE (snd (add_keyboard_scancode Q c K)) = Some q' \<and> cap q' = cap q
    \<and> content q' = content q @ take (cap q - length (content q)) [c]"
proof (cases "length (content q) < cap q")
  case True
  then obtain q' where "q_push Q c q = (True, q')" "content q' = content q @ [c]" "cap q' = cap q"
    by (rule q_push_ok [OF assms(1)])
  with True assms(2) show ?thesis by (simp add: add_keyboard_scancode_def)
next
  case False
  then obtain q' where "q_push Q c q = (False, q')" "content q' = content q" "cap q' = cap q"
    by (rule q_push_full [OF assms(1)])
  with False assms(2) show ?thesis by (simp add: add_keyboard_scancode_def)
qed

lemma interrupts_queue:
  assumes "queue_spec Q content cap" and "SCANCODE_QUEUE K = Some q"
  shows "\<exists>q'. SCANCODE_QUEUE (interrupts Q codes K) = Some q' \<and> cap q' = cap q
    \<and> content q' = content q @ take (cap q - length (content q)) codes"
  using assms(2)
proof (induction codes arbitrary: K q)
  case (Cons c codes)
  obtain q1 where q1: "SCANCODE_QUEUE (snd (add_keyboard_scancode Q c K)) = Some q1" "cap q1 = cap q"
      "content q1 = content q @ take (cap q - length (content q)) [c]"
    using add_keyboard_scancode_queue [OF assms(1) Cons.prems] by blast
  from Cons.IH [OF this(1)] this(2,3) show ?case
    by (cases "cap q - length (content q)") (auto simp: diff_Suc)
qed simp

text \<open>The two outcomes of \<^verbatim>\<open>poll_next\<close>: the oldest scancode, or a registered waker.\<close>

lemma poll_next_cases:
  assumes "queue_spec Q content cap" and "SCANCODE_QUEUE K = Some q" and "0 < cap q"
  obtains (Pending) q' K' where "poll_next Q w before after K = Some (Pending, K')" "SCANCODE_QUEUE K' = Some q'"
      "cap q' = cap q" "content q = []" "before @ after = []" "content q' = []" "KEYBOARD_WAKER K' = Some w"
    | (Ready) c q' K' where "poll_next Q w before after K = Some (PollReady (Some c), K')" "SCANCODE_QUEUE K' = Some q'"
      "cap q' = cap q" "c # content q' = content q @ take (cap q - (length (content q) - 1)) (before @ after)"
proof (cases rule: q_pop_cases [OF assms(1), of q, case_names Empty Full])
  case (Empty q0)
  let ?K0 = "K\<lparr>SCANCODE_QUEUE := Some q0\<rparr>"
  obtain q1 where q1: "SCANCODE_QUEUE (interrupts Q before ?K0) = Some q1" "cap q1 = cap q" "content q1 = take (cap q) before"
    using interrupts_queue [OF assms(1), of ?K0 q0 before] Empty by auto
  let ?K1 = "(interrupts Q before ?K0)\<lparr>KEYBOARD_WAKER := Some w\<rparr>"
  obtain q2 where q2: "SCANCODE_QUEUE (interrupts Q after ?K1) = Some q2" "cap q2 = cap q" "content q2 = take (cap q) (before @ after)"
    using interrupts_queue [OF assms(1), of ?K1 q1 after] q1 by (auto simp: min_def)
  show ?thesis
  proof (cases rule: q_pop_cases [OF assms(1), of q2, case_names Empty2 Full2])
    case (Empty2 q3)
    then have "before @ after = []" using q2(3) assms(3) by auto
    with Empty Empty2 q2 assms(2) show ?thesis by (intro Pending [of "K\<lparr>KEYBOARD_WAKER := Some w, SCANCODE_QUEUE := Some q3\<rparr>" q3]) (auto simp: poll_next_def)
  next
    case (Full2 c r q3)
    with Empty q1 q2 assms(2) show ?thesis by (intro Ready [of c _ q3]) (auto simp: poll_next_def Let_def)
  qed
next
  case (Full c r q0)
  obtain q1 where "SCANCODE_QUEUE (interrupts Q (before @ after) (K\<lparr>SCANCODE_QUEUE := Some q0\<rparr>)) = Some q1" "cap q1 = cap q"
      "content q1 = r @ take (cap q - length r) (before @ after)"
    using interrupts_queue [OF assms(1), of "K\<lparr>SCANCODE_QUEUE := Some q0\<rparr>" q0 "before @ after"] Full by auto
  with Full assms(2) show ?thesis by (intro Ready [of c _ q1]) (auto simp: poll_next_def)
qed

definition key_inv :: "('q \<Rightarrow> u8 list) \<Rightarrow> ('q \<Rightarrow> nat) \<Rightarrow> u8 list \<Rightarrow> 'q key_run \<Rightarrow> bool" where
  "key_inv content cap A s \<longleftrightarrow> (\<exists>q. SCANCODE_QUEUE (device s) = Some q \<and> cap q = 100 \<and> length (content q) \<le> 100
     \<and> subseq (received s @ content q) A \<and> (length A \<le> 100 \<longrightarrow> received s @ content q = A)
     \<and> (asleep s \<longrightarrow> content q = [] \<and> KEYBOARD_WAKER (device s) = Some ()))"

lemma accepted_codes:
  assumes "subseq (rs @ xs) A" and "length A \<le> 100 \<longrightarrow> rs @ xs = A" and "100 \<le> n + length xs"
  shows "subseq (rs @ xs @ take n codes) (A @ codes)"
    and "length (A @ codes) \<le> 100 \<longrightarrow> rs @ xs @ take n codes = A @ codes"
proof -
  have "subseq (take n codes) codes" by (rule prefix_imp_subseq [OF take_is_prefix])
  then show "subseq (rs @ xs @ take n codes) (A @ codes)" using list_emb_append_mono [OF assms(1)] by (metis append_assoc)
  show "length (A @ codes) \<le> 100 \<longrightarrow> rs @ xs @ take n codes = A @ codes"
  proof
    assume l: "length (A @ codes) \<le> 100"
    with assms(2) have "rs @ xs = A" by simp
    with l assms(3) have "length codes \<le> n" by auto
    with \<open>rs @ xs = A\<close> show "rs @ xs @ take n codes = A @ codes" by auto
  qed
qed

lemma key_step_inv:
  assumes "queue_spec Q content cap" and "key_inv content cap A s"
  shows "\<exists>s'. key_step Q e (Some s) = Some s' \<and> key_inv content cap (A @ arrivals e) s'"
proof -
  obtain q where q: "SCANCODE_QUEUE (device s) = Some q" "cap q = 100" "length (content q) \<le> 100"
      "subseq (received s @ content q) A" "length A \<le> 100 \<longrightarrow> received s @ content q = A"
      "asleep s \<longrightarrow> content q = [] \<and> KEYBOARD_WAKER (device s) = Some ()"
    using assms(2) unfolding key_inv_def by blast
  note acc = accepted_codes [OF q(4,5)]
  show ?thesis
  proof (cases e)
    case (Arrive c)
    obtain q' where q': "SCANCODE_QUEUE (snd (add_keyboard_scancode Q c (device s))) = Some q'" "cap q' = 100"
        "content q' = content q @ take (100 - length (content q)) [c]"
      using add_keyboard_scancode_queue [OF assms(1) q(1)] q(2) by metis
    have "fst (add_keyboard_scancode Q c (device s)) = Some ()" if "asleep s"
      using that q queue_specD(4) [OF assms(1), of c q]
      by (auto simp: add_keyboard_scancode_def split: prod.split bool.split)
    with Arrive q q' acc [of "100 - length (content q)" "[c]"] show ?thesis
      by (auto simp: key_step_def key_inv_def split_beta)
  next
    case (PollNext before after)
    have "0 < cap q" using q(2) by simp
    with assms(1) q(1) show ?thesis
    proof (cases rule: poll_next_cases [where w = "()" and before = before and after = after])
      case (Pending q' K')
      with PollNext q show ?thesis by (auto simp: key_step_def key_inv_def)
    next
      case (Ready c q' K')
      then have "length (content q') \<le> 100" using q(2,3) by (cases "content q") (auto dest!: arg_cong [of _ _ length])
      moreover have "received s @ c # content q' = received s @ content q @ take (100 - (length (content q) - 1)) (before @ after)"
        using Ready(4) q(2) by simp
      moreover have "100 \<le> 100 - (length (content q) - 1) + length (content q)" by simp
      ultimately show ?thesis
        using PollNext Ready(1-3) q(2) acc [of "100 - (length (content q) - 1)" "before @ after"]
        by (auto simp: key_step_def key_inv_def)
    qed
  qed
qed

lemma key_run_inv:
  assumes "queue_spec Q content cap" and "key_inv content cap A s"
  shows "\<exists>s'. run (key_step Q) es (Some s) = Some s' \<and> key_inv content cap (A @ concat (map arrivals es)) s'"
  using assms(2)
proof (induction es arbitrary: A s)
  case (Cons e es)
  from key_step_inv [OF assms(1) Cons.prems, of e] Cons.IH show ?case by fastforce
qed simp

lemma key_start_inv:
  assumes "queue_spec Q content cap"
  shows "\<exists>s. key_start Q = Some s \<and> key_inv content cap [] s"
  by (simp add: key_start_def KeyboardScancodeStream_new_def key_inv_def queue_specD(1,2) [OF assms])

text \<open>
  C15 (No key press is lost). However interrupts and polls are interleaved, also inside
  \<^verbatim>\<open>poll_next\<close>, the keyboard stream never panics and yields scancodes in the order of
  their arrival, each at most once; as long as no more than 100 arrived in all, every scancode was
  received or waits in the queue. Whenever the task sleeps nothing waits in the queue, and the
  next scancode wakes the task.
\<close>

theorem no_key_press_lost:
  assumes "queue_spec Q content cap"
  shows "\<exists>s q. run (key_step Q) es (key_start Q) = Some s \<and> SCANCODE_QUEUE (device s) = Some q
    \<and> subseq (received s @ content q) (concat (map arrivals es))
    \<and> (length (concat (map arrivals es)) \<le> 100 \<longrightarrow> received s @ content q = concat (map arrivals es))
    \<and> (asleep s \<longrightarrow> content q = [] \<and> fst (add_keyboard_scancode Q c (device s)) = Some ())"
proof -
  obtain s where s: "run (key_step Q) es (key_start Q) = Some s" "key_inv content cap (concat (map arrivals es)) s"
    using key_start_inv [OF assms] key_run_inv [OF assms, of "[]" _ es] by fastforce
  then obtain q where q: "SCANCODE_QUEUE (device s) = Some q" "cap q = 100"
      "subseq (received s @ content q) (concat (map arrivals es))"
      "length (concat (map arrivals es)) \<le> 100 \<longrightarrow> received s @ content q = concat (map arrivals es)"
      "asleep s \<longrightarrow> content q = [] \<and> KEYBOARD_WAKER (device s) = Some ()"
    unfolding key_inv_def by blast
  have "fst (add_keyboard_scancode Q c (device s)) = Some ()" if "asleep s"
    using that q queue_specD(4) [OF assms, of c q]
    by (auto simp: add_keyboard_scancode_def split: prod.split bool.split)
  with s(1) q show ?thesis by blast
qed

theorem no_key_press_lost_witness:
  "\<exists>s q. run (key_step list_queue) [Arrive 30, PollNext [] [], PollNext [31] [32], PollNext [] [], PollNext [] []] (key_start list_queue) = Some s
    \<and> SCANCODE_QUEUE (device s) = Some q \<and> received s @ snd q = [30, 31, 32]"
  using no_key_press_lost [OF list_queue_spec, of "[Arrive 30, PollNext [] [], PollNext [31] [32], PollNext [] [], PollNext [] []]"]
  by fastforce

end
