(* ===== verification/Ruix_Interrupts.thy ===== *)
theory Ruix_Interrupts
  imports Ruix_Syscall Ruix_Task
begin

text \<open>
  The assembly entry points: the handlers of the timer interrupt and of \<^verbatim>\<open>int 0x80\<close>
  (\<^verbatim>\<open>src/interrupts.rs\<close>) and of the \<^verbatim>\<open>syscall\<close> instruction
  (\<^verbatim>\<open>src/syscall.rs\<close>), as programs for a small model of the processor with registers,
  a stack in memory and the \<^verbatim>\<open>GS\<close> base. The Rust functions they call are parameters that
  map the state of the processor at their entry to the state at their return.
\<close>

section \<open>The processor\<close>

datatype reg = RAX | RBX | RCX | RDX | RSI | RDI | RBP | RSP | R8 | R9 | R10 | R11 | R12 | R13 | R14 | R15

record cpu_state =
  x_regs :: "reg \<Rightarrow> u64"
  x_rip :: u64
  x_cs :: u64
  x_rflags :: u64
  x_ss :: u64
  x_gs :: u64
  x_kernel_gs :: u64
  x_mem :: mem

datatype symbol = handle_switch_fn | increment_tick_fn | rust_syscall_handler_fn

datatype instr =
    Push reg
  | Pop reg
  | Sub reg u64
  | Add reg u64
  | Mov reg reg
  | Call symbol
  | StoreGs u64 reg
  | LoadGs reg u64
  | Swapgs
  | Iretq
  | Sysretq

definition set_reg :: "reg \<Rightarrow> u64 \<Rightarrow> cpu_state \<Rightarrow> cpu_state" where
  "set_reg r v s = s\<lparr>x_regs := (x_regs s)(r := v)\<rparr>"

lemma set_reg_simps [simp]:
  "x_regs (set_reg r v s) = (x_regs s)(r := v)" "x_rip (set_reg r v s) = x_rip s" "x_cs (set_reg r v s) = x_cs s"
  "x_rflags (set_reg r v s) = x_rflags s" "x_ss (set_reg r v s) = x_ss s" "x_gs (set_reg r v s) = x_gs s"
  "x_kernel_gs (set_reg r v s) = x_kernel_gs s" "x_mem (set_reg r v s) = x_mem s"
  "(set_reg r v s)\<lparr>x_regs := g\<rparr> = s\<lparr>x_regs := g\<rparr>"
  by (simp_all add: set_reg_def)

definition push_u64 :: "u64 \<Rightarrow> cpu_state \<Rightarrow> cpu_state" where
  "push_u64 v s = (let sp = x_regs s RSP - 8 in (set_reg RSP sp s)\<lparr>x_mem := write_u64 sp v (x_mem s)\<rparr>)"

text \<open>
  A call pushes a return address, runs the function and returns by popping it. \<^verbatim>\<open>iretq\<close>
  takes five words from the stack; \<^verbatim>\<open>sysretq\<close> returns to \<^verbatim>\<open>rcx\<close> with the flags in
  \<^verbatim>\<open>r11\<close>.
\<close>

fun exec_instr :: "(symbol \<Rightarrow> cpu_state \<Rightarrow> cpu_state) \<Rightarrow> u64 \<Rightarrow> instr \<Rightarrow> cpu_state \<Rightarrow> cpu_state" where
  "exec_instr F ra (Push r) s = push_u64 (x_regs s r) s"
| "exec_instr F ra (Pop r) s = set_reg r (read_u64 (x_regs s RSP) (x_mem s)) (set_reg RSP (x_regs s RSP + 8) s)"
| "exec_instr F ra (Sub r n) s = set_reg r (x_regs s r - n) s"
| "exec_instr F ra (Add r n) s = set_reg r (x_regs s r + n) s"
| "exec_instr F ra (Mov d r) s = set_reg d (x_regs s r) s"
| "exec_instr F ra (Call f) s = (let s' = F f (push_u64 ra s) in set_reg RSP (x_regs s' RSP + 8) s')"
| "exec_instr F ra (StoreGs n r) s = s\<lparr>x_mem := write_u64 (x_gs s + n) (x_regs s r) (x_mem s)\<rparr>"
| "exec_instr F ra (LoadGs r n) s = set_reg r (read_u64 (x_gs s + n) (x_mem s)) s"
| "exec_instr F ra Swapgs s = s\<lparr>x_gs := x_kernel_gs s, x_kernel_gs := x_gs s\<rparr>"
| "exec_instr F ra Iretq s =
     (let sp = x_regs s RSP; m = x_mem s
      in (set_reg RSP (read_u64 (sp + 24) m) s)\<lparr>x_rip := read_u64 sp m, x_cs := read_u64 (sp + 8) m,
           x_rflags := read_u64 (sp + 16) m, x_ss := read_u64 (sp + 32) m\<rparr>)"
| "exec_instr F ra Sysretq s = s\<lparr>x_rip := x_regs s RCX, x_rflags := x_regs s R11\<rparr>"

definition exec :: "(symbol \<Rightarrow> cpu_state \<Rightarrow> cpu_state) \<Rightarrow> u64 \<Rightarrow> instr list \<Rightarrow> cpu_state \<Rightarrow> cpu_state" where
  "exec F ra code s = fold (exec_instr F ra) code s"

section \<open>The handlers\<close>

definition timer_interrupt_handler :: "instr list" where
  "timer_interrupt_handler =
     [Push RAX, Push RCX, Push RDX, Push RSI, Push RDI, Push R8, Push R9, Push R10, Push R11,
      Push RBX, Push RBP, Push R12, Push R13, Push R14, Push R15,
      Sub RSP 8, Mov RDI RSP, Add RDI 8, Call handle_switch_fn, Add RSP 8,
      Call increment_tick_fn,
      Mov RSP RAX,
      Pop R15, Pop R14, Pop R13, Pop R12, Pop RBP, Pop RBX, Pop R11, Pop R10, Pop R9, Pop R8,
      Pop RDI, Pop RSI, Pop RDX, Pop RCX, Pop RAX,
      Iretq]"

definition syscall_interrupt_handler :: "instr list" where
  "syscall_interrupt_handler =
     [Push RAX, Push RCX, Push RDX, Push RSI, Push RDI, Push R8, Push R9, Push R10, Push R11,
      Push RBX, Push RBP, Push R12, Push R13, Push R14, Push R15,
      Sub RSP 8, Mov RDI RSP, Add RDI 8, Call rust_syscall_handler_fn, Add RSP 8,
      Pop R15, Pop R14, Pop R13, Pop R12, Pop RBP, Pop RBX, Pop R11, Pop R10, Pop R9, Pop R8,
      Pop RDI, Pop RSI, Pop RDX, Pop RCX,
      Iretq]"

definition asm_syscall_handler :: "instr list" where
  "asm_syscall_handler =
     [Swapgs, StoreGs 0 RSP, LoadGs RSP 8,
      Push R11, Push RCX,
      Sub RSP 8, Mov RDI RSP, Call rust_syscall_handler_fn, Add RSP 8,
      Pop RCX, Pop R11,
      LoadGs RSP 0, Swapgs, Sysretq]"

section \<open>Vectors\<close>

definition PIC_1_OFFSET :: u8 where
  "PIC_1_OFFSET = 32"

definition PIC_2_OFFSET :: u8 where
  "PIC_2_OFFSET = PIC_1_OFFSET + 8"

datatype InterruptIndex = Timer | Keyboard

definition InterruptIndex_as_u8 :: "InterruptIndex \<Rightarrow> u8" where
  "InterruptIndex_as_u8 i = (case i of Timer \<Rightarrow> PIC_1_OFFSET | Keyboard \<Rightarrow> PIC_1_OFFSET + 1)"

definition InterruptIndex_as_usize :: "InterruptIndex \<Rightarrow> usize" where
  "InterruptIndex_as_usize i = ucast (InterruptIndex_as_u8 i)"

datatype handler = breakpoint_handler | page_fault_handler | double_fault_handler
  | timer_handler | keyboard_handler | syscall_handler

definition DOUBLE_FAULT_IST_INDEX :: u16 where
  "DOUBLE_FAULT_IST_INDEX = 0"

text \<open>
  The table: each vector with its handler and the entry of the interrupt stack table it uses. The
  fields \<^verbatim>\<open>breakpoint\<close>, \<^verbatim>\<open>double_fault\<close> and \<^verbatim>\<open>page_fault\<close> are the
  vectors 3, 8 and 14 of the architecture.
\<close>

definition IDT :: "usize \<rightharpoonup> handler \<times> u16 option" where
  "IDT = Map.empty
     (3 \<mapsto> (breakpoint_handler, None),
      14 \<mapsto> (page_fault_handler, None),
      8 \<mapsto> (double_fault_handler, Some DOUBLE_FAULT_IST_INDEX),
      InterruptIndex_as_usize Timer \<mapsto> (timer_handler, None),
      InterruptIndex_as_usize Keyboard \<mapsto> (keyboard_handler, None),
      0x80 \<mapsto> (syscall_handler, None))"

text \<open>The end-of-interrupt message for the timer, to the interrupt controllers as a parameter.\<close>

definition send_timer_eoi :: "(u8 \<Rightarrow> 'pic \<Rightarrow> 'pic) \<Rightarrow> 'pic \<Rightarrow> 'pic" where
  "send_timer_eoi notify_end_of_interrupt PICS = notify_end_of_interrupt (InterruptIndex_as_u8 Timer) PICS"

text \<open>The keyboard handler: \<open>scancode\<close> is the byte read from port \<^verbatim>\<open>0x60\<close>.\<close>

definition keyboard_interrupt_handler ::
    "('q, u8) queue_crate \<Rightarrow> (u8 \<Rightarrow> 'pic \<Rightarrow> 'pic) \<Rightarrow> u8 \<Rightarrow> ('q, 'w) keyboard \<times> 'pic
      \<Rightarrow> 'w option \<times> ('q, 'w) keyboard \<times> 'pic" where
  "keyboard_interrupt_handler Q notify_end_of_interrupt scancode =
     (\<lambda>(K, PICS). case add_keyboard_scancode Q scancode K of
        (woken, K') \<Rightarrow> (woken, K', notify_end_of_interrupt (InterruptIndex_as_u8 Keyboard) PICS))"

text \<open>
  The six handlers are at six different vectors, the two of the controller at the vectors that the
  controller raises for its first two lines.
\<close>

lemma as_usize_vectors: "InterruptIndex_as_usize Timer = 32" "InterruptIndex_as_usize Keyboard = 33"
  by (simp_all add: InterruptIndex_as_usize_def InterruptIndex_as_u8_def PIC_1_OFFSET_def)

lemma idt_vectors:
  "list_all (\<lambda>(v, h). map_option fst (IDT v) = Some h) [(3, breakpoint_handler), (8, double_fault_handler),
     (14, page_fault_handler), (32, timer_handler), (33, keyboard_handler), (0x80, syscall_handler)]"
  by (simp add: IDT_def as_usize_vectors)

section \<open>Contexts on the stack\<close>

text \<open>The context of the interrupted program: its registers and the five words the processor pushed.\<close>

definition interrupted :: "cpu_state \<Rightarrow> ProcessContext" where
  "interrupted s = (let g = x_regs s; sp = g RSP; m = x_mem s in
     \<lparr>r15 = g R15, r14 = g R14, r13 = g R13, r12 = g R12, rbp = g RBP, rbx = g RBX, r11 = g R11, r10 = g R10,
      r9 = g R9, r8 = g R8, rdi = g RDI, rsi = g RSI, rdx = g RDX, rcx = g RCX, rax = g RAX,
      rip = read_u64 sp m, cs = read_u64 (sp + 8) m, rflags = read_u64 (sp + 16) m,
      rsp = read_u64 (sp + 24) m, ss = read_u64 (sp + 32) m\<rparr>)"

text \<open>The state of a processor that goes on with a context.\<close>

definition resume :: "ProcessContext \<Rightarrow> cpu_state \<Rightarrow> cpu_state" where
  "resume c s = s\<lparr>x_regs := (\<lambda>r. case r of RAX \<Rightarrow> rax c | RBX \<Rightarrow> rbx c | RCX \<Rightarrow> rcx c | RDX \<Rightarrow> rdx c
       | RSI \<Rightarrow> rsi c | RDI \<Rightarrow> rdi c | RBP \<Rightarrow> rbp c | RSP \<Rightarrow> rsp c | R8 \<Rightarrow> r8 c | R9 \<Rightarrow> r9 c | R10 \<Rightarrow> r10 c
       | R11 \<Rightarrow> r11 c | R12 \<Rightarrow> r12 c | R13 \<Rightarrow> r13 c | R14 \<Rightarrow> r14 c | R15 \<Rightarrow> r15 c),
     x_rip := rip c, x_cs := cs c, x_rflags := rflags c, x_ss := ss c\<rparr>"

lemma read_bytes_append: "read_bytes p (k + n) m = read_bytes p k m @ read_bytes (p + of_nat k) n m"
proof -
  have "[0..<k + n] = [0..<k] @ [k..<k + n]" by (rule upt_add_eq_append) simp
  moreover have "[k..<k + n] = map (\<lambda>i. i + k) [0..<n]" by (simp only: map_add_upt add.commute)
  moreover have "p + of_nat (i + k) = p + of_nat k + of_nat i" for i by simp
  ultimately show ?thesis by (simp only: read_bytes_def map_append map_map comp_def)
qed

lemma words_le_read_bytes:
  "words_le n (read_bytes p (8 * n) m) = map (\<lambda>i. read_u64 (p + of_nat (8 * i)) m) [0..<n]"
proof (induction n arbitrary: p)
  case (Suc n)
  have r: "read_bytes p (8 * Suc n) m = read_bytes p 8 m @ read_bytes (p + 8) (8 * n) m"
    using read_bytes_append [of p 8 "8 * n" m] by simp
  have "map (\<lambda>i. read_u64 (p + of_nat (8 * i)) m) [0..<Suc n] =
      read_u64 p m # map (\<lambda>i. read_u64 (p + 8 + of_nat (8 * i)) m) [0..<n]"
    unfolding map_upt_Suc by (simp add: algebra_simps)
  then show ?case unfolding r by (simp add: Suc.IH read_u64_def)
qed simp

lemma read_context_words:
  "read_context p m = \<lparr>r15 = read_u64 p m, r14 = read_u64 (p + 8) m, r13 = read_u64 (p + 16) m,
     r12 = read_u64 (p + 24) m, rbp = read_u64 (p + 32) m, rbx = read_u64 (p + 40) m,
     r11 = read_u64 (p + 48) m, r10 = read_u64 (p + 56) m, r9 = read_u64 (p + 64) m,
     r8 = read_u64 (p + 72) m, rdi = read_u64 (p + 80) m, rsi = read_u64 (p + 88) m,
     rdx = read_u64 (p + 96) m, rcx = read_u64 (p + 104) m, rax = read_u64 (p + 112) m,
     rip = read_u64 (p + 120) m, cs = read_u64 (p + 128) m, rflags = read_u64 (p + 136) m,
     rsp = read_u64 (p + 144) m, ss = read_u64 (p + 152) m\<rparr>"
proof -
  have "words_le 20 (read_bytes p 160 m) ! i = read_u64 (p + of_nat (8 * i)) m" if "i < 20" for i
    using words_le_read_bytes [of 20 p m] that by simp
  then show ?thesis by (simp add: read_context_def context_of_words_def)
qed

section \<open>Pushing and popping registers\<close>

fun push_words :: "u64 list \<Rightarrow> u64 \<Rightarrow> mem \<Rightarrow> mem" where
  "push_words [] sp m = m"
| "push_words (w # ws) sp m = push_words ws (sp - 8) (write_u64 (sp - 8) w m)"

lemma push_words_Cons:
  "push_words (w # ws) (b + of_nat (8 * length (w # ws))) m =
     push_words ws (b + of_nat (8 * length ws)) (write_u64 (b + of_nat (8 * length ws)) w m)"
proof -
  have "b + of_nat (8 * length (w # ws)) - 8 = b + of_nat (8 * length ws)" by simp
  then show ?thesis by (simp only: push_words.simps)
qed

text \<open>Above the base of the pushed words are these words, last pushed first, then the old memory.\<close>

lemma read_push_words:
  assumes "8 * i + 8 \<le> 2 ^ 64" and "8 * length ws \<le> 2 ^ 64"
  shows "read_u64 (b + of_nat (8 * i)) (push_words ws (b + of_nat (8 * length ws)) m) =
    (if i < length ws then rev ws ! i else read_u64 (b + of_nat (8 * i)) m)"
  using assms(2)
proof (induction ws arbitrary: m)
  case (Cons w ws)
  let ?m = "write_u64 (b + of_nat (8 * length ws)) w m"
  have IH: "read_u64 (b + of_nat (8 * i)) (push_words (w # ws) (b + of_nat (8 * length (w # ws))) m) =
      (if i < length ws then rev ws ! i else read_u64 (b + of_nat (8 * i)) ?m)"
    unfolding push_words_Cons using Cons.prems by (intro Cons.IH) simp
  consider "i < length ws" | "i = length ws" | "length ws < i" by linarith
  then show ?case
  proof cases
    case 3
    then have "region (b + of_nat (8 * length ws)) 8 \<inter> region (b + of_nat (8 * i)) 8 = {}"
      using assms(1) by (intro region_disjoint) auto
    then have "read_u64 (b + of_nat (8 * i)) ?m = read_u64 (b + of_nat (8 * i)) m"
      by (intro read_write_u64_disjoint) blast
    with IH 3 show ?thesis by (simp only: split: if_split) auto
  qed (use IH in \<open>simp_all only: split: if_split, auto simp: nth_append\<close>)
qed simp

lemma push_words_outside:
  assumes "x \<notin> region b (8 * length ws)" and "8 * length ws \<le> 2 ^ 64"
  shows "push_words ws (b + of_nat (8 * length ws)) m x = m x"
  using assms
proof (induction ws arbitrary: m)
  case (Cons w ws)
  have "region (b + of_nat (8 * length ws)) 8 \<subseteq> region b (8 * length (w # ws))"
    using Cons.prems(2) by (intro sub_region) auto
  then have "x \<notin> region (b + of_nat (8 * length ws)) 8" using Cons.prems(1) by blast
  moreover have "x \<notin> region b (8 * length ws)" using Cons.prems(1) by (auto simp: region_def)
  ultimately show ?case
    unfolding push_words_Cons using Cons by (simp add: write_u64_outside)
qed simp

lemma exec_Nil [simp]: "exec F ra [] s = s"
  and exec_Cons: "exec F ra (i # code) s = exec F ra code (exec_instr F ra i s)"
  and exec_append: "exec F ra (code @ code') s = exec F ra code' (exec F ra code s)"
  by (simp_all add: exec_def)

lemma exec_pushes:
  "RSP \<notin> set rs \<Longrightarrow> exec F ra (map Push rs) s =
     (set_reg RSP (x_regs s RSP - of_nat (8 * length rs)) s)
       \<lparr>x_mem := push_words (map (x_regs s) rs) (x_regs s RSP) (x_mem s)\<rparr>"
proof (induction rs arbitrary: s)
  case (Cons r rs)
  then have "map (x_regs (push_u64 (x_regs s r) s)) rs = map (x_regs s) rs"
    by (auto simp: push_u64_def Let_def)
  with Cons show ?case by (simp add: exec_Cons) (simp add: push_u64_def Let_def algebra_simps cong: if_cong)
qed simp

fun pop_regs :: "reg list \<Rightarrow> u64 \<Rightarrow> mem \<Rightarrow> (reg \<Rightarrow> u64) \<Rightarrow> reg \<Rightarrow> u64" where
  "pop_regs [] sp m g = g(RSP := sp)"
| "pop_regs (r # rs) sp m g = pop_regs rs (sp + 8) m (g(r := read_u64 sp m))"

lemma pop_regs_RSP: "pop_regs rs sp m (g(RSP := v)) = pop_regs rs sp m g"
proof (induction rs arbitrary: sp g)
  case (Cons r rs)
  show ?case
  proof (cases "r = RSP")
    case False
    then have "(g(RSP := v))(r := read_u64 sp m) = (g(r := read_u64 sp m))(RSP := v)" by (rule fun_upd_twist [OF not_sym])
    then show ?thesis by (simp only: pop_regs.simps Cons.IH)
  qed (simp only: pop_regs.simps fun_upd_upd)
qed (simp only: pop_regs.simps fun_upd_upd)

lemma exec_pops: "RSP \<notin> set rs \<Longrightarrow> exec F ra (map Pop rs) s = s\<lparr>x_regs := pop_regs rs (x_regs s RSP) (x_mem s) (x_regs s)\<rparr>"
proof (induction rs arbitrary: s)
  case (Cons r rs)
  let ?v = "read_u64 (x_regs s RSP) (x_mem s)" and ?sp = "x_regs s RSP + 8"
  let ?s = "set_reg r ?v (set_reg RSP ?sp s)"
  have n: "r \<noteq> RSP" "RSP \<notin> set rs" using Cons.prems by auto
  have "x_regs ?s = ((x_regs s)(RSP := ?sp))(r := ?v)" by (simp only: set_reg_simps)
  also have "\<dots> = ((x_regs s)(r := ?v))(RSP := ?sp)" using n(1) by (rule fun_upd_twist [OF not_sym])
  finally have g: "x_regs ?s = ((x_regs s)(r := ?v))(RSP := ?sp)" .
  have "exec F ra (map Pop (r # rs)) s = exec F ra (map Pop rs) ?s"
    by (simp only: list.map exec_Cons exec_instr.simps)
  also have "\<dots> = ?s\<lparr>x_regs := pop_regs rs ?sp (x_mem ?s) (x_regs ?s)\<rparr>"
    unfolding Cons.IH [OF n(2)] by (simp only: g fun_upd_same)
  also have "\<dots> = s\<lparr>x_regs := pop_regs rs ?sp (x_mem s) ((x_regs s)(r := ?v))\<rparr>"
    unfolding g pop_regs_RSP by (simp only: set_reg_simps)
  finally show ?case by (simp only: pop_regs.simps)
next
  case Nil
  have "pop_regs [] (x_regs s RSP) (x_mem s) (x_regs s) = x_regs s" unfolding pop_regs.simps by (rule fun_upd_triv)
  moreover have "s\<lparr>x_regs := x_regs s\<rparr> = s" by simp
  ultimately show ?case by (simp only: list.map exec_Nil)
qed

section \<open>What the handlers do\<close>

definition saved_regs :: "reg list" where
  "saved_regs = [RAX, RCX, RDX, RSI, RDI, R8, R9, R10, R11, RBX, RBP, R12, R13, R14, R15]"

abbreviation save_code :: "instr list" where
  "save_code \<equiv> map Push saved_regs @ [Sub RSP 8, Mov RDI RSP, Add RDI 8]"

lemma timer_code:
  "timer_interrupt_handler = save_code @ [Call handle_switch_fn, Add RSP 8, Call increment_tick_fn]
     @ Mov RSP RAX # map Pop (rev saved_regs) @ [Iretq]"
  by (simp add: timer_interrupt_handler_def saved_regs_def)

lemma int80_code:
  "syscall_interrupt_handler = save_code @ [Call rust_syscall_handler_fn, Add RSP 8]
     @ map Pop (rev (tl saved_regs)) @ [Iretq]"
  by (simp add: syscall_interrupt_handler_def saved_regs_def)

lemma length_save_code: "length save_code = 18"
  by (simp add: saved_regs_def)

lemma take_timer_code:
  "take 18 timer_interrupt_handler = save_code"
  "take 21 timer_interrupt_handler = save_code @ [Call handle_switch_fn, Add RSP 8, Call increment_tick_fn]"
  by (simp_all add: timer_interrupt_handler_def saved_regs_def)

definition saved_mem :: "cpu_state \<Rightarrow> mem" where
  "saved_mem s = push_words (map (x_regs s) saved_regs) (x_regs s RSP) (x_mem s)"

lemma exec_save_code:
  "exec F ra save_code s = (set_reg RDI (x_regs s RSP - 120) (set_reg RSP (x_regs s RSP - 128) s))\<lparr>x_mem := saved_mem s\<rparr>"
proof -
  have n: "RSP \<notin> set saved_regs" and l: "8 * length saved_regs = 120" by (simp_all add: saved_regs_def)
  show ?thesis
    unfolding exec_append exec_pushes [OF n] l saved_mem_def by (simp add: exec_Cons set_reg_def)
qed

lemma saved_mem_read:
  assumes "i < 20"
  shows "read_u64 (x_regs s RSP - 120 + of_nat (8 * i)) (saved_mem s) =
    (if i < 15 then x_regs s (rev saved_regs ! i) else read_u64 (x_regs s RSP - 120 + of_nat (8 * i)) (x_mem s))"
proof -
  have "x_regs s RSP = x_regs s RSP - 120 + of_nat (8 * length (map (x_regs s) saved_regs))"
    by (simp add: saved_regs_def)
  moreover have "rev (map (x_regs s) saved_regs) ! i = x_regs s (rev saved_regs ! i)" if "i < 15"
    unfolding rev_map using that by (intro nth_map) (simp add: saved_regs_def)
  ultimately show ?thesis
    using read_push_words [of i "map (x_regs s) saved_regs" "x_regs s RSP - 120" "x_mem s"] assms
    by (simp add: saved_mem_def saved_regs_def)
qed

lemma saved_context: "read_context (x_regs s RSP - 120) (saved_mem s) = interrupted s"
proof -
  have r: "read_u64 (x_regs s RSP - 120 + of_nat (8 * i)) (saved_mem s) =
    (if i < 15 then x_regs s (rev saved_regs ! i) else read_u64 (x_regs s RSP - 120 + of_nat (8 * i)) (x_mem s))"
    if "i < 20" for i using that by (rule saved_mem_read)
  show ?thesis
    unfolding read_context_words interrupted_def Let_def
    using r [of 0] r [of 1] r [of 2] r [of 3] r [of 4] r [of 5] r [of 6] r [of 7] r [of 8] r [of 9]
      r [of 10] r [of 11] r [of 12] r [of 13] r [of 14] r [of 15] r [of 16] r [of 17] r [of 18] r [of 19]
    by (simp add: saved_regs_def add.commute)
qed

lemma saved_mem_outside: "x \<notin> region (x_regs s RSP - 120) 120 \<Longrightarrow> saved_mem s x = x_mem s x"
  using push_words_outside [of x "x_regs s RSP - 120" "map (x_regs s) saved_regs" "x_mem s"]
  by (simp add: saved_mem_def saved_regs_def)

lemma pop_saved_regs:
  "(pop_regs (rev saved_regs) sp m g)(RSP := read_u64 (sp + 144) m) = x_regs (resume (read_context sp m) s)"
proof
  fix r
  show "((pop_regs (rev saved_regs) sp m g)(RSP := read_u64 (sp + 144) m)) r = x_regs (resume (read_context sp m) s) r"
    by (cases r) (simp_all add: saved_regs_def resume_def read_context_words add.commute)
qed

lemma exec_restore_code:
  "exec F ra (map Pop (rev saved_regs) @ [Iretq]) s = resume (read_context (x_regs s RSP) (x_mem s)) s"
proof -
  let ?sp = "x_regs s RSP" and ?m = "x_mem s"
  have n: "RSP \<notin> set (rev saved_regs)" by (simp add: saved_regs_def)
  have top: "pop_regs (rev saved_regs) ?sp ?m (x_regs s) RSP = ?sp + 120" by (simp add: saved_regs_def)
  have "exec F ra (map Pop (rev saved_regs) @ [Iretq]) s =
      s\<lparr>x_regs := (pop_regs (rev saved_regs) ?sp ?m (x_regs s))(RSP := read_u64 (?sp + 144) ?m),
        x_rip := read_u64 (?sp + 120) ?m, x_cs := read_u64 (?sp + 128) ?m,
        x_rflags := read_u64 (?sp + 136) ?m, x_ss := read_u64 (?sp + 152) ?m\<rparr>"
    unfolding exec_append exec_pops [OF n] by (simp add: exec_Cons Let_def top set_reg_def add.assoc)
  then show ?thesis unfolding pop_saved_regs [of ?sp ?m "x_regs s" s] by (simp add: resume_def read_context_words)
qed

lemma timer_interrupt_contexts_resume:
  fixes F ra s
  defines "s2 \<equiv> exec F ra (take 21 timer_interrupt_handler) s"
  shows "exec F ra timer_interrupt_handler s = resume (read_context (x_regs s2 RAX) (x_mem s2)) s2"
proof -
  have "exec F ra timer_interrupt_handler s = exec F ra (map Pop (rev saved_regs) @ [Iretq]) (set_reg RSP (x_regs s2 RAX) s2)"
    unfolding s2_def take_timer_code by (subst timer_code) (simp only: exec_append exec_Cons exec_instr.simps exec_Nil)
  moreover have "resume c (set_reg RSP v s2) = resume c s2" for c v by (simp add: resume_def set_reg_def)
  ultimately show ?thesis by (simp only: exec_restore_code set_reg_simps fun_upd_same)
qed

text \<open>
  C39 (Contexts at a timer interrupt). The timer handler gives \<^verbatim>\<open>handle_switch\<close> the address
  of a complete \<^verbatim>\<open>ProcessContext\<close> of the interrupted program, with all its registers and
  the words the processor pushed, having written only the 120 bytes below the stack pointer. At
  its end it continues, in all registers, with the context at the address in \<^verbatim>\<open>rax\<close> after
  the calls.
\<close>

theorem timer_interrupt_contexts:
  fixes F ra s
  defines "s1 \<equiv> exec F ra (take 18 timer_interrupt_handler) s"
    and "s2 \<equiv> exec F ra (take 21 timer_interrupt_handler) s"
  shows "timer_interrupt_handler ! 18 = Call handle_switch_fn
    \<and> read_context (x_regs s1 RDI) (x_mem s1) = interrupted s
    \<and> (\<forall>x. x \<in> region (x_regs s RSP - 120) 120 \<or> x_mem s1 x = x_mem s x)
    \<and> exec F ra timer_interrupt_handler s = resume (read_context (x_regs s2 RAX) (x_mem s2)) s2"
proof -
  have "timer_interrupt_handler ! 18 = Call handle_switch_fn" by (simp add: timer_interrupt_handler_def)
  then show ?thesis
    using saved_context [of s] saved_mem_outside [of _ s] timer_interrupt_contexts_resume [of F ra s]
    by (auto simp: s1_def s2_def take_timer_code exec_save_code)
qed

section \<open>Calls\<close>

text \<open>
  What the calling convention promises of a called function: it keeps the callee-saved registers,
  the segment bases and the stack of its caller, of which 200 bytes matter here.
\<close>

definition c_abi :: "(symbol \<Rightarrow> cpu_state \<Rightarrow> cpu_state) \<Rightarrow> bool" where
  "c_abi F \<longleftrightarrow> (\<forall>f s. (\<forall>r \<in> {RBX, RBP, RSP, R12, R13, R14, R15}. x_regs (F f s) r = x_regs s r)
     \<and> x_gs (F f s) = x_gs s \<and> x_kernel_gs (F f s) = x_kernel_gs s
     \<and> (\<forall>x \<in> region (x_regs s RSP) 200. x_mem (F f s) x = x_mem s x))"

lemma c_abiD:
  assumes "c_abi F"
  shows "x_regs (F f s) RSP = x_regs s RSP" and "x_gs (F f s) = x_gs s" and "x_kernel_gs (F f s) = x_kernel_gs s"
    and "x \<in> region (x_regs s RSP) 200 \<Longrightarrow> x_mem (F f s) x = x_mem s x"
    and "r \<in> {RBX, RBP, R12, R13, R14, R15} \<Longrightarrow> x_regs (F f s) r = x_regs s r"
  using assms unfolding c_abi_def by blast+

text \<open>A call leaves the stack pointer alone, and the 192 bytes above it.\<close>

lemma exec_call:
  assumes "c_abi F"
  shows "x_regs (exec_instr F ra (Call f) s) RSP = x_regs s RSP"
    and "x \<in> region (x_regs s RSP) 192 \<Longrightarrow> x_mem (exec_instr F ra (Call f) s) x = x_mem s x"
proof -
  show "x_regs (exec_instr F ra (Call f) s) RSP = x_regs s RSP"
    by (simp add: Let_def c_abiD [OF assms] push_u64_def)
  assume x: "x \<in> region (x_regs s RSP) 192"
  let ?b = "x_regs s RSP - 8"
  have e: "region (x_regs s RSP) 192 = region (?b + of_nat 8) 192" by simp
  have "x \<in> region ?b 200" using x sub_region [of 8 192 200 ?b] unfolding e by auto
  moreover have "x \<notin> region ?b 8" using x region_disjoint [of 0 8 8 192 ?b] unfolding e by auto
  ultimately show "x_mem (exec_instr F ra (Call f) s) x = x_mem s x"
    using c_abiD(4) [OF assms, of x "push_u64 ra s" f] by (simp add: Let_def push_u64_def write_u64_outside)
qed

lemma resume_interrupted:
  "x_regs (resume (interrupted s) u) r = (if r = RSP then read_u64 (x_regs s RSP + 24) (x_mem s) else x_regs s r)"
  "x_rip (resume (interrupted s) u) = read_u64 (x_regs s RSP) (x_mem s)"
  "x_cs (resume (interrupted s) u) = read_u64 (x_regs s RSP + 8) (x_mem s)"
  "x_rflags (resume (interrupted s) u) = read_u64 (x_regs s RSP + 16) (x_mem s)"
  "x_ss (resume (interrupted s) u) = read_u64 (x_regs s RSP + 32) (x_mem s)"
  by (cases r) (simp_all add: resume_def interrupted_def Let_def)

text \<open>The saved context survives the call that follows, with the stack pointer at its start.\<close>

lemma saved_context_call:
  fixes s f ra
  assumes "c_abi F"
  defines "s1 \<equiv> exec_instr F ra (Add RSP 8) (exec_instr F ra (Call f) (exec F ra save_code s))"
  shows "x_regs s1 RSP = x_regs s RSP - 120"
    and "x \<in> region (x_regs s RSP - 120) 160 \<Longrightarrow> x_mem s1 x = saved_mem s x"
proof -
  let ?sp = "x_regs s RSP" and ?s0 = "exec F ra save_code s"
  have p: "x_regs ?s0 RSP = ?sp - 128" by (simp add: exec_save_code)
  have "x_regs s1 RSP = x_regs (exec_instr F ra (Call f) ?s0) RSP + 8"
    unfolding s1_def by (subst exec_instr.simps(4)) (simp only: set_reg_simps fun_upd_same)
  then show "x_regs s1 RSP = ?sp - 120" unfolding exec_call(1) [OF assms(1)] p by simp
  assume x: "x \<in> region (?sp - 120) 160"
  have "region (?sp - 120) 160 \<subseteq> region (?sp - 128) 192" using sub_region [of 8 160 192 "?sp - 128"] by simp
  then have "x \<in> region (x_regs ?s0 RSP) 192" using x unfolding p by blast
  then have "x_mem (exec_instr F ra (Call f) ?s0) x = x_mem ?s0 x" by (rule exec_call(2) [OF assms(1)])
  moreover have "x_mem s1 = x_mem (exec_instr F ra (Call f) ?s0)"
    unfolding s1_def by (subst exec_instr.simps(4)) (simp only: set_reg_simps)
  ultimately show "x_mem s1 x = saved_mem s x" by (simp add: exec_save_code)
qed


text \<open>
  C33 (\<^verbatim>\<open>int 0x80\<close> does not return to its caller). The handler pushes fifteen registers
  and pops fourteen, so \<^verbatim>\<open>iretq\<close> finds the saved \<^verbatim>\<open>rax\<close>, the number of the system
  call, in the place of the return address, and every word of the frame one place too early: the
  processor continues at the address given by the system call number, with the return address as
  its code segment.
\<close>

theorem int80_returns_to_syscall_number:
  fixes F ra s
  defines "s' \<equiv> exec F ra syscall_interrupt_handler s"
  assumes "c_abi F"
  shows "x_rip s' = x_regs s RAX \<and> x_cs s' = read_u64 (x_regs s RSP) (x_mem s)
    \<and> x_rflags s' = read_u64 (x_regs s RSP + 8) (x_mem s) \<and> x_regs s' RSP = read_u64 (x_regs s RSP + 16) (x_mem s)
    \<and> x_ss s' = read_u64 (x_regs s RSP + 24) (x_mem s)"
proof -
  let ?sp = "x_regs s RSP" and ?i = "exec_instr F ra" and ?rs = "rev (tl saved_regs)"
  define u where "u = ?i (Add RSP 8) (?i (Call rust_syscall_handler_fn) (exec F ra save_code s))"
  note u = saved_context_call [OF assms(2), where f = rust_syscall_handler_fn and ra = ra and s = s, folded u_def]
  have n: "RSP \<notin> set ?rs" by (simp add: saved_regs_def)
  have s': "s' = exec_instr F ra Iretq (exec F ra (map Pop ?rs) u)"
    unfolding s'_def u_def by (subst int80_code) (simp only: exec_append exec_Cons exec_Nil)
  have top: "pop_regs ?rs (x_regs u RSP) (x_mem u) (x_regs u) RSP = ?sp - 8"
    unfolding u(1) by (simp add: saved_regs_def)
  have "read_context (?sp - 120) (x_mem u) = interrupted s"
    unfolding saved_context [symmetric] by (rule read_context_cong) (rule u(2))
  then have "read_u64 (?sp - 8) (x_mem u) = x_regs s RAX" "read_u64 ?sp (x_mem u) = read_u64 ?sp (x_mem s)"
    "read_u64 (?sp + 8) (x_mem u) = read_u64 (?sp + 8) (x_mem s)"
    "read_u64 (?sp + 16) (x_mem u) = read_u64 (?sp + 16) (x_mem s)"
    "read_u64 (?sp + 24) (x_mem u) = read_u64 (?sp + 24) (x_mem s)"
    unfolding read_context_words interrupted_def Let_def by (simp_all add: add.commute)
  then show ?thesis
    unfolding s' exec_pops [OF n] by (simp add: Let_def top add.commute)
qed

section \<open>The syscall instruction\<close>

lemma read_u64_cong: "(\<And>x. x \<in> region a 8 \<Longrightarrow> m x = m' x) \<Longrightarrow> read_u64 a m = read_u64 a m'"
  unfolding read_u64_def by (subst read_bytes_cong) auto

text \<open>
  The state when \<^verbatim>\<open>rust_syscall_handler\<close> is called: \<open>C\<close> is the address of
  \<^verbatim>\<open>CPU_DATA\<close> and \<open>T\<close> the top of the kernel stack stored in it.
\<close>

lemma take_syscall_code:
  "take 7 asm_syscall_handler = [Swapgs, StoreGs 0 RSP, LoadGs RSP 8, Push R11, Push RCX, Sub RSP 8, Mov RDI RSP]"
  "asm_syscall_handler = take 7 asm_syscall_handler @ Call rust_syscall_handler_fn
     # [Add RSP 8, Pop RCX, Pop R11, LoadGs RSP 0, Swapgs, Sysretq]"
  by (simp_all add: asm_syscall_handler_def)

lemma region_16: "region C 8 \<subseteq> region C 16" "region (C + 8) 8 \<subseteq> region C 16" "region C 8 \<inter> region (C + 8) 8 = {}"
  using sub_region [of 0 8 16 C] sub_region [of 8 8 16 C] region_disjoint [of 0 8 8 8 C] by simp_all

lemma syscall_entry_state:
  fixes s
  defines "C \<equiv> x_kernel_gs s"
  defines "T \<equiv> read_u64 (C + 8) (x_mem s)"
  shows "exec F ra (take 7 asm_syscall_handler) s =
    (set_reg RDI (T - 24) (set_reg RSP (T - 24) s))\<lparr>x_gs := C, x_kernel_gs := x_gs s,
       x_mem := write_u64 (T - 16) (x_regs s RCX) (write_u64 (T - 8) (x_regs s R11) (write_u64 C (x_regs s RSP) (x_mem s)))\<rparr>"
proof -
  have "region (C + 8) 8 \<inter> region C 8 = {}" using region_16(3) by blast
  then have t: "read_u64 (C + 8) (write_u64 C (x_regs s RSP) (x_mem s)) = T"
    unfolding T_def by (rule read_write_u64_disjoint)
  have "exec F ra (take 3 asm_syscall_handler) s =
      (set_reg RSP T s)\<lparr>x_gs := C, x_kernel_gs := x_gs s, x_mem := write_u64 C (x_regs s RSP) (x_mem s)\<rparr>"
    using t by (simp add: asm_syscall_handler_def exec_Cons set_reg_def flip: C_def)
  moreover have "take 7 asm_syscall_handler = take 3 asm_syscall_handler @ [Push R11, Push RCX, Sub RSP 8, Mov RDI RSP]"
    by (simp add: asm_syscall_handler_def)
  ultimately show ?thesis
    by (simp only: exec_append) (simp add: exec_Cons push_u64_def Let_def set_reg_def)
qed

text \<open>The parts of the 32 bytes at the top of the stack.\<close>

lemma stack_parts:
  "region (T - 32) 8 \<subseteq> region (T - 32) 32" "region (T - 16) 8 \<subseteq> region (T - 32) 32" "region (T - 8) 8 \<subseteq> region (T - 32) 32"
  "region (T - 8) 8 \<inter> region (T - 16) 8 = {}" "region (T - 16) 8 \<subseteq> region (T - 24) 192" "region (T - 8) 8 \<subseteq> region (T - 24) 192"
  using sub_region [of 0 8 32 "T - 32"] sub_region [of 16 8 32 "T - 32"] sub_region [of 24 8 32 "T - 32"]
    region_disjoint [of 16 8 24 8 "T - 32"] sub_region [of 8 8 192 "T - 24"] sub_region [of 16 8 192 "T - 24"]
  by (simp_all add: Int_commute)

lemma syscall_call_reads:
  fixes s F ra
  defines "C \<equiv> x_kernel_gs s"
  defines "T \<equiv> read_u64 (C + 8) (x_mem s)"
  defines "v \<equiv> exec_instr F ra (Call rust_syscall_handler_fn) (exec F ra (take 7 asm_syscall_handler) s)"
  assumes "c_abi F" and keep: "\<And>f u x. x \<in> region C 8 \<Longrightarrow> x_mem (F f u) x = x_mem u x"
    and apart: "region C 16 \<inter> region (T - 32) 32 = {}"
  shows "x_regs v RSP = T - 24" and "read_u64 (T - 16) (x_mem v) = x_regs s RCX"
    and "read_u64 (T - 8) (x_mem v) = x_regs s R11" and "read_u64 C (x_mem v) = x_regs s RSP"
    and "x_gs v = C" and "x_kernel_gs v = x_gs s"
proof -
  let ?u = "exec F ra (take 7 asm_syscall_handler) s"
  let ?m = "write_u64 (T - 16) (x_regs s RCX) (write_u64 (T - 8) (x_regs s R11) (write_u64 C (x_regs s RSP) (x_mem s)))"
  have u: "x_regs ?u RSP = T - 24" "x_mem ?u = ?m" "x_gs ?u = C" "x_kernel_gs ?u = x_gs s"
    unfolding syscall_entry_state T_def C_def by simp_all
  show "x_regs v RSP = T - 24" unfolding v_def exec_call(1) [OF assms(4)] by (rule u(1))
  have m: "x_mem v x = ?m x" if "x \<in> region (T - 24) 192" for x
    unfolding v_def using exec_call(2) [OF assms(4)] that by (simp only: u)
  have d: "region C 8 \<inter> region (T - 32) 8 = {}" "region C 8 \<inter> region (T - 16) 8 = {}" "region C 8 \<inter> region (T - 8) 8 = {}"
    using apart region_16(1) [of C] stack_parts(1-3) [of T] by blast+
  have c: "x_mem v x = ?m x" if "x \<in> region C 8" for x
  proof -
    have "x \<notin> region (T - 32) 8" using that d(1) by blast
    then have "x_mem (push_u64 ra ?u) x = ?m x" unfolding push_u64_def Let_def by (simp add: u write_u64_outside)
    then show ?thesis unfolding v_def using keep [OF that] by (simp add: Let_def)
  qed
  have "read_u64 (T - 16) (x_mem v) = read_u64 (T - 16) ?m"
    using stack_parts(5) [of T] by (intro read_u64_cong m) blast
  then show "read_u64 (T - 16) (x_mem v) = x_regs s RCX" by simp
  have "read_u64 (T - 8) (x_mem v) = read_u64 (T - 8) ?m"
    using stack_parts(6) [of T] by (intro read_u64_cong m) blast
  then show "read_u64 (T - 8) (x_mem v) = x_regs s R11"
    by (simp add: read_write_u64_disjoint [OF stack_parts(4)])
  have "read_u64 C (x_mem v) = read_u64 C ?m" by (intro read_u64_cong c)
  then show "read_u64 C (x_mem v) = x_regs s RSP"
    by (simp add: read_write_u64_disjoint [OF d(2)] read_write_u64_disjoint [OF d(3)])
  show "x_gs v = C" "x_kernel_gs v = x_gs s"
    unfolding v_def by (simp_all add: Let_def c_abiD [OF assms(4)] push_u64_def u)
qed

text \<open>
  C17 (Return from a system call). Whatever \<^verbatim>\<open>rust_syscall_handler\<close> does, as long as it
  keeps to the calling convention and leaves the saved stack pointer in \<^verbatim>\<open>CPU_DATA\<close> alone,
  the program that executed \<^verbatim>\<open>syscall\<close> goes on behind it, with its own stack pointer,
  flags and callee-saved registers, the \<^verbatim>\<open>GS\<close> bases as before and the result in
  \<^verbatim>\<open>rax\<close>.
\<close>

theorem syscall_entry_round_trip:
  fixes s F ra
  defines "C \<equiv> x_kernel_gs s"
  defines "T \<equiv> read_u64 (C + 8) (x_mem s)"
  defines "s' \<equiv> exec F ra asm_syscall_handler s"
  assumes "c_abi F" and "\<And>f u x. x \<in> region C 8 \<Longrightarrow> x_mem (F f u) x = x_mem u x"
    and "region C 16 \<inter> region (T - 32) 32 = {}"
  shows "x_rip s' = x_regs s RCX \<and> x_rflags s' = x_regs s R11 \<and> x_regs s' RSP = x_regs s RSP
    \<and> x_gs s' = x_gs s \<and> x_kernel_gs s' = x_kernel_gs s
    \<and> (\<forall>r \<in> {RBX, RBP, R12, R13, R14, R15}. x_regs s' r = x_regs s r)
    \<and> x_regs s' RAX = x_regs (F rust_syscall_handler_fn (push_u64 ra (exec F ra (take 7 asm_syscall_handler) s))) RAX"
proof -
  define v where "v = exec_instr F ra (Call rust_syscall_handler_fn) (exec F ra (take 7 asm_syscall_handler) s)"
  note r = syscall_call_reads [OF assms(4), of s ra, folded C_def, folded T_def, folded v_def, OF assms(5,6)]
  have s': "s' = exec F ra [Add RSP 8, Pop RCX, Pop R11, LoadGs RSP 0, Swapgs, Sysretq] v"
    unfolding s'_def v_def by (subst take_syscall_code(2)) (simp only: exec_append exec_Cons)
  have "x_regs v q = x_regs s q" if "q \<in> {RBX, RBP, R12, R13, R14, R15}" for q
    using that c_abiD(5) [OF assms(4) that] unfolding v_def syscall_entry_state by (auto simp: Let_def push_u64_def)
  moreover have "x_regs v RAX = x_regs (F rust_syscall_handler_fn (push_u64 ra (exec F ra (take 7 asm_syscall_handler) s))) RAX"
    unfolding v_def by (simp add: Let_def)
  ultimately show ?thesis
    unfolding s' using r by (auto simp: exec_Cons C_def [symmetric])
qed

lemma word_mod_16: "uint ((x - y) mod 16 :: u64) = (uint (x mod 16) - uint (y mod 16)) mod 16"
proof -
  have "(k + 18446744073709551616) mod 16 = k mod 16" for k :: int
    using mod_mult_self2 [of k 16 1152921504606846976] by simp
  then have "uint (x - y) mod 16 = (uint x - uint y) mod 16" by (simp add: uint_sub_if')
  then show ?thesis by (simp add: uint_mod mod_diff_eq)
qed

text \<open>
  Arguments of a system call. The entry saves no argument register. When the handler is
  called, the slot from which it takes its first argument holds the flags of the caller, and the
  one before it the return address of the caller. With a kernel stack aligned to 16 bytes, the
  pointer it is given is not, and the handler refuses it.
\<close>

theorem syscall_entry_arguments:
  fixes s F ra
  defines "T \<equiv> read_u64 (x_kernel_gs s + 8) (x_mem s)"
  defines "u \<equiv> exec F ra (take 7 asm_syscall_handler) s"
  assumes "T mod 16 = 0"
  shows "asm_syscall_handler ! 7 = Call rust_syscall_handler_fn \<and> \<not> validate_stack_pointer (x_regs u RDI)
    \<and> read_u64 (x_regs u RDI + 2 * 8) (x_mem u) = x_regs s R11
    \<and> read_u64 (x_regs u RDI + 1 * 8) (x_mem u) = x_regs s RCX"
proof -
  have "x_regs u RDI = T - 24" unfolding u_def syscall_entry_state T_def by simp
  moreover have "(T - 24) mod 16 \<noteq> 0" using word_mod_16 [of T 24] assms(3) by (auto simp: uint_0_iff [symmetric])
  moreover have "read_u64 (T - 8) (x_mem u) = x_regs s R11" "read_u64 (T - 16) (x_mem u) = x_regs s RCX"
    unfolding u_def syscall_entry_state T_def [symmetric]
    by (simp_all add: read_write_u64_disjoint [OF stack_parts(4)])
  ultimately show ?thesis by (simp add: validate_stack_pointer_def asm_syscall_handler_def)
qed

text \<open>
  Alignment at the calls. The processor aligns the stack to 16 bytes before it pushes the five
  words of an interrupt frame, and the calling convention asks for a stack pointer that is a
  multiple of 16 at a call. The adjustment by eight bytes in the handlers has the opposite effect.
\<close>

lemma timer_call_misaligned:
  assumes "x_regs s RSP mod 16 = 8"
  shows "x_regs (exec F ra (take 18 timer_interrupt_handler) s) RSP mod 16 = 8"
proof -
  have "x_regs (exec F ra (take 18 timer_interrupt_handler) s) RSP = x_regs s RSP - 128"
    unfolding take_timer_code exec_save_code by simp
  moreover have "(x_regs s RSP - 128) mod 16 = 8"
    using word_mod_16 [of "x_regs s RSP" 128] assms by (simp add: word_uint_eq_iff)
  ultimately show ?thesis by simp
qed

text \<open>
  The result of \<^verbatim>\<open>handle_switch\<close>. The second call comes before \<^verbatim>\<open>rax\<close> is used,
  and \<^verbatim>\<open>increment_tick\<close> has no result: whatever it leaves in \<^verbatim>\<open>rax\<close> decides what
  is resumed, for every choice of the scheduler.
\<close>

lemma switch_result_discarded:
  fixes F ra s
  defines "u \<equiv> exec F ra (take 21 timer_interrupt_handler) s"
  assumes "\<And>s. x_regs (F increment_tick_fn s) RAX = v"
  shows "exec F ra timer_interrupt_handler s = resume (read_context v (x_mem u)) u"
proof -
  have "x_regs u RAX = v"
    unfolding u_def
    by (simp only: take_timer_code exec_append exec_Cons exec_Nil exec_instr.simps(6) Let_def set_reg_simps) (simp add: assms(2))
  then show ?thesis using timer_interrupt_contexts_resume [of F ra s] unfolding u_def by (simp only:)
qed

section \<open>Examples\<close>

text \<open>Functions that change nothing but \<^verbatim>\<open>rax\<close>, which gets the first argument.\<close>

definition return_argument :: "symbol \<Rightarrow> cpu_state \<Rightarrow> cpu_state" where
  "return_argument f s = set_reg RAX (x_regs s RDI) s"

definition example_state :: cpu_state where
  "example_state = \<lparr>x_regs = (\<lambda>r. case r of RSP \<Rightarrow> 0xFFFF800000010000 | RAX \<Rightarrow> 39 | RCX \<Rightarrow> 0x400010 | _ \<Rightarrow> 7),
     x_rip = 0, x_cs = 8, x_rflags = 2, x_ss = 16, x_gs = 0x1000, x_kernel_gs = 0x2000, x_mem = (\<lambda>_. 0)\<rparr>"

lemma example_mem: "read_u64 a (x_mem example_state) = 0"
  by (simp add: example_state_def read_u64_def read_bytes_def upt_rec)

lemma return_argument_abi: "c_abi return_argument"
  by (simp add: c_abi_def return_argument_def)


theorem int80_returns_to_syscall_number_witness:
  "x_rip (exec return_argument 0 syscall_interrupt_handler example_state) = 39"
  using int80_returns_to_syscall_number [OF return_argument_abi, of 0 example_state] by (simp add: example_state_def)

theorem syscall_entry_round_trip_witness:
  "x_rip (exec return_argument 0 asm_syscall_handler example_state) = 0x400010"
proof -
  have "region 0x2000 16 \<inter> region (0 - 32) 32 = {}"
    using region_no_wrap [of "0x2000" 16] region_no_wrap [of "0 - 32" 32] by auto
  moreover have "x_kernel_gs example_state = 0x2000" by (simp add: example_state_def)
  ultimately show ?thesis
    using syscall_entry_round_trip [OF return_argument_abi, of example_state 0]
    by (simp add: return_argument_def example_mem) (simp add: example_state_def)
qed

theorem syscall_entry_arguments_witness:
  "\<not> validate_stack_pointer (x_regs (exec return_argument 0 (take 7 asm_syscall_handler) example_state) RDI)"
proof -
  have "read_u64 (x_kernel_gs example_state + 8) (x_mem example_state) mod 16 = 0"
    by (simp add: example_mem)
  from syscall_entry_arguments [where s = example_state and F = return_argument and ra = 0, OF this]
  show ?thesis by (elim conjE)
qed

end
