(* ===== verification/Ruix_Gdt.thy ===== *)
theory Ruix_Gdt
  imports Ruix_Interrupts
begin

text \<open>
  Segments and the transition to user mode (\<^verbatim>\<open>src/gdt.rs\<close>), and the registers that
  configure the \<^verbatim>\<open>syscall\<close> instruction (\<^verbatim>\<open>init\<close> in \<^verbatim>\<open>src/syscall.rs\<close>).
  The descriptor table and the writer of the register \<^verbatim>\<open>STAR\<close> belong to the crate
  \<^verbatim>\<open>x86_64\<close> and are parameters.
\<close>

section \<open>Segments\<close>

datatype Descriptor = kernel_code_segment | kernel_data_segment | user_data_segment | user_code_segment | tss_segment

record Selectors =
  code_selector :: u16
  data_selector :: u16
  user_code_selector :: u16
  user_data_selector :: u16
  tss_selector :: u16

record TaskStateSegment =
  privilege_stack :: u64
  interrupt_stack :: u64

definition TSS_STACK_SIZE :: u64 where
  "TSS_STACK_SIZE = 4096 * 5"

text \<open>The first entries of both stack tables; the addresses of the two static stacks are arguments.\<close>

definition TSS_init :: "x86_crate \<Rightarrow> u64 \<Rightarrow> u64 \<Rightarrow> TaskStateSegment option" where
  "TSS_init X STACK0 STACK1 =
     (case virt_add X STACK0 TSS_STACK_SIZE of
        None \<Rightarrow> None
      | Some p \<Rightarrow>
          (case virt_add X STACK1 TSS_STACK_SIZE of
             None \<Rightarrow> None
           | Some i \<Rightarrow> Some \<lparr>privilege_stack = p, interrupt_stack = i\<rparr>))"

definition kernel_stack_top_addr :: "TaskStateSegment \<Rightarrow> u64" where
  "kernel_stack_top_addr tss = privilege_stack tss"

definition GDT_init :: "(Descriptor \<Rightarrow> 'g \<Rightarrow> u16 \<times> 'g) \<Rightarrow> 'g \<Rightarrow> 'g \<times> Selectors" where
  "GDT_init add_entry gdt =
     (let (code_sel, gdt) = add_entry kernel_code_segment gdt;
          (data_sel, gdt) = add_entry kernel_data_segment gdt;
          (user_data_sel, gdt) = add_entry user_data_segment gdt;
          (user_code_sel, gdt) = add_entry user_code_segment gdt;
          (tss_sel, gdt) = add_entry tss_segment gdt
      in (gdt, \<lparr>code_selector = code_sel, data_selector = data_sel, user_code_selector = user_code_sel,
           user_data_selector = user_data_sel, tss_selector = tss_sel\<rparr>))"

record segment_regs =
  CS_reg :: u16
  SS_reg :: u16
  TR_reg :: u16

definition gdt_init :: "Selectors \<Rightarrow> segment_regs \<Rightarrow> segment_regs" where
  "gdt_init sel r = r\<lparr>CS_reg := code_selector sel, SS_reg := data_selector sel, TR_reg := tss_selector sel\<rparr>"

section \<open>The transition to user mode\<close>

definition validate_user_mode_transition :: "u64 \<Rightarrow> u64 \<Rightarrow> bool" where
  "validate_user_mode_transition code_addr_raw stack_addr_raw =
     (if code_addr_raw < 0x400000 \<or> code_addr_raw > 0x7FFFFFFF then False
      else if stack_addr_raw < 0x600000 \<or> stack_addr_raw > 0x7FFFFFFF then False
      else if code_addr_raw mod 16 \<noteq> 0 \<or> stack_addr_raw mod 16 \<noteq> 0 then False
      else let stack_bottom = stack_addr_raw - 4096
           in if stack_bottom \<le> code_addr_raw \<and> code_addr_raw \<le> stack_addr_raw then False
              else True)"

definition setup_secure_rflags :: u64 where
  "setup_secure_rflags =
     (let f = 0x202;
          f = f OR 0x1;
          f = f AND NOT 0x4;
          f = f AND NOT 0x8;
          f = f AND NOT 0x10;
          f = f AND NOT 0x20;
          f = f AND NOT 0x3000
      in f)"

text \<open>The range that \<^verbatim>\<open>setup_stack_protection\<close> prints and whether it warns; it changes nothing.\<close>

definition setup_stack_protection :: "u64 \<Rightarrow> (u64 \<times> u64) \<times> bool" where
  "setup_stack_protection stack_top =
     (let stack_bottom = stack_top - 4096 in ((stack_bottom, stack_top), stack_bottom < 0x400000))"

text \<open>
  \<^verbatim>\<open>jump_to_user_mode\<close>: a refused transition panics. Otherwise the timer learns the current
  process and the five words are pushed for \<^verbatim>\<open>iretq\<close>.
\<close>

definition jump_to_user_mode ::
    "Selectors \<Rightarrow> u64 \<Rightarrow> u64 \<Rightarrow> u64 \<Rightarrow> cpu_state \<times> TimeoutManager \<Rightarrow> (cpu_state \<times> TimeoutManager) option" where
  "jump_to_user_mode sel code_addr stack_addr current_pid =
     (\<lambda>(s, manager).
        if \<not> validate_user_mode_transition code_addr stack_addr then None
        else
          let data_sel = ucast (user_data_selector sel OR 3);
              code_sel = ucast (user_code_selector sel OR 3);
              manager = start_user_mode current_pid manager;
              secure_rflags = setup_secure_rflags;
              s = push_u64 data_sel s;
              s = push_u64 stack_addr s;
              s = push_u64 secure_rflags s;
              s = push_u64 code_sel s;
              s = push_u64 code_addr s
          in Some (exec_instr (\<lambda>_ s. s) 0 Iretq s, manager))"

section \<open>The registers of the syscall instruction\<close>

record msrs =
  EFER_SCE :: bool
  SFMASK :: u64
  GsBase :: u64
  KernelGsBase :: u64
  STAR :: "u16 \<times> u16"
  LSTAR :: u64

definition INTERRUPT_FLAG :: u64 where
  "INTERRUPT_FLAG = 0x200"

definition DIRECTION_FLAG :: u64 where
  "DIRECTION_FLAG = 0x400"

text \<open>
  \<open>data_addr\<close> and \<open>entry\<close> are the addresses of \<^verbatim>\<open>CPU_DATA\<close> and of the entry point; the
  writer of \<^verbatim>\<open>STAR\<close> returns the two bases it stores, or an error.
\<close>

definition syscall_init ::
    "(u16 \<Rightarrow> u16 \<Rightarrow> u16 \<Rightarrow> u16 \<Rightarrow> unit + u16 \<times> u16) \<Rightarrow> Selectors \<Rightarrow> TaskStateSegment \<Rightarrow> u64 \<Rightarrow> u64
      \<Rightarrow> msrs \<times> 'z CpuData_scheme \<Rightarrow> (msrs \<times> 'z CpuData_scheme) option" where
  "syscall_init star_write sel tss data_addr entry =
     (\<lambda>(r, c).
        let r = r\<lparr>EFER_SCE := True, SFMASK := INTERRUPT_FLAG\<rparr>;
            c = c\<lparr>kernel_stack_top := kernel_stack_top_addr tss\<rparr>;
            r = r\<lparr>GsBase := data_addr, KernelGsBase := data_addr\<rparr>
        in case star_write (user_code_selector sel OR 3) (user_data_selector sel OR 3) (code_selector sel) (data_selector sel) of
             Inl _ \<Rightarrow> None
           | Inr star \<Rightarrow> Some (r\<lparr>STAR := star, LSTAR := entry, SFMASK := INTERRUPT_FLAG OR DIRECTION_FLAG\<rparr>, c))"

section \<open>Contracts of the crate\<close>

definition descriptor_ring :: "Descriptor \<Rightarrow> u16" where
  "descriptor_ring d = (if d = user_data_segment \<or> d = user_code_segment then 3 else 0)"

text \<open>
  The table starts with the null descriptor; an entry is added behind the last one, two for a task
  state segment; its selector is the index times eight with the ring of the descriptor.
\<close>

definition gdt_spec :: "(Descriptor \<Rightarrow> 'g \<Rightarrow> u16 \<times> 'g) \<Rightarrow> 'g \<Rightarrow> ('g \<Rightarrow> nat) \<Rightarrow> bool" where
  "gdt_spec add_entry gdt entries \<longleftrightarrow> entries gdt = 1
   \<and> (\<forall>d g. entries g < 7 \<longrightarrow> fst (add_entry d g) = of_nat (8 * entries g) OR descriptor_ring d
        \<and> entries (snd (add_entry d g)) = entries g + (if d = tss_segment then 2 else 1))"

text \<open>
  \<^verbatim>\<open>Star::write\<close> accepts selectors at the right distance and with the right privileges, and
  stores the bases from which the processor computes the selectors again.
\<close>

definition star_spec :: "(u16 \<Rightarrow> u16 \<Rightarrow> u16 \<Rightarrow> u16 \<Rightarrow> unit + u16 \<times> u16) \<Rightarrow> bool" where
  "star_spec star_write \<longleftrightarrow> (\<forall>cs_sysret ss_sysret cs_syscall ss_syscall.
     star_write cs_sysret ss_sysret cs_syscall ss_syscall =
       (if uint cs_sysret - 16 \<noteq> uint ss_sysret - 8 \<or> uint cs_syscall \<noteq> uint ss_syscall - 8
           \<or> ss_sysret AND 3 \<noteq> 3 \<or> ss_syscall AND 3 \<noteq> 0
        then Inl () else Inr (ss_sysret - 8, cs_syscall)))"

text \<open>The selectors that \<^verbatim>\<open>sysretq\<close> and \<^verbatim>\<open>syscall\<close> load.\<close>

definition sysret_cs :: "msrs \<Rightarrow> u16" where
  "sysret_cs r = (fst (STAR r) + 16) OR 3"

definition sysret_ss :: "msrs \<Rightarrow> u16" where
  "sysret_ss r = (fst (STAR r) + 8) OR 3"

definition syscall_cs :: "msrs \<Rightarrow> u16" where
  "syscall_cs r = snd (STAR r)"

definition syscall_ss :: "msrs \<Rightarrow> u16" where
  "syscall_ss r = snd (STAR r) + 8"

section \<open>Selectors agree\<close>

lemma GDT_selectors:
  assumes "gdt_spec add_entry gdt entries"
  shows "snd (GDT_init add_entry gdt) = \<lparr>code_selector = 0x08, data_selector = 0x10, user_code_selector = 0x23,
    user_data_selector = 0x1B, tss_selector = 0x28\<rparr>"
proof -
  have a: "fst (add_entry d g) = of_nat (8 * entries g) OR descriptor_ring d"
    "entries (snd (add_entry d g)) = entries g + (if d = tss_segment then 2 else 1)" if "entries g < 7" for d g
    using assms that unfolding gdt_spec_def by blast+
  have "entries gdt = 1" using assms by (simp add: gdt_spec_def)
  then show ?thesis by (simp add: GDT_init_def split_beta Let_def a descriptor_ring_def)
qed

text \<open>
  C37 (User mode segments). Configuring the \<^verbatim>\<open>syscall\<close> instruction does not panic. The
  selectors that \<^verbatim>\<open>sysretq\<close> loads are those of the user segments in the descriptor table,
  with privilege level three, and the ones with which user mode is first entered; the selectors
  that \<^verbatim>\<open>syscall\<close> loads are those of the kernel segments, as after \<^verbatim>\<open>gdt::init\<close>;
  and the handler runs on the kernel stack of the task state segment with interrupts masked.
\<close>

theorem segments_agree:
  fixes gdt add_entry
  defines "sel \<equiv> snd (GDT_init add_entry gdt)"
  assumes "gdt_spec add_entry gdt entries" and "star_spec star_write"
  shows "\<exists>r' c'. syscall_init star_write sel tss data_addr entry (r, c) = Some (r', c')
    \<and> sysret_cs r' = user_code_selector sel \<and> sysret_ss r' = user_data_selector sel
    \<and> sysret_cs r' AND 3 = 3 \<and> sysret_ss r' AND 3 = 3
    \<and> sysret_cs r' = user_code_selector sel OR 3 \<and> sysret_ss r' = user_data_selector sel OR 3
    \<and> syscall_cs r' = CS_reg (gdt_init sel regs) \<and> syscall_ss r' = SS_reg (gdt_init sel regs)
    \<and> kernel_stack_top c' = privilege_stack tss \<and> SFMASK r' AND INTERRUPT_FLAG \<noteq> 0"
  using assms(3) unfolding sel_def GDT_selectors [OF assms(2)] star_spec_def
  by (simp add: syscall_init_def Let_def sysret_cs_def sysret_ss_def syscall_cs_def syscall_ss_def gdt_init_def
      kernel_stack_top_addr_def INTERRUPT_FLAG_def DIRECTION_FLAG_def)

definition count_gdt :: "Descriptor \<Rightarrow> nat \<Rightarrow> u16 \<times> nat" where
  "count_gdt d n = (of_nat (8 * n) OR descriptor_ring d, n + (if d = tss_segment then 2 else 1))"

definition checked_star :: "u16 \<Rightarrow> u16 \<Rightarrow> u16 \<Rightarrow> u16 \<Rightarrow> unit + u16 \<times> u16" where
  "checked_star cs_sysret ss_sysret cs_syscall ss_syscall =
     (if uint cs_sysret - 16 \<noteq> uint ss_sysret - 8 \<or> uint cs_syscall \<noteq> uint ss_syscall - 8
         \<or> ss_sysret AND 3 \<noteq> 3 \<or> ss_syscall AND 3 \<noteq> 0
      then Inl () else Inr (ss_sysret - 8, cs_syscall))"

theorem segments_agree_witness:
  "\<exists>r' c'. syscall_init checked_star (snd (GDT_init count_gdt 1)) \<lparr>privilege_stack = 0x5000, interrupt_stack = 0xA000\<rparr> 0x1000 0x2000
      (\<lparr>EFER_SCE = False, SFMASK = 0, GsBase = 0, KernelGsBase = 0, STAR = (0, 0), LSTAR = 0\<rparr>, CPU_DATA_init) = Some (r', c')
    \<and> sysret_cs r' = user_code_selector (snd (GDT_init count_gdt 1))"
proof -
  have "gdt_spec count_gdt 1 (\<lambda>n. n)" by (simp add: gdt_spec_def count_gdt_def)
  moreover have "star_spec checked_star" by (simp add: star_spec_def checked_star_def)
  ultimately show ?thesis
    using segments_agree [of count_gdt 1 "\<lambda>n. n" checked_star "\<lparr>privilege_stack = 0x5000, interrupt_stack = 0xA000\<rparr>"
        "0x1000" "0x2000" "\<lparr>EFER_SCE = False, SFMASK = 0, GsBase = 0, KernelGsBase = 0, STAR = (0, 0), LSTAR = 0\<rparr>" CPU_DATA_init]
    by blast
qed

section \<open>Entering user mode\<close>

lemma start_user_mode_active: "user_mode_active (start_user_mode pid m)" "current_user_pid (start_user_mode pid m) = pid"
  by (simp_all add: start_user_mode_def Let_def update_timeout_def register_process_def split: option.split)

lemma secure_rflags_value: "setup_secure_rflags = 0x203"
  by (simp add: setup_secure_rflags_def)

text \<open>
  What the check of the addresses accepts: 16 byte aligned addresses in the user range whose code
  address is outside the page below the stack pointer.
\<close>

lemma validate_user_mode_transition_iff:
  "validate_user_mode_transition code_addr stack_addr \<longleftrightarrow>
     0x400000 \<le> unat code_addr \<and> unat code_addr \<le> 0x7FFFFFFF \<and> 0x600000 \<le> unat stack_addr \<and> unat stack_addr \<le> 0x7FFFFFFF
   \<and> code_addr mod 16 = 0 \<and> stack_addr mod 16 = 0
   \<and> (unat code_addr + 4096 < unat stack_addr \<or> unat stack_addr < unat code_addr)"
proof (cases "0x600000 \<le> unat stack_addr")
  case True
  define A B where "A \<longleftrightarrow> code_addr mod 16 = 0" and "B \<longleftrightarrow> stack_addr mod 16 = 0"
  have "unat (stack_addr - 4096) = unat stack_addr - 4096" using True by (simp add: unat_sub word_le_nat_alt)
  with True show ?thesis
    unfolding validate_user_mode_transition_def Let_def A_def [symmetric] B_def [symmetric]
    by (auto simp: word_le_nat_alt word_less_nat_alt)
next
  case False
  then show ?thesis by (auto simp: validate_user_mode_transition_def Let_def word_less_nat_alt)
qed

lemma iretq_pushed:
  fixes s
  defines "b \<equiv> x_regs s RSP - 40"
  shows "exec_instr F ra Iretq (push_u64 v5 (push_u64 v4 (push_u64 v3 (push_u64 v2 (push_u64 v1 s))))) =
    (set_reg RSP v2 s)\<lparr>x_mem := push_words [v1, v2, v3, v4, v5] (x_regs s RSP) (x_mem s),
       x_rip := v5, x_cs := v4, x_rflags := v3, x_ss := v1\<rparr>"
proof -
  let ?m = "push_words [v1, v2, v3, v4, v5] (x_regs s RSP) (x_mem s)"
  have r: "read_u64 (b + of_nat (8 * i)) ?m = [v5, v4, v3, v2, v1] ! i" if "i < 5" for i
    using read_push_words [of i "[v1, v2, v3, v4, v5]" b "x_mem s"] that by (simp add: b_def)
  have "push_u64 v5 (push_u64 v4 (push_u64 v3 (push_u64 v2 (push_u64 v1 s)))) = (set_reg RSP b s)\<lparr>x_mem := ?m\<rparr>"
    by (simp add: push_u64_def Let_def set_reg_def b_def)
  then show ?thesis
    using r [of 0] r [of 1] r [of 2] r [of 3] r [of 4]
    by (simp only: exec_instr.simps Let_def) (simp add: set_reg_def)
qed


end
