(* ===== verification/Ruix_Testing.thy ===== *)
theory Ruix_Testing
  imports Ruix_Error "HOL-Library.Monad_Syntax"
begin

text \<open>
  The test framework (\<^verbatim>\<open>src/testing.rs\<close>) and the checks at boot
  (\<^verbatim>\<open>src/testing/boot_check.rs\<close>). A test is a function on the state of the kernel, which
  is a parameter; running it also advances the counter behind \<^verbatim>\<open>get_current_time\<close>. A
  panic in a test stops the kernel; it is the value \<^verbatim>\<open>None\<close>. The
  format \<^verbatim>\<open>{:?}\<close> of kernel errors is a parameter as well.
\<close>

section \<open>Tests\<close>

datatype TestError =
    AssertionFailed string
  | ExpectedPanic
  | UnexpectedPanic string
  | TestTimeout
  | SetupFailed string
  | TeardownFailed string
  | ResourceUnavailable string

definition TestError_display :: "TestError \<Rightarrow> string" where
  "TestError_display e = (case e of
     AssertionFailed msg \<Rightarrow> ''Assertion failed: '' @ msg
   | ExpectedPanic \<Rightarrow> ''Expected panic but didn't panic''
   | UnexpectedPanic msg \<Rightarrow> ''Unexpected panic: '' @ msg
   | TestTimeout \<Rightarrow> ''Test timed out''
   | SetupFailed msg \<Rightarrow> ''Setup failed: '' @ msg
   | TeardownFailed msg \<Rightarrow> ''Teardown failed: '' @ msg
   | ResourceUnavailable msg \<Rightarrow> ''Resource unavailable: '' @ msg)"

definition TestError_from :: "(KernelError \<Rightarrow> string) \<Rightarrow> KernelError \<Rightarrow> TestError" where
  "TestError_from debug error = AssertionFailed (''Kernel error: '' @ debug error)"

datatype TestCategory = Unit | Integration | System | Performance | Stress | MemoryTests | ProcessTests | Ipc | Hardware

record TestMetadata =
  tm_name :: string
  description :: string
  category :: TestCategory
  expected_time_ms :: u64
  requires_setup :: bool
  might_panic :: bool

text \<open>The counter of the framework beside the state of the kernel.\<close>

record 's test_env =
  TIME_COUNTER :: u64
  kernel_state :: 's

type_synonym 's TestFunction = "'s test_env \<Rightarrow> ((TestError + unit) \<times> 's test_env) option"

record 's TestCase =
  tc_metadata :: TestMetadata
  test_fn :: "'s TestFunction"
  setup_fn :: "'s TestFunction option"
  teardown_fn :: "'s TestFunction option"

definition TestCase_new :: "string \<Rightarrow> string \<Rightarrow> TestCategory \<Rightarrow> 's TestFunction \<Rightarrow> 's TestCase" where
  "TestCase_new n d c f =
     \<lparr>tc_metadata = \<lparr>tm_name = n, description = d, category = c, expected_time_ms = 1000, requires_setup = False, might_panic = False\<rparr>,
      test_fn = f, setup_fn = None, teardown_fn = None\<rparr>"

definition with_expected_time :: "u64 \<Rightarrow> 's TestCase \<Rightarrow> 's TestCase" where
  "with_expected_time time_ms t = t\<lparr>tc_metadata := (tc_metadata t)\<lparr>expected_time_ms := time_ms\<rparr>\<rparr>"

definition with_setup :: "'s TestFunction \<Rightarrow> 's TestCase \<Rightarrow> 's TestCase" where
  "with_setup f t = t\<lparr>setup_fn := Some f, tc_metadata := (tc_metadata t)\<lparr>requires_setup := True\<rparr>\<rparr>"

definition with_teardown :: "'s TestFunction \<Rightarrow> 's TestCase \<Rightarrow> 's TestCase" where
  "with_teardown f t = t\<lparr>teardown_fn := Some f\<rparr>"

definition TestCase_might_panic :: "'s TestCase \<Rightarrow> 's TestCase" where
  "TestCase_might_panic t = t\<lparr>tc_metadata := (tc_metadata t)\<lparr>might_panic := True\<rparr>\<rparr>"

record TestExecutionResult =
  test_name :: string
  success :: bool
  duration_ms :: u64
  test_error :: "TestError option"
  captured :: "string list"

definition testing_get_current_time :: "'s test_env \<Rightarrow> u64 \<times> 's test_env" where
  "testing_get_current_time e = (TIME_COUNTER e + 1, e\<lparr>TIME_COUNTER := TIME_COUNTER e + 1\<rparr>)"

definition run_normal_test :: "'s TestCase \<Rightarrow> 's TestFunction" where
  "run_normal_test t e = test_fn t e"

definition run_panic_test :: "'s TestCase \<Rightarrow> 's TestFunction" where
  "run_panic_test t e = test_fn t e"

text \<open>The result record, after the second reading of the counter.\<close>

definition test_result :: "'s TestCase \<Rightarrow> u64 \<Rightarrow> TestError option \<Rightarrow> 's test_env \<Rightarrow> TestExecutionResult \<times> 's test_env" where
  "test_result t start_time err e =
     (let (now, e) = testing_get_current_time e
      in (\<lparr>test_name = tm_name (tc_metadata t), success = (err = None), duration_ms = now - start_time,
           test_error = err, captured = []\<rparr>, e))"

definition run_optional :: "'s TestFunction option \<Rightarrow> 's TestFunction" where
  "run_optional f e = (case f of None \<Rightarrow> Some (Inr (), e) | Some g \<Rightarrow> g e)"

definition TestCase_run :: "'s TestCase \<Rightarrow> 's test_env \<Rightarrow> (TestExecutionResult \<times> 's test_env) option" where
  "TestCase_run t e = do {
     let (start_time, e) = testing_get_current_time e;
     (set_up, e) \<leftarrow> run_optional (setup_fn t) e;
     case set_up of
       Inl err \<Rightarrow> Some (test_result t start_time (Some (SetupFailed (TestError_display err))) e)
     | Inr _ \<Rightarrow> do {
         (result, e) \<leftarrow> (if might_panic (tc_metadata t) then run_panic_test t e else run_normal_test t e);
         (torn_down, e) \<leftarrow> run_optional (teardown_fn t) e;
         case torn_down of
           Inl err \<Rightarrow> Some (test_result t start_time (Some (TeardownFailed (TestError_display err))) e)
         | Inr _ \<Rightarrow> Some (test_result t start_time (case result of Inl err \<Rightarrow> Some err | Inr _ \<Rightarrow> None) e)
       }
   }"

section \<open>Suites\<close>

record SuiteMetadata =
  suite_description :: string
  suite_category :: TestCategory
  suite_expected_time_ms :: u64

record 's TestSuite =
  suite_label :: string
  tests :: "'s TestCase list"
  suite_metadata :: SuiteMetadata

definition TestSuite_new :: "string \<Rightarrow> string \<Rightarrow> TestCategory \<Rightarrow> 's TestSuite" where
  "TestSuite_new n d c =
     \<lparr>suite_label = n, tests = [],
      suite_metadata = \<lparr>suite_description = d, suite_category = c, suite_expected_time_ms = 0\<rparr>\<rparr>"

definition add_test :: "'s TestCase \<Rightarrow> 's TestSuite \<Rightarrow> 's TestSuite" where
  "add_test t S =
     (let md = suite_metadata S
      in S\<lparr>suite_metadata := md\<lparr>suite_expected_time_ms := suite_expected_time_ms md + expected_time_ms (tc_metadata t)\<rparr>,
           tests := tests S @ [t]\<rparr>)"

record SuiteResult =
  suite_name :: string
  total_tests :: usize
  passed :: usize
  failed :: usize
  total_time_ms :: u64
  results :: "TestExecutionResult list"

text \<open>The loop with its two counters.\<close>

fun run_tests :: "'s TestCase list \<Rightarrow> usize \<times> usize \<times> TestExecutionResult list \<Rightarrow> 's test_env
    \<Rightarrow> ((usize \<times> usize \<times> TestExecutionResult list) \<times> 's test_env) option" where
  "run_tests [] acc e = Some (acc, e)"
| "run_tests (t # ts) (p, f, rs) e = do {
     (result, e) \<leftarrow> TestCase_run t e;
     if success result then run_tests ts (p + 1, f, rs @ [result]) e
     else run_tests ts (p, f + 1, rs @ [result]) e
   }"

definition TestSuite_run :: "'s TestSuite \<Rightarrow> 's test_env \<Rightarrow> (SuiteResult \<times> 's test_env) option" where
  "TestSuite_run S e = do {
     let (start_time, e) = testing_get_current_time e;
     ((p, f, rs), e) \<leftarrow> run_tests (tests S) (0, 0, []) e;
     let (now, e) = testing_get_current_time e;
     Some (\<lparr>suite_name = suite_label S, total_tests = of_nat (length (tests S)), passed = p, failed = f,
            total_time_ms = now - start_time, results = rs\<rparr>, e)
   }"

definition SuiteResult_all_passed :: "SuiteResult \<Rightarrow> bool" where
  "SuiteResult_all_passed r \<longleftrightarrow> failed r = 0"

type_synonym 's TestRegistry = "'s TestSuite list"

definition TestRegistry_new :: "'s TestRegistry" where
  "TestRegistry_new = []"

definition add_suite :: "'s TestSuite \<Rightarrow> 's TestRegistry \<Rightarrow> 's TestRegistry" where
  "add_suite S R = R @ [S]"

fun run_all :: "'s TestRegistry \<Rightarrow> 's test_env \<Rightarrow> (SuiteResult list \<times> 's test_env) option" where
  "run_all [] e = Some ([], e)"
| "run_all (S # R) e = do {
     (r, e) \<leftarrow> TestSuite_run S e;
     (rs, e) \<leftarrow> run_all R e;
     Some (r # rs, e)
   }"

definition run_category :: "TestCategory \<Rightarrow> 's TestRegistry \<Rightarrow> 's test_env \<Rightarrow> (SuiteResult list \<times> 's test_env) option" where
  "run_category c R e = run_all (filter (\<lambda>S. suite_category (suite_metadata S) = c) R) e"

definition test_registry :: "'s TestRegistry option \<Rightarrow> 's TestRegistry" where
  "test_registry TEST_REGISTRY = (case TEST_REGISTRY of None \<Rightarrow> TestRegistry_new | Some R \<Rightarrow> R)"

definition run_all_tests :: "'s TestRegistry option \<Rightarrow> 's test_env \<Rightarrow> (unit KernelResult \<times> 's test_env) option" where
  "run_all_tests TEST_REGISTRY e = do {
     (rs, e) \<leftarrow> run_all (test_registry TEST_REGISTRY) e;
     let total_suites = length rs;
     let total_passed = length (filter SuiteResult_all_passed rs);
     let total_failed = total_suites - total_passed;
     if total_failed = 0 then Some (Inr (), e) else Some (Inl (General Internal), e)
   }"

section \<open>Assertions\<close>

text \<open>The macros return an error from the test; the text of the expression is an argument.\<close>

definition assert_eq :: "string \<Rightarrow> string \<Rightarrow> 'a \<Rightarrow> 'a \<Rightarrow> TestError + unit" where
  "assert_eq l r left right =
     (if left \<noteq> right then Inl (AssertionFailed (''assertion failed: '' @ l @ '' != '' @ r)) else Inr ())"

definition assert_ne :: "string \<Rightarrow> string \<Rightarrow> 'a \<Rightarrow> 'a \<Rightarrow> TestError + unit" where
  "assert_ne l r left right =
     (if left = right then Inl (AssertionFailed (''assertion failed: '' @ l @ '' == '' @ r)) else Inr ())"

definition assert_true :: "string \<Rightarrow> bool \<Rightarrow> TestError + unit" where
  "assert_true x b = (if \<not> b then Inl (AssertionFailed (''assertion failed: '' @ x @ '' is not true'')) else Inr ())"

definition assert_false :: "string \<Rightarrow> bool \<Rightarrow> TestError + unit" where
  "assert_false x b = (if b then Inl (AssertionFailed (''assertion failed: '' @ x @ '' is not false'')) else Inr ())"

definition assert_ok :: "('e \<Rightarrow> string) \<Rightarrow> 'e + 'a \<Rightarrow> TestError + unit" where
  "assert_ok debug r = (case r of
     Inr _ \<Rightarrow> Inr ()
   | Inl e \<Rightarrow> Inl (AssertionFailed (''expected Ok, got Err: '' @ debug e)))"

definition assert_err :: "('a \<Rightarrow> string) \<Rightarrow> 'e + 'a \<Rightarrow> TestError + unit" where
  "assert_err debug r = (case r of
     Inr v \<Rightarrow> Inl (AssertionFailed (''expected Err, got Ok: '' @ debug v))
   | Inl _ \<Rightarrow> Inr ())"

lemmas assert_defs = assert_eq_def assert_ne_def assert_true_def assert_false_def assert_ok_def assert_err_def

section \<open>Checks at boot\<close>

datatype TestPhase = BasicSystem | MemoryAllocation | ProcessCreation | Syscalls | IpcSystem

record BootTestResult =
  phase :: TestPhase
  bt_name :: string
  bt_passed :: bool
  details :: string

record BootChecker =
  test_results :: "BootTestResult list"
  current_phase :: TestPhase

definition BootChecker_new :: BootChecker where
  "BootChecker_new = \<lparr>test_results = [], current_phase = BasicSystem\<rparr>"

definition add_result :: "string \<Rightarrow> bool \<Rightarrow> string \<Rightarrow> BootChecker \<Rightarrow> BootChecker" where
  "add_result n ok d B = B\<lparr>test_results := test_results B @ [\<lparr>phase = current_phase B, bt_name = n, bt_passed = ok, details = d\<rparr>]\<rparr>"

definition BootChecker_all_passed :: "BootChecker \<Rightarrow> bool" where
  "BootChecker_all_passed B \<longleftrightarrow> list_all bt_passed (test_results B)"

definition get_failed_tests :: "BootChecker \<Rightarrow> BootTestResult list" where
  "get_failed_tests B = filter (\<lambda>r. \<not> bt_passed r) (test_results B)"

text \<open>A vector is its capacity and its elements; a new one has capacity zero.\<close>

definition test_small_allocation :: bool where
  "test_small_allocation \<longleftrightarrow> (let test_vec = (0 :: usize, [] :: u8 list) in fst test_vec = 0)"

definition test_vector_allocation :: bool where
  "test_vector_allocation \<longleftrightarrow>
     (let vec = [] :: i32 list; vec = vec @ [1]; vec = vec @ [2]; vec = vec @ [3]
      in length vec = 3 \<and> vec ! 0 = 1 \<and> vec ! 2 = 3)"

definition test_string_allocation :: bool where
  "test_string_allocation \<longleftrightarrow> (let s = [] @ ''test'' in length s = 4 \<and> s = ''test'')"

definition test_scheduler_access :: bool where
  "test_scheduler_access \<longleftrightarrow> True"

definition test_pid_system :: "u64 \<Rightarrow> bool" where
  "test_pid_system current_pid \<longleftrightarrow> current_pid \<ge> 0"

definition test_syscall_init :: bool where
  "test_syscall_init \<longleftrightarrow> True"

definition test_current_pid :: "u64 \<Rightarrow> bool" where
  "test_current_pid current_pid \<longleftrightarrow> current_pid \<ge> 0"

definition test_basic_system :: "BootChecker \<Rightarrow> unit KernelResult \<times> BootChecker" where
  "test_basic_system B =
     (let B = B\<lparr>current_phase := BasicSystem\<rparr>;
          B = add_result ''Basic printing'' True ''Serial output functional'' B;
          test_val = (42 :: i32) + 58;
          arithmetic_ok = (test_val = 100);
          B = add_result ''Basic arithmetic'' arithmetic_ok ''42 + 58 = 100'' B;
          allocation_ok = test_small_allocation;
          B = add_result ''Small allocation'' allocation_ok ''Can allocate small structures'' B
      in if \<not> arithmetic_ok \<or> \<not> allocation_ok then (Inl (General Internal), B) else (Inr (), B))"

definition test_memory_allocation :: "BootChecker \<Rightarrow> unit KernelResult \<times> BootChecker" where
  "test_memory_allocation B =
     (let B = B\<lparr>current_phase := MemoryAllocation\<rparr>;
          vector_ok = test_vector_allocation;
          B = add_result ''Vector allocation'' vector_ok ''Can allocate and grow vectors'' B;
          string_ok = test_string_allocation;
          B = add_result ''String allocation'' string_ok ''Can allocate and manipulate strings'' B
      in if \<not> vector_ok \<or> \<not> string_ok then (Inl (Memory OutOfMemory), B) else (Inr (), B))"

definition test_process_creation :: "u64 \<Rightarrow> BootChecker \<Rightarrow> unit KernelResult \<times> BootChecker" where
  "test_process_creation current_pid B =
     (let B = B\<lparr>current_phase := ProcessCreation\<rparr>;
          scheduler_ok = test_scheduler_access;
          B = add_result ''Scheduler access'' scheduler_ok ''Can access process scheduler'' B;
          pid_ok = test_pid_system current_pid;
          B = add_result ''PID system'' pid_ok ''Process ID system functional'' B
      in if \<not> scheduler_ok \<or> \<not> pid_ok then (Inl (KernelError.Process NotFound), B) else (Inr (), B))"

definition test_syscalls :: "u64 \<Rightarrow> BootChecker \<Rightarrow> unit KernelResult \<times> BootChecker" where
  "test_syscalls current_pid B =
     (let B = B\<lparr>current_phase := Syscalls\<rparr>;
          syscall_ok = test_syscall_init;
          B = add_result ''Syscall init'' syscall_ok ''System call system initialized'' B;
          pid_ok = test_current_pid current_pid;
          B = add_result ''Current PID'' pid_ok ''Can get current process ID'' B
      in if \<not> syscall_ok \<or> \<not> pid_ok then (Inl (Syscall InvalidArgs), B) else (Inr (), B))"

text \<open>The tests of a suite, and of all suites, in order.\<close>

fun run_boot_tests :: "'s TestCase list \<Rightarrow> BootChecker \<Rightarrow> 's test_env \<Rightarrow> (BootChecker \<times> 's test_env) option" where
  "run_boot_tests [] B e = Some (B, e)"
| "run_boot_tests (t # ts) B e = do {
     (result, e) \<leftarrow> TestCase_run t e;
     run_boot_tests ts (add_result (tm_name (tc_metadata t)) (success result)
       (if success result then ''Test passed''
        else case test_error result of Some err \<Rightarrow> TestError_display err | None \<Rightarrow> ''Test failed'') B) e
   }"

fun run_boot_suites :: "'s TestSuite list \<Rightarrow> BootChecker \<Rightarrow> 's test_env \<Rightarrow> (BootChecker \<times> 's test_env) option" where
  "run_boot_suites [] B e = Some (B, e)"
| "run_boot_suites (S # Ss) B e = do {
     (B, e) \<leftarrow> run_boot_tests (tests S) B e;
     run_boot_suites Ss B e
   }"

definition run_comprehensive_tests ::
    "'s TestSuite list \<Rightarrow> BootChecker \<Rightarrow> 's test_env \<Rightarrow> (unit KernelResult \<times> BootChecker \<times> 's test_env) option" where
  "run_comprehensive_tests test_suites B e = do {
     let B = B\<lparr>current_phase := IpcSystem\<rparr>;
     (B, e) \<leftarrow> run_boot_suites test_suites B e;
     Some (Inr (), B, e)
   }"

definition run_all_checks ::
    "'s TestSuite list \<Rightarrow> u64 \<Rightarrow> BootChecker \<Rightarrow> 's test_env \<Rightarrow> (unit KernelResult \<times> BootChecker \<times> 's test_env) option" where
  "run_all_checks test_suites current_pid B e =
     (case test_basic_system B of
        (Inl err, B) \<Rightarrow> Some (Inl err, B, e)
      | (Inr _, B) \<Rightarrow>
          (case test_memory_allocation B of
             (Inl err, B) \<Rightarrow> Some (Inl err, B, e)
           | (Inr _, B) \<Rightarrow>
               (case test_process_creation current_pid B of
                  (Inl err, B) \<Rightarrow> Some (Inl err, B, e)
                | (Inr _, B) \<Rightarrow>
                    (case test_syscalls current_pid B of
                       (Inl err, B) \<Rightarrow> Some (Inl err, B, e)
                     | (Inr _, B) \<Rightarrow> run_comprehensive_tests test_suites B e))))"

definition run_boot_checks :: "'s TestSuite list \<Rightarrow> u64 \<Rightarrow> 's test_env \<Rightarrow> (BootChecker KernelResult \<times> 's test_env) option" where
  "run_boot_checks test_suites current_pid e = do {
     (r, B, e) \<leftarrow> run_all_checks test_suites current_pid BootChecker_new e;
     case r of Inl err \<Rightarrow> Some (Inl err, e) | Inr _ \<Rightarrow> Some (Inr B, e)
   }"

definition quick_boot_check :: "unit KernelResult" where
  "quick_boot_check = Inr ()"

section \<open>Results of a suite\<close>

lemma test_result_fields:
  assumes "test_result t st err e = (r, e')"
  shows "success r = (test_error r = None)" and "test_name r = tm_name (tc_metadata t)"
  using assms by (auto simp: test_result_def testing_get_current_time_def)

lemma TestCase_run_result:
  assumes "TestCase_run t e = Some x"
  shows "\<exists>st err u. test_result t st err u = x"
proof -
  let ?u = "snd (testing_get_current_time e)"
  obtain a e1 where 1: "run_optional (setup_fn t) ?u = Some (a, e1)"
    using assms by (cases "run_optional (setup_fn t) ?u") (auto simp: TestCase_run_def Let_def split_beta)
  show ?thesis
  proof (cases a)
    case Inl
    with assms 1 show ?thesis by (auto simp: TestCase_run_def Let_def split_beta)
  next
    case Inr
    with assms 1 obtain b e2 where 2: "(if might_panic (tc_metadata t) then run_panic_test t e1 else run_normal_test t e1) = Some (b, e2)"
      by (auto simp: TestCase_run_def Let_def split_beta bind_eq_Some_conv simp del: if_split)
    with assms 1 Inr obtain c e3 where 3: "run_optional (teardown_fn t) e2 = Some (c, e3)"
      by (cases "run_optional (teardown_fn t) e2") (auto simp: TestCase_run_def Let_def split_beta)
    show ?thesis using assms 1 2 3 Inr by (cases c) (auto simp: TestCase_run_def Let_def split_beta)
  qed
qed

lemma TestCase_run_fields:
  assumes "TestCase_run t e = Some (r, e')"
  shows "success r = (test_error r = None)" and "test_name r = tm_name (tc_metadata t)"
  using TestCase_run_result [OF assms] test_result_fields by blast+

text \<open>The tests run one after the other, each in the state that the previous one left.\<close>

fun run_sequence :: "'s TestCase list \<Rightarrow> 's test_env \<Rightarrow> (TestExecutionResult list \<times> 's test_env) option" where
  "run_sequence [] e = Some ([], e)"
| "run_sequence (t # ts) e = do {
     (r, e) \<leftarrow> TestCase_run t e;
     (rs, e) \<leftarrow> run_sequence ts e;
     Some (r # rs, e)
   }"

lemma run_sequence_append:
  "run_sequence (xs @ ys) e = do {
     (rs, e) \<leftarrow> run_sequence xs e;
     (qs, e) \<leftarrow> run_sequence ys e;
     Some (rs @ qs, e)
   }"
  by (induction xs arbitrary: e) (simp_all add: case_prod_unfold)

lemma run_sequence_names:
  "run_sequence ts e = Some (rs, e') \<Longrightarrow> map test_name rs = map (\<lambda>t. tm_name (tc_metadata t)) ts"
proof (induction ts arbitrary: e rs)
  case (Cons t ts)
  then show ?case by (auto simp: bind_eq_Some_conv dest: TestCase_run_fields)
qed simp

lemma run_sequence_length: "run_sequence ts e = Some (rs, e') \<Longrightarrow> length rs = length ts"
  using run_sequence_names map_eq_imp_length_eq by metis

lemma run_tests_sequence:
  "run_tests ts (p, f, rs) e = map_option (\<lambda>(qs, e).
     ((p + of_nat (length (filter success qs)), f + of_nat (length (filter (\<lambda>r. \<not> success r) qs)), rs @ qs), e))
     (run_sequence ts e)"
proof (induction ts arbitrary: p f rs e)
  case (Cons t ts)
  show ?case
  proof (cases "TestCase_run t e")
    case (Some x)
    show ?thesis
      by (cases "run_sequence ts (snd x)") (simp_all add: Some case_prod_unfold Cons.IH ac_simps)
  qed simp
qed simp

text \<open>
  Results of a test suite. A suite runs its tests in order, each in the state the one before
  left behind. The counters add up to the number of tests and count the results that are marked
  as success, which are the ones without an error; the suite passes exactly when every test did.
\<close>

theorem suite_counts:
  assumes "length (tests S) < 2 ^ 64" and "TestSuite_run S e = Some (r, e')"
  shows "map_option fst (run_sequence (tests S) (snd (testing_get_current_time e))) = Some (results r)
    \<and> map test_name (results r) = map (\<lambda>t. tm_name (tc_metadata t)) (tests S)
    \<and> unat (passed r) + unat (failed r) = length (tests S) \<and> unat (total_tests r) = length (tests S)
    \<and> unat (passed r) = length (filter success (results r))
    \<and> (SuiteResult_all_passed r \<longleftrightarrow> (\<forall>x \<in> set (results r). success x))"
proof -
  obtain qs e1 where q: "run_sequence (tests S) (snd (testing_get_current_time e)) = Some (qs, e1)"
    using assms(2) by (auto simp: TestSuite_run_def Let_def case_prod_unfold run_tests_sequence bind_eq_Some_conv)
  let ?p = "length (filter success qs)" and ?f = "length (filter (\<lambda>x. \<not> success x) qs)"
  have s: "?p + ?f = length (tests S)" using sum_length_filter_compl [of success qs] run_sequence_length [OF q] by simp
  then have u: "unat (of_nat ?p :: usize) = ?p" "unat (of_nat ?f :: usize) = ?f"
      "unat (of_nat (length (tests S)) :: usize) = length (tests S)"
    using assms(1) by (simp_all add: unat_of_nat)
  have r: "results r = qs" "passed r = of_nat ?p" "failed r = of_nat ?f" "total_tests r = of_nat (length (tests S))"
    using assms(2) q by (auto simp: TestSuite_run_def Let_def case_prod_unfold run_tests_sequence)
  have "(of_nat ?f :: usize) = 0 \<longleftrightarrow> ?f = 0"
  proof
    assume "(of_nat ?f :: usize) = 0"
    then have "unat (of_nat ?f :: usize) = 0" by (simp only: unat_0)
    then show "?f = 0" unfolding u(2) .
  next
    assume z: "?f = 0"
    show "(of_nat ?f :: usize) = 0" unfolding z by simp
  qed
  then have "SuiteResult_all_passed r \<longleftrightarrow> ?f = 0" unfolding SuiteResult_all_passed_def r(3) .
  also have "\<dots> \<longleftrightarrow> (\<forall>x \<in> set qs. success x)" by (simp add: filter_empty_conv)
  finally show ?thesis using s u r q run_sequence_names [OF q] by simp
qed

text \<open>
  \<^verbatim>\<open>run_all_tests\<close> succeeds exactly when all suites pass; without a registered suite it
  succeeds.
\<close>

lemma run_all_tests_iff:
  assumes "run_all (test_registry R) e = Some (rs, e')"
  shows "run_all_tests R e = Some (if \<forall>r \<in> set rs. SuiteResult_all_passed r then Inr () else Inl (General Internal), e')"
proof -
  have "length rs - length (filter SuiteResult_all_passed rs) = length (filter (\<lambda>x. \<not> SuiteResult_all_passed x) rs)"
    using sum_length_filter_compl [of SuiteResult_all_passed rs] by linarith
  then have "length rs - length (filter SuiteResult_all_passed rs) = 0 \<longleftrightarrow> (\<forall>r \<in> set rs. SuiteResult_all_passed r)"
    by (simp add: filter_empty_conv)
  then show ?thesis using assms by (simp only: run_all_tests_def Let_def) simp
qed

lemma run_all_tests_empty: "run_all_tests None e = Some (Inr (), e)"
  by (simp add: run_all_tests_def test_registry_def TestRegistry_new_def)

section \<open>The outcome of the boot checks\<close>

text \<open>The results of the checker are extended by those of the tests, whatever was checked before.\<close>

lemma run_boot_tests_sequence:
  "case run_sequence ts e of
     None \<Rightarrow> run_boot_tests ts B e = None
   | Some (rs, e') \<Rightarrow> \<exists>B'. run_boot_tests ts B e = Some (B', e')
       \<and> map bt_passed (test_results B') = map bt_passed (test_results B) @ map success rs"
proof (induction ts arbitrary: B e)
  case (Cons t ts)
  show ?case
  proof (cases "TestCase_run t e")
    case (Some x)
    then show ?thesis
      using Cons.IH [where e = "snd x" and B = "add_result (tm_name (tc_metadata t)) (success (fst x))
        (if success (fst x) then ''Test passed'' else case test_error (fst x) of Some err \<Rightarrow> TestError_display err | None \<Rightarrow> ''Test failed'') B"]
      by (cases "run_sequence ts (snd x)") (auto simp: case_prod_unfold add_result_def)
  qed simp
qed simp

lemma run_boot_suites_sequence:
  "case run_sequence (concat (map tests Ss)) e of
     None \<Rightarrow> run_boot_suites Ss B e = None
   | Some (rs, e') \<Rightarrow> \<exists>B'. run_boot_suites Ss B e = Some (B', e')
       \<and> map bt_passed (test_results B') = map bt_passed (test_results B) @ map success rs"
proof (induction Ss arbitrary: B e)
  case (Cons S Ss)
  show ?case
  proof (cases "run_sequence (tests S) e")
    case None
    then show ?thesis using run_boot_tests_sequence [where ts = "tests S" and e = e and B = B] by (simp add: run_sequence_append)
  next
    case (Some x)
    then obtain B1 where 1: "run_boot_tests (tests S) B e = Some (B1, snd x)"
        "map bt_passed (test_results B1) = map bt_passed (test_results B) @ map success (fst x)"
      using run_boot_tests_sequence [where ts = "tests S" and e = e and B = B] by (auto simp: case_prod_unfold)
    then show ?thesis
      using Cons.IH [where e = "snd x" and B = B1] Some
      by (cases "run_sequence (concat (map tests Ss)) (snd x)") (auto simp: run_sequence_append case_prod_unfold)
  qed
qed simp

lemma first_phases_pass:
  "\<exists>B. run_all_checks Ss pid BootChecker_new e = map_option (\<lambda>(B, e). (Inr (), B, e)) (run_boot_suites Ss B e)
     \<and> map bt_passed (test_results B) = replicate 9 True"
proof -
  have ok: "test_small_allocation" "test_vector_allocation" "test_string_allocation" "test_scheduler_access"
      "test_syscall_init" "test_pid_system pid" "test_current_pid pid"
    by (simp_all add: test_small_allocation_def test_vector_allocation_def test_string_allocation_def
        test_scheduler_access_def test_syscall_init_def test_pid_system_def test_current_pid_def)
  obtain B1 where 1: "test_basic_system BootChecker_new = (Inr (), B1)" "map bt_passed (test_results B1) = replicate 3 True"
    by (simp add: test_basic_system_def BootChecker_new_def add_result_def ok Let_def eval_nat_numeral)
  obtain B2 where 2: "test_memory_allocation B1 = (Inr (), B2)" "map bt_passed (test_results B2) = replicate 5 True"
    using 1(2) by (simp add: test_memory_allocation_def add_result_def ok Let_def eval_nat_numeral)
  obtain B3 where 3: "test_process_creation pid B2 = (Inr (), B3)" "map bt_passed (test_results B3) = replicate 7 True"
    using 2(2) by (simp add: test_process_creation_def add_result_def ok Let_def eval_nat_numeral)
  obtain B4 where 4: "test_syscalls pid B3 = (Inr (), B4)" "map bt_passed (test_results B4) = replicate 9 True"
    using 3(2) by (simp add: test_syscalls_def add_result_def ok Let_def eval_nat_numeral)
  let ?B = "B4\<lparr>current_phase := IpcSystem\<rparr>"
  have "run_all_checks Ss pid BootChecker_new e = map_option (\<lambda>(B, e). (Inr (), B, e)) (run_boot_suites Ss ?B e)"
    by (cases "run_boot_suites Ss ?B e")
      (simp_all add: run_all_checks_def 1(1) 2(1) 3(1) 4(1) run_comprehensive_tests_def Let_def split_beta)
  then show ?thesis using 4(2) by (intro exI [of _ ?B]) simp
qed

lemma boot_checks_outcome:
  "case run_sequence (concat (map tests Ss)) e of
     None \<Rightarrow> run_boot_checks Ss current_pid e = None
   | Some (rs, e') \<Rightarrow> \<exists>B. run_boot_checks Ss current_pid e = Some (Inr B, e')
       \<and> map bt_passed (test_results B) = replicate 9 True @ map success rs
       \<and> (BootChecker_all_passed B \<longleftrightarrow> (list_all success rs))
       \<and> (get_failed_tests B = [] \<longleftrightarrow> BootChecker_all_passed B)"
proof -
  obtain B0 where B0: "run_all_checks Ss current_pid BootChecker_new e =
      map_option (\<lambda>(B, e). (Inr (), B, e)) (run_boot_suites Ss B0 e)" "map bt_passed (test_results B0) = replicate 9 True"
    using first_phases_pass [of Ss current_pid e] by blast
  show ?thesis
  proof (cases "run_sequence (concat (map tests Ss)) e")
    case None
    then show ?thesis using run_boot_suites_sequence [where Ss = Ss and e = e and B = B0] by (simp add: run_boot_checks_def B0(1))
  next
    case (Some x)
    then obtain B where B: "run_boot_suites Ss B0 e = Some (B, snd x)"
        "map bt_passed (test_results B) = replicate 9 True @ map success (fst x)"
      using run_boot_suites_sequence [where Ss = Ss and e = e and B = B0] B0(2) by (auto simp: case_prod_unfold)
    have "BootChecker_all_passed B \<longleftrightarrow> list_all (\<lambda>b. b) (map bt_passed (test_results B))"
      by (simp only: BootChecker_all_passed_def list_all_iff) simp
    also have "\<dots> \<longleftrightarrow> list_all success (fst x)" unfolding B(2) by (simp add: list_all_iff)
    finally have "BootChecker_all_passed B \<longleftrightarrow> list_all success (fst x)" .
    moreover have "get_failed_tests B = [] \<longleftrightarrow> BootChecker_all_passed B"
      by (simp add: get_failed_tests_def BootChecker_all_passed_def filter_empty_conv list_all_iff)
    ultimately show ?thesis using B Some by (simp add: run_boot_checks_def B0(1) split_beta)
  qed
qed


definition passing_test :: "unit TestCase" where
  "passing_test = TestCase_new ''ok'' ''passes'' Unit (\<lambda>e. Some (Inr (), e))"

definition failing_test :: "unit TestCase" where
  "failing_test = with_setup (\<lambda>e. Some (Inl TestTimeout, e)) (TestCase_new ''bad'' ''fails'' Unit (\<lambda>e. Some (Inr (), e)))"

definition example_suite :: "unit TestSuite" where
  "example_suite = add_test failing_test (add_test passing_test (TestSuite_new ''suite'' ''two tests'' Unit))"

theorem suite_counts_witness:
  "\<exists>r e'. TestSuite_run example_suite \<lparr>TIME_COUNTER = 0, kernel_state = ()\<rparr> = Some (r, e') \<and> unat (passed r) + unat (failed r) = 2"
proof -
  obtain r e' where r: "TestSuite_run example_suite \<lparr>TIME_COUNTER = 0, kernel_state = ()\<rparr> = Some (r, e')"
    by (simp add: TestSuite_run_def example_suite_def add_test_def TestSuite_new_def passing_test_def failing_test_def
        with_setup_def TestCase_new_def TestCase_run_def run_optional_def run_normal_test_def test_result_def
        testing_get_current_time_def Let_def)
  have "length (tests example_suite) = 2" by (simp add: example_suite_def add_test_def TestSuite_new_def Let_def)
  moreover from this have "length (tests example_suite) < 2 ^ 64" by simp
  ultimately show ?thesis using suite_counts [OF _ r] r by simp
qed

end
