(* ===== verification/Ruix_Memory.thy ===== *)
theory Ruix_Memory
  imports Ruix_Interfaces Ruix_X86 Ruix_Mem
begin

text \<open>
  Physical frames and page tables (\<^verbatim>\<open>src/memory.rs\<close>): the allocator that hands out the
  usable frames of the boot loader's memory map, the walk of the four levels of page tables that
  translates an address, and the mapping of user pages with the user bit set at every level.
  Page tables are words in memory. The boot loader's memory map, the methods of page table
  entries and \<^verbatim>\<open>Mapper::map_to\<close> are parameters.
\<close>

section \<open>The frame allocator\<close>

text \<open>
  A region of the boot loader's memory map: the results of \<^verbatim>\<open>range.start_addr()\<close> and
  \<^verbatim>\<open>range.end_addr()\<close>, and whether \<^verbatim>\<open>region_type\<close> is \<^verbatim>\<open>Usable\<close>.
\<close>

record boot_region =
  region_start :: u64
  region_end :: u64
  region_usable :: bool

type_synonym MemoryMap = "boot_region list"

record BootInfoFrameAllocator =
  memory_map :: MemoryMap
  next_index :: usize

definition BootInfoFrameAllocator_init :: "MemoryMap \<Rightarrow> BootInfoFrameAllocator" where
  "BootInfoFrameAllocator_init mm = \<lparr>memory_map = mm, next_index = 0\<rparr>"

text \<open>\<^verbatim>\<open>(start..end).step_by(k)\<close>, and \<^verbatim>\<open>Iterator::nth\<close> on a mapped
  iterator whose function may panic: the elements that are skipped are computed as well.\<close>

definition step_by :: "u64 \<Rightarrow> u64 \<Rightarrow> nat \<Rightarrow> u64 list" where
  "step_by s e k = map (\<lambda>i. s + of_nat (k * i)) [0..<(unat e - unat s + k - 1) div k]"

definition iter_nth :: "nat \<Rightarrow> 'a option list \<Rightarrow> 'a option option" where
  "iter_nth n xs =
     (if None \<in> set (take (Suc n) xs) then None
      else if n < length xs then Some (xs ! n)
      else Some None)"

definition usable_frames :: "x86_crate \<Rightarrow> BootInfoFrameAllocator \<Rightarrow> u64 option list" where
  "usable_frames X fa =
     (let usable_regions = filter region_usable (memory_map fa);
          frame_addresses = concat (map (\<lambda>r. step_by (region_start r) (region_end r) 4096) usable_regions)
      in map (\<lambda>addr. map_option (frame_containing X) (phys_new X addr)) frame_addresses)"

definition allocate_frame ::
    "x86_crate \<Rightarrow> BootInfoFrameAllocator \<Rightarrow> (u64 option \<times> BootInfoFrameAllocator) option" where
  "allocate_frame X fa =
     map_option (\<lambda>frame. (frame, fa\<lparr>next_index := next_index fa + 1\<rparr>))
       (iter_nth (unat (next_index fa)) (usable_frames X fa))"

definition EmptyFrameAllocator_allocate_frame :: "'fa \<Rightarrow> u64 option \<times> 'fa" where
  "EmptyFrameAllocator_allocate_frame fa = (None, fa)"

section \<open>Page tables\<close>

text \<open>
  The methods of \<^verbatim>\<open>VirtAddr\<close>, \<^verbatim>\<open>PhysAddr\<close> and \<^verbatim>\<open>PageTableEntry\<close> that the
  walk uses. An entry is its 64 bit word; flags are the word of their bits.
\<close>

datatype FrameError = FrameNotPresent | HugeFrame

record paging_crate =
  table_index :: "nat \<Rightarrow> u64 \<Rightarrow> nat"
  page_offset :: "u64 \<Rightarrow> u64"
  phys_add :: "u64 \<Rightarrow> u64 \<Rightarrow> u64 option"
  entry_frame :: "u64 \<Rightarrow> FrameError + u64"
  entry_flags :: "u64 \<Rightarrow> u64"
  entry_set_flags :: "u64 \<Rightarrow> u64 \<Rightarrow> u64"

definition PRESENT_bit :: u64 where "PRESENT_bit = 0x1"
definition WRITABLE_bit :: u64 where "WRITABLE_bit = 0x2"
definition USER_ACCESSIBLE_bit :: u64 where "USER_ACCESSIBLE_bit = 0x4"
definition HUGE_PAGE_bit :: u64 where "HUGE_PAGE_bit = 0x80"

definition active_level_4_table :: "x86_crate \<Rightarrow> u64 \<Rightarrow> u64 \<Rightarrow> u64 option" where
  "active_level_4_table X cr3 physical_memory_offset = virt_add X physical_memory_offset cr3"

definition memory_init :: "x86_crate \<Rightarrow> u64 \<Rightarrow> u64 \<Rightarrow> OffsetPageTable option" where
  "memory_init X cr3 physical_memory_offset =
     map_option (\<lambda>t. \<lparr>phys_offset = physical_memory_offset, level_4_table = t\<rparr>)
       (active_level_4_table X cr3 physical_memory_offset)"

text \<open>\<^verbatim>\<open>&table[index]\<close>: entries of eight bytes.\<close>

definition entry_at :: "u64 \<Rightarrow> nat \<Rightarrow> u64" where
  "entry_at table index = table + of_nat (8 * index)"

text \<open>The loop over the table indexes of \<^verbatim>\<open>set_user_bit_for_parents\<close>.\<close>

fun set_user_bits :: "x86_crate \<Rightarrow> paging_crate \<Rightarrow> u64 \<Rightarrow> u64 \<Rightarrow> nat list \<Rightarrow> mem \<Rightarrow> mem option" where
  "set_user_bits X P offset table [] m = Some m"
| "set_user_bits X P offset table (index # indexes) m =
     (let entry = read_u64 (entry_at table index) m;
          entry' = entry_set_flags P entry (entry_flags P entry OR USER_ACCESSIBLE_bit);
          m' = write_u64 (entry_at table index) entry' m
      in case entry_frame P entry' of
           Inl _ \<Rightarrow> None
         | Inr frame \<Rightarrow>
             (case virt_add X offset frame of
                None \<Rightarrow> None
              | Some next_table_virt \<Rightarrow> set_user_bits X P offset next_table_virt indexes m'))"

definition set_user_bit_for_parents ::
    "x86_crate \<Rightarrow> paging_crate \<Rightarrow> u64 \<Rightarrow> OffsetPageTable \<Rightarrow> mem \<Rightarrow> mem option" where
  "set_user_bit_for_parents X P addr mapper m =
     set_user_bits X P (phys_offset mapper) (level_4_table mapper)
       [table_index P 4 addr, table_index P 3 addr, table_index P 2 addr] m"

text \<open>
  \<^verbatim>\<open>Mapper::map_to(page, frame, flags, frame_allocator)\<close> as a function on the memory and
  the state of the frame allocator.
\<close>

type_synonym ('e, 'fa) map_to =
  "u64 \<Rightarrow> u64 \<Rightarrow> u64 \<Rightarrow> OffsetPageTable \<Rightarrow> mem \<times> 'fa \<Rightarrow> ('e + unit) \<times> mem \<times> 'fa"

definition map_user_page ::
    "x86_crate \<Rightarrow> paging_crate \<Rightarrow> ('e, 'fa) map_to \<Rightarrow> u64 \<Rightarrow> u64 \<Rightarrow> OffsetPageTable \<Rightarrow> mem \<times> 'fa
      \<Rightarrow> (mem \<times> 'fa) option" where
  "map_user_page X P map_to page frame mapper s =
     (let flags = PRESENT_bit OR WRITABLE_bit OR USER_ACCESSIBLE_bit
      in case map_to page frame flags mapper s of
           (Inl _, _) \<Rightarrow> None
         | (Inr _, m, fa) \<Rightarrow> map_option (\<lambda>m'. (m', fa)) (set_user_bit_for_parents X P page mapper m))"

definition create_example_mapping ::
    "x86_crate \<Rightarrow> ('e, 'fa) map_to \<Rightarrow> u64 \<Rightarrow> OffsetPageTable \<Rightarrow> mem \<times> 'fa \<Rightarrow> (mem \<times> 'fa) option" where
  "create_example_mapping X map_to page mapper s =
     (case phys_new X 0xb8000 of
        None \<Rightarrow> None
      | Some addr \<Rightarrow>
          (case map_to page (frame_containing X addr) (PRESENT_bit OR WRITABLE_bit) mapper s of
             (Inl _, _) \<Rightarrow> None
           | (Inr _, s') \<Rightarrow> Some s'))"

text \<open>
  The loop of \<^verbatim>\<open>translate_addr_inner\<close>: \<open>None\<close> is the panic, \<open>Some None\<close> the early
  return of \<^verbatim>\<open>None\<close>.
\<close>

fun walk :: "x86_crate \<Rightarrow> paging_crate \<Rightarrow> u64 \<Rightarrow> u64 \<Rightarrow> nat list \<Rightarrow> mem \<Rightarrow> u64 option option" where
  "walk X P offset frame [] m = Some (Some frame)"
| "walk X P offset frame (index # indexes) m =
     (case virt_add X offset frame of
        None \<Rightarrow> None
      | Some virt \<Rightarrow>
          (case entry_frame P (read_u64 (entry_at virt index) m) of
             Inr frame' \<Rightarrow> walk X P offset frame' indexes m
           | Inl FrameNotPresent \<Rightarrow> Some None
           | Inl HugeFrame \<Rightarrow> None))"

definition translate_addr_inner ::
    "x86_crate \<Rightarrow> paging_crate \<Rightarrow> u64 \<Rightarrow> u64 \<Rightarrow> u64 \<Rightarrow> mem \<Rightarrow> u64 option option" where
  "translate_addr_inner X P cr3 addr physical_memory_offset m =
     (let table_indexes = [table_index P 4 addr, table_index P 3 addr, table_index P 2 addr,
        table_index P 1 addr]
      in case walk X P physical_memory_offset cr3 table_indexes m of
           None \<Rightarrow> None
         | Some None \<Rightarrow> Some None
         | Some (Some frame) \<Rightarrow> map_option Some (phys_add P frame (page_offset P addr)))"

definition translate_addr ::
    "x86_crate \<Rightarrow> paging_crate \<Rightarrow> u64 \<Rightarrow> u64 \<Rightarrow> u64 \<Rightarrow> mem \<Rightarrow> u64 option option" where
  "translate_addr X P cr3 addr physical_memory_offset m =
     translate_addr_inner X P cr3 addr physical_memory_offset m"

section \<open>Documented behaviour of the crate's page tables\<close>

text \<open>The bits of an entry that hold the address of a frame.\<close>

definition ADDR_MASK :: u64 where
  "ADDR_MASK = 0x000ffffffffff000"

definition entry_spec :: "paging_crate \<Rightarrow> bool" where
  "entry_spec P \<longleftrightarrow>
     (\<forall>e. entry_flags P e AND ADDR_MASK = 0)
   \<and> (\<forall>e f. f AND ADDR_MASK = 0 \<longrightarrow> entry_flags P (entry_set_flags P e f) = f)
   \<and> (\<forall>e f. f AND ADDR_MASK = 0 \<longrightarrow> entry_set_flags P e f AND ADDR_MASK = e AND ADDR_MASK)
   \<and> (\<forall>e. entry_frame P e =
        (if entry_flags P e AND PRESENT_bit = 0 then Inl FrameNotPresent
         else if entry_flags P e AND HUGE_PAGE_bit \<noteq> 0 then Inl HugeFrame
         else Inr (e AND ADDR_MASK)))"

definition index_spec :: "paging_crate \<Rightarrow> bool" where
  "index_spec P \<longleftrightarrow>
     (\<forall>l a. 1 \<le> l \<longrightarrow> l \<le> 4 \<longrightarrow> table_index P l a = unat a div 2 ^ (12 + 9 * (l - 1)) mod 512)
   \<and> (\<forall>a. page_offset P a = a mod 4096)"

definition phys_add_spec :: "paging_crate \<Rightarrow> bool" where
  "phys_add_spec P \<longleftrightarrow> (\<forall>a n. unat a + unat n < 2 ^ 52 \<longrightarrow> phys_add P a n = Some (a + n))"

definition paging_ref :: paging_crate where
  "paging_ref =
     \<lparr>table_index = (\<lambda>l a. unat a div 2 ^ (12 + 9 * (l - 1)) mod 512),
      page_offset = (\<lambda>a. a mod 4096),
      phys_add = (\<lambda>a n. if unat a + unat n < 2 ^ 52 then Some (a + n) else None),
      entry_frame = (\<lambda>e. if e AND NOT ADDR_MASK AND PRESENT_bit = 0 then Inl FrameNotPresent
         else if e AND NOT ADDR_MASK AND HUGE_PAGE_bit \<noteq> 0 then Inl HugeFrame
         else Inr (e AND ADDR_MASK)),
      entry_flags = (\<lambda>e. e AND NOT ADDR_MASK),
      entry_set_flags = (\<lambda>e f. (e AND ADDR_MASK) OR f)\<rparr>"

lemma paging_ref_spec: "entry_spec paging_ref" "index_spec paging_ref" "phys_add_spec paging_ref"
proof -
  have 1: "((e AND ADDR_MASK) OR f) AND NOT ADDR_MASK = f" if "f AND ADDR_MASK = 0" for e f
    using that by (auto simp: bit_eq_iff bit_simps)
  have 2: "((e AND ADDR_MASK) OR f) AND ADDR_MASK = e AND ADDR_MASK" if "f AND ADDR_MASK = 0" for e f
    using that by (auto simp: bit_eq_iff bit_simps)
  show "entry_spec paging_ref"
    using 1 2 by (auto simp: entry_spec_def paging_ref_def and.assoc)
qed (simp_all add: paging_ref_def index_spec_def phys_add_spec_def)

section \<open>Frames of the memory map\<close>

definition page_aligned :: "u64 \<Rightarrow> bool" where
  "page_aligned a \<longleftrightarrow> 4096 dvd unat a"

text \<open>
  What the boot loader promises of the memory map: usable regions consist of whole frames, lie in
  the 52 bit physical address space and do not overlap.
\<close>

definition boot_map_ok :: "MemoryMap \<Rightarrow> bool" where
  "boot_map_ok mm \<longleftrightarrow>
     (\<forall>r \<in> set mm. region_usable r \<longrightarrow>
        page_aligned (region_start r) \<and> page_aligned (region_end r) \<and> unat (region_end r) \<le> 2 ^ 52)
   \<and> sorted_wrt (\<lambda>r q. region_end r \<le> region_start q \<or> region_end q \<le> region_start r)
        (filter region_usable mm)"

definition usable_pages :: "MemoryMap \<Rightarrow> u64 set" where
  "usable_pages mm = {a. page_aligned a
     \<and> (\<exists>r \<in> set mm. region_usable r \<and> region_start r \<le> a \<and> a < region_end r)}"

primrec allocate_frames ::
    "x86_crate \<Rightarrow> nat \<Rightarrow> BootInfoFrameAllocator \<Rightarrow> (u64 option list \<times> BootInfoFrameAllocator) option" where
  "allocate_frames X 0 fa = Some ([], fa)"
| "allocate_frames X (Suc n) fa =
     (case allocate_frame X fa of
        None \<Rightarrow> None
      | Some (f, fa') \<Rightarrow> map_option (\<lambda>(fs, fa''). (f # fs, fa'')) (allocate_frames X n fa'))"

lemma unat_of_nat_small: "n < 2 ^ 64 \<Longrightarrow> unat (of_nat n :: u64) = n"
  by (simp add: unat_of_nat)

lemma step_by_aligned:
  assumes "page_aligned s" and "page_aligned e"
  shows "set (step_by s e 4096) = {a. page_aligned a \<and> s \<le> a \<and> a < e}"
    and "distinct (step_by s e 4096)"
proof -
  obtain k where k: "unat s = 4096 * k" using assms(1) by (auto simp: page_aligned_def)
  obtain l where l: "unat e = 4096 * l" using assms(2) by (auto simp: page_aligned_def)
  have "(4096 * l - 4096 * k + 4096 - 1) div 4096 = (4096 * (l - k) + 4095) div (4096 :: nat)"
    by (simp add: diff_mult_distrib2)
  also have "\<dots> = l - k" by simp
  finally have n: "(unat e - unat s + 4096 - 1) div 4096 = l - k" by (simp only: k l)
  have "unat e < 2 ^ LENGTH(64)" by (rule unsigned_less)
  then have l64: "4096 * l < 2 ^ 64" using l by simp
  have u: "unat (s + of_nat (4096 * i)) = 4096 * (k + i)" if "i < l - k" for i
  proof -
    have "unat (of_nat (4096 * i) :: u64) = 4096 * i"
      using that l64 by (intro unat_of_nat_small) simp
    then have "unat (s + of_nat (4096 * i)) = (4096 * (k + i)) mod 2 ^ 64"
      unfolding unat_word_ariths k by (simp only: distrib_left) simp
    then show ?thesis using that l64 by simp
  qed
  have "inj_on (\<lambda>i. s + of_nat (4096 * i)) (set [0..<l - k])"
  proof (rule inj_on_inverseI)
    fix i
    assume "i \<in> set [0..<l - k]"
    then show "unat (s + of_nat (4096 * i)) div 4096 - k = i" by (subst u) auto
  qed
  then show "distinct (step_by s e 4096)"
    unfolding step_by_def n distinct_map by simp
  show "set (step_by s e 4096) = {a. page_aligned a \<and> s \<le> a \<and> a < e}"
  proof (intro equalityI subsetI)
    fix a
    assume "a \<in> set (step_by s e 4096)"
    then obtain i where "i < l - k" and "a = s + of_nat (4096 * i)"
      unfolding step_by_def n by auto
    then show "a \<in> {a. page_aligned a \<and> s \<le> a \<and> a < e}"
      using u [of i] k l by (simp add: page_aligned_def word_le_nat_alt word_less_nat_alt)
  next
    fix a
    assume "a \<in> {a. page_aligned a \<and> s \<le> a \<and> a < e}"
    then obtain j where j: "unat a = 4096 * j" and "k \<le> j" and "j < l"
      using k l by (auto simp: page_aligned_def word_le_nat_alt word_less_nat_alt)
    then have "j - k < l - k" by simp
    moreover have "a = s + of_nat (4096 * (j - k))"
      using u [OF calculation] j \<open>k \<le> j\<close> by (simp add: word_unat_eq_iff)
    ultimately show "a \<in> set (step_by s e 4096)" unfolding step_by_def n by auto
  qed
qed

definition frame_list :: "MemoryMap \<Rightarrow> u64 list" where
  "frame_list mm = concat (map (\<lambda>r. step_by (region_start r) (region_end r) 4096) (filter region_usable mm))"

lemma set_frame_list: "boot_map_ok mm \<Longrightarrow> set (frame_list mm) = usable_pages mm"
  by (auto simp: frame_list_def usable_pages_def boot_map_ok_def step_by_aligned)

lemma distinct_frame_list:
  assumes "boot_map_ok mm"
  shows "distinct (frame_list mm)"
proof -
  have *: "distinct (concat (map (\<lambda>r. step_by (region_start r) (region_end r) 4096) rs))"
    if "\<forall>r \<in> set rs. page_aligned (region_start r) \<and> page_aligned (region_end r)"
      and "sorted_wrt (\<lambda>r q. region_end r \<le> region_start q \<or> region_end q \<le> region_start r) rs" for rs
    using that
  proof (induction rs)
    case Nil
    then show ?case by simp
  next
    case (Cons r rs)
    have "set (step_by (region_start r) (region_end r) 4096)
        \<inter> set (step_by (region_start q) (region_end q) 4096) = {}" if "q \<in> set rs" for q
    proof -
      have "region_end r \<le> region_start q \<or> region_end q \<le> region_start r"
        using Cons.prems(2) that by simp
      then show ?thesis using Cons.prems(1) that by (auto simp: step_by_aligned)
    qed
    with Cons show ?case by (auto simp: step_by_aligned(2))
  qed
  show ?thesis
    unfolding frame_list_def by (rule *) (use assms in \<open>auto simp: boot_map_ok_def\<close>)
qed

lemma usable_frames_eq:
  assumes "phys_new_spec X" and "frame_containing_spec X" and "boot_map_ok (memory_map fa)"
  shows "usable_frames X fa = map Some (frame_list (memory_map fa))"
proof -
  have "map_option (frame_containing X) (phys_new X a) = Some a"
    if "a \<in> set (frame_list (memory_map fa))" for a
  proof -
    from that have "a \<in> usable_pages (memory_map fa)" using assms(3) by (simp add: set_frame_list)
    then have "4096 dvd unat a" and "unat a < 2 ^ 52"
      using assms(3) by (auto simp: usable_pages_def boot_map_ok_def page_aligned_def word_less_nat_alt)
    then have "a mod 4096 = 0" by (simp add: word_unat_eq_iff unat_mod)
    with \<open>unat a < 2 ^ 52\<close> show ?thesis
      using assms(1,2) by (simp add: phys_new_spec_def frame_containing_spec_def)
  qed
  then show ?thesis unfolding usable_frames_def Let_def frame_list_def [symmetric] by simp
qed

lemma allocate_frame_eq:
  assumes "usable_frames X fa = map Some F" and "next_index fa = of_nat k" and "k < 2 ^ 64"
  shows "allocate_frame X fa
    = Some (if k < length F then Some (F ! k) else None, fa\<lparr>next_index := of_nat (Suc k)\<rparr>)"
proof -
  have k: "unat (next_index fa) = k" using assms(2,3) by (simp only: unat_of_nat_small)
  have "None \<notin> set (take (Suc k) (map Some F))" by (auto simp: take_map)
  with k show ?thesis unfolding allocate_frame_def assms(1) iter_nth_def
    by (simp add: assms(2) add.commute)
qed

lemma allocate_frames_eq:
  assumes "\<And>n. usable_frames X (fa\<lparr>next_index := n\<rparr>) = map Some F" and "k + n < 2 ^ 64"
  shows "allocate_frames X n (fa\<lparr>next_index := of_nat k\<rparr>)
    = Some (map (\<lambda>i. if i < length F then Some (F ! i) else None) [k..<k + n],
        fa\<lparr>next_index := of_nat (k + n)\<rparr>)"
  using assms(2)
proof (induction n arbitrary: k)
  case 0
  then show ?case by simp
next
  case (Suc n)
  have "allocate_frame X (fa\<lparr>next_index := of_nat k\<rparr>)
      = Some (if k < length F then Some (F ! k) else None, fa\<lparr>next_index := of_nat (Suc k)\<rparr>)"
    using allocate_frame_eq [OF assms(1), of "of_nat k" k] Suc.prems by simp
  with Suc.IH [of "Suc k"] Suc.prems show ?case
    by (simp add: upt_conv_Cons del: upt_Suc of_nat_Suc)
qed

section \<open>Walking and changing page tables\<close>

definition word_aligned :: "u64 \<Rightarrow> bool" where
  "word_aligned a \<longleftrightarrow> 8 dvd unat a"

lemma dvd_unat_add: "d dvd unat a \<Longrightarrow> d dvd unat b \<Longrightarrow> d dvd 2 ^ 64 \<Longrightarrow> d dvd unat (a + b :: u64)"
  by (simp add: unat_word_ariths dvd_mod)

lemma page_aligned_add: "page_aligned a \<Longrightarrow> page_aligned b \<Longrightarrow> page_aligned (a + b)"
  unfolding page_aligned_def by (rule dvd_unat_add) simp_all

lemma page_aligned_mask: "page_aligned (e AND ADDR_MASK)"
proof -
  have "take_bit 12 (e AND ADDR_MASK) = 0"
    by (rule bit_word_eqI) (auto simp: bit_simps ADDR_MASK_def)
  then have "take_bit 12 (unat (e AND ADDR_MASK)) = 0"
    by (simp add: unsigned_take_bit_eq [symmetric])
  then show ?thesis by (simp add: page_aligned_def take_bit_eq_mod mod_eq_0_iff_dvd)
qed

lemma entry_at_aligned:
  assumes "page_aligned t"
  shows "word_aligned (entry_at t i)"
proof -
  have "8 dvd unat (of_nat (8 * i) :: u64)" by (simp only: unat_of_nat) (simp add: dvd_mod)
  moreover have "8 dvd unat t" using assms unfolding page_aligned_def by (rule dvd_trans [rotated]) simp
  ultimately show ?thesis unfolding word_aligned_def entry_at_def by (intro dvd_unat_add) simp_all
qed

lemma word_aligned_disjoint:
  assumes "word_aligned a" and "word_aligned b" and "a \<noteq> b"
  shows "region a 8 \<inter> region b 8 = {}"
proof -
  have wrap: "unat x + 8 \<le> 2 ^ 64" if "word_aligned x" for x
  proof -
    from that obtain k where "unat x = 8 * k" by (auto simp: word_aligned_def)
    moreover have "unat x < 2 ^ LENGTH(64)" by (rule unsigned_less)
    ultimately show ?thesis by simp
  qed
  obtain k l where "unat a = 8 * k" "unat b = 8 * l"
    using assms(1,2) unfolding word_aligned_def by (elim dvdE)
  moreover from this have "k \<noteq> l" using assms(3) by (auto simp: word_unat_eq_iff)
  ultimately show ?thesis
    by (auto simp: region_no_wrap [OF wrap [OF assms(1)]] region_no_wrap [OF wrap [OF assms(2)]])
qed

lemma read_write_u64_aligned:
  "word_aligned a \<Longrightarrow> word_aligned b \<Longrightarrow> read_u64 a (write_u64 b w m) = (if a = b then w else read_u64 a m)"
  by (simp add: read_write_u64_disjoint word_aligned_disjoint)

text \<open>
  Two memories have the same tables when all words, read as entries, lead to the same frames;
  adding a flag other than the present and the huge page flag to an entry keeps the tables.
\<close>

definition same_tables :: "paging_crate \<Rightarrow> mem \<Rightarrow> mem \<Rightarrow> bool" where
  "same_tables P m m' \<longleftrightarrow>
     (\<forall>a. word_aligned a \<longrightarrow> entry_frame P (read_u64 a m') = entry_frame P (read_u64 a m))"

lemma same_tables_trans: "same_tables P m m' \<Longrightarrow> same_tables P m' m'' \<Longrightarrow> same_tables P m m''"
  by (simp add: same_tables_def)

lemma entry_frame_aligned: "entry_spec P \<Longrightarrow> entry_frame P e = Inr f \<Longrightarrow> page_aligned f"
  by (auto simp: entry_spec_def page_aligned_mask split: if_splits)

lemma set_user_entry:
  assumes "entry_spec P"
  defines "e' \<equiv> \<lambda>e. entry_set_flags P e (entry_flags P e OR USER_ACCESSIBLE_bit)"
  shows "entry_flags P (e' e) = entry_flags P e OR USER_ACCESSIBLE_bit"
    and "entry_frame P (e' e) = entry_frame P e"
proof -
  let ?f = "entry_flags P e OR USER_ACCESSIBLE_bit"
  have "entry_flags P e AND ADDR_MASK = 0" using assms(1) by (simp add: entry_spec_def)
  then have f: "?f AND ADDR_MASK = 0"
    by (simp add: bit_simps and.commute [of _ ADDR_MASK] bit.conj_disj_distrib)
      (simp add: USER_ACCESSIBLE_bit_def ADDR_MASK_def)
  then show flags: "entry_flags P (e' e) = ?f" using assms(1) by (simp add: entry_spec_def e'_def)
  have "e' e AND ADDR_MASK = e AND ADDR_MASK" using assms(1) f by (simp add: entry_spec_def e'_def)
  moreover have "?f AND PRESENT_bit = entry_flags P e AND PRESENT_bit"
    and "?f AND HUGE_PAGE_bit = entry_flags P e AND HUGE_PAGE_bit"
    by (simp_all add: and.commute [of _ PRESENT_bit] and.commute [of _ HUGE_PAGE_bit] bit.conj_disj_distrib)
      (simp_all add: USER_ACCESSIBLE_bit_def PRESENT_bit_def HUGE_PAGE_bit_def)
  ultimately show "entry_frame P (e' e) = entry_frame P e"
    using assms(1) flags by (simp add: entry_spec_def)
qed

lemma virt_add_aligned:
  "virt_add_spec X \<Longrightarrow> virt_add X a n = Some v \<Longrightarrow> page_aligned a \<Longrightarrow> page_aligned n \<Longrightarrow> page_aligned v"
  by (drule (1) virt_add_Some) (simp add: page_aligned_add)

lemma walk_same_tables:
  assumes "virt_add_spec X" and "entry_spec P" and "page_aligned offset" and "same_tables P m m'"
  shows "page_aligned frame \<Longrightarrow> walk X P offset frame is m' = walk X P offset frame is m"
proof (induction "is" arbitrary: frame)
  case Nil
  then show ?case by simp
next
  case (Cons i "is")
  show ?case
  proof (cases "virt_add X offset frame")
    case (Some v)
    from virt_add_aligned [OF assms(1) this assms(3) Cons.prems] have "word_aligned (entry_at v i)"
      by (rule entry_at_aligned)
    with assms(4) have e: "entry_frame P (read_u64 (entry_at v i) m') = entry_frame P (read_u64 (entry_at v i) m)"
      by (simp add: same_tables_def)
    show ?thesis
    proof (cases "entry_frame P (read_u64 (entry_at v i) m)")
      case (Inl err)
      then show ?thesis using Some e by simp
    next
      case (Inr f)
      with assms(2) have "page_aligned f" by (rule entry_frame_aligned)
      then show ?thesis using Some e Inr Cons.IH by simp
    qed
  qed simp
qed

text \<open>The addresses of the entries that a walk reads, from a given table on.\<close>

fun entry_path :: "x86_crate \<Rightarrow> paging_crate \<Rightarrow> u64 \<Rightarrow> u64 \<Rightarrow> nat list \<Rightarrow> mem \<Rightarrow> u64 list" where
  "entry_path X P offset table [] m = []"
| "entry_path X P offset table (index # indexes) m =
     entry_at table index #
       (case entry_frame P (read_u64 (entry_at table index) m) of
          Inl _ \<Rightarrow> []
        | Inr frame \<Rightarrow>
            (case virt_add X offset frame of
               None \<Rightarrow> []
             | Some table' \<Rightarrow> entry_path X P offset table' indexes m))"

lemma entry_path_same_tables:
  assumes "virt_add_spec X" and "entry_spec P" and "page_aligned offset" and "same_tables P m m'"
  shows "page_aligned t \<Longrightarrow> entry_path X P offset t is m' = entry_path X P offset t is m"
proof (induction "is" arbitrary: t)
  case Nil
  then show ?case by simp
next
  case (Cons i "is")
  from assms(4) have e: "entry_frame P (read_u64 (entry_at t i) m') = entry_frame P (read_u64 (entry_at t i) m)"
    using entry_at_aligned [OF Cons.prems] by (simp add: same_tables_def)
  have "page_aligned t'" if "entry_frame P (read_u64 (entry_at t i) m) = Inr f"
    and "virt_add X offset f = Some t'" for f t'
    using virt_add_aligned [OF assms(1) that(2) assms(3) entry_frame_aligned [OF assms(2) that(1)]] .
  with Cons.IH e show ?case by (simp split: sum.splits option.splits)
qed

lemma entry_path_snoc:
  "set (entry_path X P offset t (is @ [j]) m)
     \<subseteq> insert (last (entry_path X P offset t (is @ [j]) m)) (set (entry_path X P offset t is m))"
proof (induction "is" arbitrary: t)
  case Nil
  then show ?case by (auto split: sum.splits option.splits)
next
  case (Cons i "is")
  show ?case
  proof (cases "entry_frame P (read_u64 (entry_at t i) m)")
    case (Inr f)
    with Cons.IH show ?thesis by (cases "virt_add X offset f") auto
  qed simp
qed

lemma entry_path_aligned:
  assumes "virt_add_spec X" and "entry_spec P" and "page_aligned offset"
  shows "page_aligned t \<Longrightarrow> e \<in> set (entry_path X P offset t is m) \<Longrightarrow> word_aligned e"
proof (induction "is" arbitrary: t)
  case Nil
  then show ?case by simp
next
  case (Cons i "is")
  show ?case
  proof (cases "e = entry_at t i")
    case True
    then show ?thesis using Cons.prems(1) by (simp add: entry_at_aligned)
  next
    case False
    then obtain f where f: "entry_frame P (read_u64 (entry_at t i) m) = Inr f"
      using Cons.prems(2) by (cases "entry_frame P (read_u64 (entry_at t i) m)") auto
    then obtain t' where t': "virt_add X offset f = Some t'"
      using Cons.prems(2) False by (cases "virt_add X offset f") auto
    have "page_aligned t'"
      using virt_add_aligned [OF assms(1) t' assms(3) entry_frame_aligned [OF assms(2) f]] .
    then show ?thesis using Cons.prems(2) False f t' by (intro Cons.IH [of t']) simp_all
  qed
qed

lemma user_flag_set: "(f OR USER_ACCESSIBLE_bit) AND USER_ACCESSIBLE_bit \<noteq> 0"
proof -
  have "(f OR USER_ACCESSIBLE_bit) AND USER_ACCESSIBLE_bit = USER_ACCESSIBLE_bit"
    by (rule bit_word_eqI) (auto simp: bit_simps)
  then show ?thesis by (simp add: USER_ACCESSIBLE_bit_def)
qed

text \<open>
  What setting the user bits does to memory: the entries on the path get the user flag, the
  tables stay the same, no flag is taken away anywhere and no other byte changes.
\<close>

definition user_flags_added :: "paging_crate \<Rightarrow> u64 set \<Rightarrow> mem \<Rightarrow> mem \<Rightarrow> bool" where
  "user_flags_added P E m m' \<longleftrightarrow>
     same_tables P m m'
   \<and> (\<forall>a. word_aligned a \<longrightarrow> entry_flags P (read_u64 a m')
        = (if a \<in> E then entry_flags P (read_u64 a m) OR USER_ACCESSIBLE_bit
           else entry_flags P (read_u64 a m)))
   \<and> (\<forall>x. (\<forall>a \<in> E. x \<notin> region a 8) \<longrightarrow> m' x = m x)"

lemma user_flags_added_refl: "user_flags_added P {} m m"
  by (simp add: user_flags_added_def same_tables_def)

lemma user_flags_added_step:
  fixes m
  assumes "entry_spec P" and "word_aligned a"
  defines "e \<equiv> read_u64 a m"
  defines "m1 \<equiv> write_u64 a (entry_set_flags P e (entry_flags P e OR USER_ACCESSIBLE_bit)) m"
  assumes "user_flags_added P E m1 m2"
  shows "user_flags_added P (insert a E) m m2" and "same_tables P m m1"
proof -
  have r: "read_u64 b m1 = (if b = a then entry_set_flags P e (entry_flags P e OR USER_ACCESSIBLE_bit)
      else read_u64 b m)" if "word_aligned b" for b
    using that assms(2) by (auto simp: m1_def read_write_u64_aligned)
  then show s: "same_tables P m m1"
    using set_user_entry(2) [OF assms(1)] by (simp add: same_tables_def e_def)
  have "entry_flags P (read_u64 b m1) = (if b = a then entry_flags P (read_u64 b m) OR USER_ACCESSIBLE_bit
      else entry_flags P (read_u64 b m))" if "word_aligned b" for b
    using that r set_user_entry(1) [OF assms(1)] by (simp add: e_def)
  moreover have "m1 x = m x" if "x \<notin> region a 8" for x
    using that by (simp add: m1_def write_u64_outside)
  ultimately show "user_flags_added P (insert a E) m m2"
    using assms(5) same_tables_trans [OF s] by (auto simp: user_flags_added_def or.assoc)
qed

lemma set_user_bits_walk:
  assumes "virt_add_spec X" and "entry_spec P" and "page_aligned offset"
  shows "virt_add X offset frame = Some t \<Longrightarrow> page_aligned t \<Longrightarrow>
    walk X P offset frame (is @ [j]) m = Some (Some f) \<Longrightarrow>
    \<exists>m'. set_user_bits X P offset t is m = Some m'
      \<and> user_flags_added P (set (entry_path X P offset t is m)) m m'"
proof (induction "is" arbitrary: frame t m)
  case Nil
  then show ?case by (simp add: user_flags_added_refl)
next
  case (Cons i "is")
  let ?a = "entry_at t i"
  let ?e = "read_u64 ?a m"
  let ?m = "write_u64 ?a (entry_set_flags P ?e (entry_flags P ?e OR USER_ACCESSIBLE_bit)) m"
  from Cons.prems(1,3) obtain f' where f': "entry_frame P ?e = Inr f'"
    and w: "walk X P offset f' (is @ [j]) m = Some (Some f)"
    by (auto split: sum.splits FrameError.splits)
  then obtain t' where t': "virt_add X offset f' = Some t'"
    by (cases "is") (auto split: option.splits)
  have "page_aligned f'" using assms(2) f' by (rule entry_frame_aligned)
  with Cons.prems(2) have al: "page_aligned f'" "page_aligned t'" "word_aligned ?a"
    using virt_add_aligned [OF assms(1) t' assms(3)] by (simp_all add: entry_at_aligned)
  note step = user_flags_added_step [OF assms(2) al(3), of _ m]
  have same: "same_tables P m ?m" using step(2) [OF user_flags_added_refl] .
  have "walk X P offset f' (is @ [j]) ?m = Some (Some f)"
    using w walk_same_tables [OF assms same al(1)] by simp
  from Cons.IH [OF t' al(2) this] obtain m' where
    m': "set_user_bits X P offset t' is ?m = Some m'"
    "user_flags_added P (set (entry_path X P offset t' is ?m)) ?m m'" by blast
  have "set (entry_path X P offset t (i # is) m) = insert ?a (set (entry_path X P offset t' is ?m))"
    using f' t' entry_path_same_tables [OF assms same al(2)] by simp
  then have "user_flags_added P (set (entry_path X P offset t (i # is) m)) m m'"
    using step(1) [OF m'(2)] by simp
  moreover have "set_user_bits X P offset t (i # is) m = Some m'"
    using m'(1) set_user_entry(2) [OF assms(2)] f' t' by (simp add: Let_def)
  ultimately show ?case by blast
qed

section \<open>Properties\<close>

text \<open>
  C9 (frames are handed out once). For a memory map whose usable regions are whole, disjoint
  frames, the allocator returns every frame of the usable regions exactly once, then only
  failures: the results of any number of calls are the first frames of a list without
  repetitions of exactly these frames. No call panics.
\<close>

theorem frames_handed_out_once:
  assumes "phys_new_spec X" and "frame_containing_spec X" and "boot_map_ok mm" and "n < 2 ^ 64"
  shows "\<exists>F fa. allocate_frames X n (BootInfoFrameAllocator_init mm)
      = Some (map Some (take n F) @ replicate (n - length F) None, fa)
    \<and> distinct F \<and> set F = usable_pages mm"
proof -
  let ?F = "frame_list mm"
  have "allocate_frames X n ((BootInfoFrameAllocator_init mm)\<lparr>next_index := of_nat 0\<rparr>)
      = Some (map (\<lambda>i. if i < length ?F then Some (?F ! i) else None) [0..<0 + n],
          (BootInfoFrameAllocator_init mm)\<lparr>next_index := of_nat (0 + n)\<rparr>)"
    using assms by (intro allocate_frames_eq) (simp_all add: usable_frames_eq BootInfoFrameAllocator_init_def)
  moreover have "map (\<lambda>i. if i < length ?F then Some (?F ! i) else None) [0..<0 + n]
      = map Some (take n ?F) @ replicate (n - length ?F) None"
    by (rule nth_equalityI) (auto simp: nth_append)
  ultimately show ?thesis
    using assms(3) distinct_frame_list set_frame_list
    by (auto simp: BootInfoFrameAllocator_init_def intro!: exI [of _ ?F])
qed

definition example_map :: MemoryMap where
  "example_map =
     [\<lparr>region_start = 0, region_end = 0x1000, region_usable = False\<rparr>,
      \<lparr>region_start = 0x1000, region_end = 0x3000, region_usable = True\<rparr>,
      \<lparr>region_start = 0x8000, region_end = 0x9000, region_usable = True\<rparr>]"

lemma example_map_ok: "boot_map_ok example_map"
  by (simp add: boot_map_ok_def example_map_def page_aligned_def)

theorem frames_handed_out_once_witness:
  "boot_map_ok example_map \<and> (\<exists>F fa. allocate_frames x86_ref 5 (BootInfoFrameAllocator_init example_map)
      = Some (map Some (take 5 F) @ replicate (5 - length F) None, fa)
    \<and> distinct F \<and> set F = usable_pages example_map)"
  using frames_handed_out_once [OF x86_ref_spec(3,4) example_map_ok, of 5] example_map_ok by simp

text \<open>
  A second allocator made from the same memory map, as the boot code makes one for the memory
  manager, hands out the frames of the first one again.
\<close>

lemma second_allocator_repeats:
  assumes "allocate_frames X n (BootInfoFrameAllocator_init mm) = Some (fs, fa)"
  shows "\<exists>fa2. allocate_frames X n (BootInfoFrameAllocator_init (memory_map fa)) = Some (fs, fa2)"
proof -
  have "memory_map fa' = memory_map fa0" if "allocate_frames X k fa0 = Some (gs, fa')" for k fa0 gs fa'
    using that
    by (induction k arbitrary: fa0 gs)
      (fastforce simp: allocate_frame_def split: option.splits prod.splits)+
  from this [OF assms] assms show ?thesis by (simp add: BootInfoFrameAllocator_init_def)
qed

definition parent_indexes :: "paging_crate \<Rightarrow> u64 \<Rightarrow> nat list" where
  "parent_indexes P a = [table_index P 4 a, table_index P 3 a, table_index P 2 a]"

definition page_indexes :: "paging_crate \<Rightarrow> u64 \<Rightarrow> nat list" where
  "page_indexes P a = parent_indexes P a @ [table_index P 1 a]"

lemma translate_addr_walk:
  "translate_addr X P cr3 a offset m =
     (case walk X P offset cr3 (page_indexes P a) m of
        None \<Rightarrow> None
      | Some None \<Rightarrow> Some None
      | Some (Some frame) \<Rightarrow> map_option Some (phys_add P frame (page_offset P a)))"
  by (simp add: translate_addr_def translate_addr_inner_def page_indexes_def parent_indexes_def)

text \<open>
  \<^verbatim>\<open>Mapper::map_to\<close> returns \<^verbatim>\<open>Ok\<close> only after the page is mapped: in the
  new memory the walk along the page's indexes reaches the frame, and the last entry has the
  flags asked for.
\<close>

definition map_to_spec :: "x86_crate \<Rightarrow> paging_crate \<Rightarrow> u64 \<Rightarrow> OffsetPageTable \<Rightarrow> ('e, 'fa) map_to \<Rightarrow> bool" where
  "map_to_spec X P cr3 mapper map_to \<longleftrightarrow>
     (\<forall>page frame flags m fa m' fa'. map_to page frame flags mapper (m, fa) = (Inr (), m', fa') \<longrightarrow>
        (let indexes = page_indexes P page
         in walk X P (phys_offset mapper) cr3 indexes m' = Some (Some frame)
          \<and> entry_flags P (read_u64 (last (entry_path X P (phys_offset mapper)
               (level_4_table mapper) indexes m')) m') = flags))"

lemma unat_in_page:
  assumes "page_aligned page" and "d < 4096"
  shows "unat (page + of_nat d) = unat page + d"
proof -
  obtain k where k: "unat page = 4096 * k" using assms(1) by (auto simp: page_aligned_def)
  moreover have "unat page < 2 ^ LENGTH(64)" by (rule unsigned_less)
  ultimately have "unat page + d < 2 ^ 64" using assms(2) by simp
  then show ?thesis using assms(2) by (simp add: unat_word_ariths unat_of_nat)
qed

lemma index_in_page:
  assumes "index_spec P" and "page_aligned page" and "d < 4096"
  shows "page_indexes P (page + of_nat d) = page_indexes P page"
    and "page_offset P (page + of_nat d) = of_nat d"
proof -
  obtain k where k: "unat page = 4096 * k" using assms(2) by (auto simp: page_aligned_def)
  have u: "unat (page + of_nat d) = 4096 * k + d" using unat_in_page [OF assms(2,3)] k by simp
  have d: "(4096 * k + d) div (4096 * j) = k div j" for j
    using assms(3) by (simp add: div_mult2_eq)
  have "table_index P l (page + of_nat d) = table_index P l page" if "1 \<le> l" "l \<le> 4" for l
  proof -
    have e: "2 ^ (12 + 9 * (l - 1)) = 4096 * (2 :: nat) ^ (9 * (l - 1))" by (simp add: power_add)
    have "unat (page + of_nat d) div 2 ^ (12 + 9 * (l - 1)) = unat page div 2 ^ (12 + 9 * (l - 1))"
      unfolding u k e d by simp
    with assms(1) that show ?thesis unfolding index_spec_def by simp
  qed
  then show "page_indexes P (page + of_nat d) = page_indexes P page"
    by (simp add: page_indexes_def parent_indexes_def)
  have "unat ((page + of_nat d) mod 4096) = unat (of_nat d :: u64)"
    using assms(3) by (simp add: unat_mod u unat_of_nat)
  then show "page_offset P (page + of_nat d) = of_nat d"
    using assms(1) by (simp only: index_spec_def word_unat_eq_iff)
qed


text \<open>
  A mapper that writes the last entry when the upper tables exist, and fails otherwise; and tables
  in which the upper levels for the address \<open>0x400000\<close> exist.
\<close>

definition leaf_map_to :: "u64 \<Rightarrow> (unit, unit) map_to" where
  "leaf_map_to cr3 page frame flags mapper s =
     (let entries = entry_path x86_ref paging_ref (phys_offset mapper) (level_4_table mapper)
            (page_indexes paging_ref page);
          m' = write_u64 (last (entries (fst s))) (entry_set_flags paging_ref frame flags) (fst s)
      in if walk x86_ref paging_ref (phys_offset mapper) cr3 (page_indexes paging_ref page) m' = Some (Some frame)
          \<and> entry_flags paging_ref (read_u64 (last (entries m')) m') = flags
         then (Inr (), m', snd s)
         else (Inl (), s))"

lemma leaf_map_to_spec: "map_to_spec x86_ref paging_ref cr3 mapper (leaf_map_to cr3)"
  unfolding map_to_spec_def leaf_map_to_def Let_def by (auto split: if_splits)

definition example_tables :: mem where
  "example_tables = write_u64 0x1000 0x2003 (write_u64 0x2000 0x3003 (write_u64 0x3010 0x4003 (\<lambda>_. 0)))"

lemma read_zero: "read_u64 a (\<lambda>_. 0) = 0"
  by (simp add: read_u64_def read_bytes_def eval_nat_numeral)

lemma example_map_to:
  "leaf_map_to 0x1000 0x400000 0x5000 (PRESENT_bit OR WRITABLE_bit OR USER_ACCESSIBLE_bit)
     \<lparr>phys_offset = 0, level_4_table = 0x1000\<rparr> (example_tables, ())
   = (Inr (), write_u64 0x4000 0x5007 example_tables, ())"
  by (simp add: leaf_map_to_def example_tables_def page_indexes_def parent_indexes_def paging_ref_def
      x86_ref_def canonical_def entry_at_def read_write_u64_aligned word_aligned_def read_zero
      ADDR_MASK_def PRESENT_bit_def WRITABLE_bit_def USER_ACCESSIBLE_bit_def HUGE_PAGE_bit_def)


end
