(* ===== verification/Ruix_Allocator.thy ===== *)
theory Ruix_Allocator
  imports Ruix_Memory
begin

text \<open>
  The kernel heap (\<^verbatim>\<open>src/allocator.rs\<close>, \<^verbatim>\<open>src/allocator/fixed_size_block.rs\<close>):
  nine intrusive free lists of blocks of fixed sizes whose nodes live in the free blocks
  themselves, in front of the crate \<^verbatim>\<open>linked_list_allocator\<close>, which is a parameter. The
  main result is that blocks in use never overlap, whatever sequence of allocations and
  deallocations is made and whatever the clients write into their blocks.
\<close>

section \<open>Layouts\<close>

record Layout =
  layout_size :: usize
  layout_align :: usize

definition is_power_of_two :: "usize \<Rightarrow> bool" where
  "is_power_of_two a \<longleftrightarrow> (\<exists>k \<in> {..<64}. a = 2 ^ k)"

text \<open>\<^verbatim>\<open>Layout::from_size_align\<close>: the size rounded up to the alignment must not pass
  \<^verbatim>\<open>isize::MAX\<close>.\<close>

definition Layout_from_size_align :: "usize \<Rightarrow> usize \<Rightarrow> Layout option" where
  "Layout_from_size_align sz align =
     (if is_power_of_two align \<and> unat sz \<le> 2 ^ 63 - unat align
      then Some \<lparr>layout_size = sz, layout_align = align\<rparr>
      else None)"

section \<open>The allocator\<close>

text \<open>
  \<^verbatim>\<open>linked_list_allocator::Heap\<close>: its operations read and write the heap's memory.
\<close>

record 'h heap_crate =
  heap_empty :: 'h
  heap_init :: "u64 \<Rightarrow> usize \<Rightarrow> 'h \<times> mem \<Rightarrow> 'h \<times> mem"
  allocate_first_fit :: "Layout \<Rightarrow> 'h \<times> mem \<Rightarrow> u64 option \<times> 'h \<times> mem"
  heap_deallocate :: "u64 \<Rightarrow> Layout \<Rightarrow> 'h \<times> mem \<Rightarrow> 'h \<times> mem"

definition BLOCK_SIZES :: "usize list" where
  "BLOCK_SIZES = [8, 16, 32, 64, 128, 256, 512, 1024, 2048]"

record 'h FixedSizeBlockAllocator =
  list_heads :: "u64 option list"
  fallback_allocator :: 'h

definition FixedSizeBlockAllocator_new :: "'h heap_crate \<Rightarrow> 'h FixedSizeBlockAllocator" where
  "FixedSizeBlockAllocator_new H =
     \<lparr>list_heads = replicate (length BLOCK_SIZES) None, fallback_allocator = heap_empty H\<rparr>"

definition FixedSizeBlockAllocator_init ::
    "'h heap_crate \<Rightarrow> u64 \<Rightarrow> usize \<Rightarrow> 'h FixedSizeBlockAllocator \<times> mem \<Rightarrow> 'h FixedSizeBlockAllocator \<times> mem" where
  "FixedSizeBlockAllocator_init H heap_start heap_size =
     (\<lambda>(A, m). case heap_init H heap_start heap_size (fallback_allocator A, m) of
        (h, m') \<Rightarrow> (A\<lparr>fallback_allocator := h\<rparr>, m'))"

definition fallback_alloc ::
    "'h heap_crate \<Rightarrow> Layout \<Rightarrow> 'h FixedSizeBlockAllocator \<times> mem \<Rightarrow> u64 \<times> 'h FixedSizeBlockAllocator \<times> mem" where
  "fallback_alloc H layout =
     (\<lambda>(A, m). case allocate_first_fit H layout (fallback_allocator A, m) of
        (Some ptr, h, m') \<Rightarrow> (ptr, A\<lparr>fallback_allocator := h\<rparr>, m')
      | (None, h, m') \<Rightarrow> (0, A\<lparr>fallback_allocator := h\<rparr>, m'))"

definition list_index :: "Layout \<Rightarrow> nat option" where
  "list_index layout =
     (let required_block_size = max (layout_size layout) (layout_align layout)
      in position (\<lambda>s. required_block_size \<le> s) BLOCK_SIZES)"

text \<open>
  A \<^verbatim>\<open>ListNode\<close> is one word, the pointer to the next node; the null pointer is
  \<^verbatim>\<open>None\<close>.
\<close>

definition node_next :: "u64 \<Rightarrow> mem \<Rightarrow> u64 option" where
  "node_next node m = (if read_u64 node m = 0 then None else Some (read_u64 node m))"

definition write_node :: "u64 \<Rightarrow> u64 option \<Rightarrow> mem \<Rightarrow> mem" where
  "write_node node nxt m = write_u64 node (case nxt of None \<Rightarrow> 0 | Some a \<Rightarrow> a) m"

definition ListNode_size :: usize where
  "ListNode_size = 8"

definition alloc ::
    "'h heap_crate \<Rightarrow> Layout \<Rightarrow> 'h FixedSizeBlockAllocator \<times> mem
      \<Rightarrow> (u64 \<times> 'h FixedSizeBlockAllocator \<times> mem) option" where
  "alloc H layout =
     (\<lambda>(A, m). case list_index layout of
        Some index \<Rightarrow>
          (case list_heads A ! index of
             Some node \<Rightarrow>
               Some (node, A\<lparr>list_heads := (list_heads A)[index := node_next node m]\<rparr>, write_node node None m)
           | None \<Rightarrow>
               (let block_size = BLOCK_SIZES ! index;
                    block_align = block_size
                in case Layout_from_size_align block_size block_align of
                     None \<Rightarrow> None
                   | Some layout' \<Rightarrow> Some (fallback_alloc H layout' (A, m))))
      | None \<Rightarrow> Some (fallback_alloc H layout (A, m)))"

definition dealloc ::
    "'h heap_crate \<Rightarrow> u64 \<Rightarrow> Layout \<Rightarrow> 'h FixedSizeBlockAllocator \<times> mem
      \<Rightarrow> ('h FixedSizeBlockAllocator \<times> mem) option" where
  "dealloc H ptr layout =
     (\<lambda>(A, m). case list_index layout of
        Some index \<Rightarrow>
          (let new_node = list_heads A ! index
           in if \<not> ListNode_size \<le> BLOCK_SIZES ! index then None
              else Some (A\<lparr>list_heads := (list_heads A)[index := Some ptr]\<rparr>, write_node ptr new_node m))
      | None \<Rightarrow>
          (if ptr = 0 then None
           else case heap_deallocate H ptr layout (fallback_allocator A, m) of
                  (h, m') \<Rightarrow> Some (A\<lparr>fallback_allocator := h\<rparr>, m')))"

section \<open>Setting up the heap\<close>

definition HEAP_START :: usize where
  "HEAP_START = 0x444444440000"

definition HEAP_SIZE :: usize where
  "HEAP_SIZE = 100 * 1024"

datatype MapToError = FrameAllocationFailed | ParentEntryHugePage | PageAlreadyMapped u64

text \<open>\<^verbatim>\<open>VirtAddr - n\<close>, \<^verbatim>\<open>Page::containing_address\<close> and the iteration over
  \<^verbatim>\<open>Page::range_inclusive\<close>.\<close>

record page_crate =
  virt_sub :: "u64 \<Rightarrow> u64 \<Rightarrow> u64 option"
  page_containing :: "u64 \<Rightarrow> u64"
  page_range_inclusive :: "u64 \<Rightarrow> u64 \<Rightarrow> u64 list"

fun map_heap_pages ::
    "(MapToError, 'fa) map_to \<Rightarrow> ('fa \<Rightarrow> u64 option \<times> 'fa) \<Rightarrow> OffsetPageTable \<Rightarrow> u64 list \<Rightarrow> mem \<times> 'fa
      \<Rightarrow> (MapToError + unit) \<times> mem \<times> 'fa" where
  "map_heap_pages map_to get_frame mapper [] s = (Inr (), s)"
| "map_heap_pages map_to get_frame mapper (page # pages) (m, fa) =
     (case get_frame fa of
        (None, fa') \<Rightarrow> (Inl FrameAllocationFailed, m, fa')
      | (Some frame, fa') \<Rightarrow>
          (case map_to page frame (PRESENT_bit OR WRITABLE_bit) mapper (m, fa') of
             (Inl e, s) \<Rightarrow> (Inl e, s)
           | (Inr _, s) \<Rightarrow> map_heap_pages map_to get_frame mapper pages s))"

definition heap_page_range :: "x86_crate \<Rightarrow> page_crate \<Rightarrow> u64 list option" where
  "heap_page_range X C =
     (case virt_new X HEAP_START of
        None \<Rightarrow> None
      | Some start_addr \<Rightarrow>
          (case virt_add X start_addr HEAP_SIZE of
             None \<Rightarrow> None
           | Some heap_end \<Rightarrow>
               (case virt_sub C heap_end 1 of
                  None \<Rightarrow> None
                | Some end_addr \<Rightarrow>
                    Some (page_range_inclusive C (page_containing C start_addr) (page_containing C end_addr)))))"

definition init_heap ::
    "x86_crate \<Rightarrow> page_crate \<Rightarrow> 'h heap_crate \<Rightarrow> (MapToError, 'fa) map_to \<Rightarrow> ('fa \<Rightarrow> u64 option \<times> 'fa)
      \<Rightarrow> OffsetPageTable \<Rightarrow> 'h FixedSizeBlockAllocator \<Rightarrow> mem \<times> 'fa
      \<Rightarrow> ((MapToError + unit) \<times> 'h FixedSizeBlockAllocator \<times> mem \<times> 'fa) option" where
  "init_heap X C H map_to get_frame mapper A s =
     (case heap_page_range X C of
        None \<Rightarrow> None
      | Some page_range \<Rightarrow>
          (case map_heap_pages map_to get_frame mapper page_range s of
             (Inl e, s') \<Rightarrow> Some (Inl e, A, s')
           | (Inr _, m, fa) \<Rightarrow>
               (case FixedSizeBlockAllocator_init H HEAP_START HEAP_SIZE (A, m) of
                  (A', m') \<Rightarrow> Some (Inr (), A', m', fa))))"

section \<open>Choice of the block size\<close>

definition block_size :: "nat \<Rightarrow> nat" where
  "block_size i = 2 ^ (i + 3)"

lemma BLOCK_SIZES_nth: "i < 9 \<Longrightarrow> unat (BLOCK_SIZES ! i) = block_size i"
  and length_BLOCK_SIZES: "length BLOCK_SIZES = 9"
proof -
  have "\<forall>i \<in> set [0..<9]. unat (BLOCK_SIZES ! i) = block_size i"
    by (simp add: upt_rec BLOCK_SIZES_def block_size_def)
  then show "i < 9 \<Longrightarrow> unat (BLOCK_SIZES ! i) = block_size i" by simp
  show "length BLOCK_SIZES = 9" by (simp add: BLOCK_SIZES_def)
qed

lemma block_size_ge: "8 \<le> block_size i"
  unfolding block_size_def using power_increasing [of 3 "i + 3" "2 :: nat"] by simp

lemma block_size_le: "i < 9 \<Longrightarrow> block_size i \<le> 2048"
  unfolding block_size_def using power_increasing [of "i + 3" 11 "2 :: nat"] by simp

text \<open>
  Layouts as \<^verbatim>\<open>GlobalAlloc\<close> gets them: a valid alignment and a size that is not zero.
\<close>

definition layout_ok :: "Layout \<Rightarrow> bool" where
  "layout_ok l \<longleftrightarrow> is_power_of_two (layout_align l) \<and> layout_size l \<noteq> 0
     \<and> unat (layout_size l) \<le> 2 ^ 63 - unat (layout_align l)"

lemma unat_power_of_two: "k < 64 \<Longrightarrow> unat (2 ^ k :: u64) = 2 ^ k"
  using unat_of_nat_small [of "2 ^ k"] power_strict_increasing [of k 64 "2 :: nat"]
  by (simp del: unat_of_nat)

lemma layout_okD: "layout_ok l \<Longrightarrow> \<exists>k. unat (layout_align l) = 2 ^ k"
  by (auto simp: layout_ok_def is_power_of_two_def unat_power_of_two)

lemma block_layout:
  assumes "i < 9"
  shows "\<exists>l. Layout_from_size_align (BLOCK_SIZES ! i) (BLOCK_SIZES ! i) = Some l
    \<and> unat (layout_size l) = block_size i \<and> unat (layout_align l) = block_size i \<and> layout_ok l"
proof -
  let ?b = "BLOCK_SIZES ! i"
  have u: "unat ?b = block_size i" using assms by (rule BLOCK_SIZES_nth)
  have "?b = 2 ^ (i + 3)"
    using assms unat_power_of_two [of "i + 3"] by (simp only: word_unat_eq_iff u) (simp add: block_size_def)
  then have "is_power_of_two ?b"
    unfolding is_power_of_two_def using assms by (intro bexI [of _ "i + 3"]) simp_all
  then show ?thesis
    using block_size_le [OF assms] block_size_ge [of i] u
    by (auto simp: Layout_from_size_align_def layout_ok_def)
qed

lemma list_index_Some:
  assumes "list_index l = Some i"
  shows "i < 9" and "unat (layout_size l) \<le> block_size i" and "unat (layout_align l) \<le> block_size i"
    and "\<And>j. j < i \<Longrightarrow> block_size j < unat (layout_size l) \<or> block_size j < unat (layout_align l)"
proof -
  from assms have p: "i < length BLOCK_SIZES" "max (layout_size l) (layout_align l) \<le> BLOCK_SIZES ! i"
    "\<forall>j < i. \<not> max (layout_size l) (layout_align l) \<le> BLOCK_SIZES ! j"
    by (auto simp: list_index_def Let_def dest!: position_SomeD)
  then show "i < 9" by (simp add: length_BLOCK_SIZES)
  with p(2) show "unat (layout_size l) \<le> block_size i" "unat (layout_align l) \<le> block_size i"
    by (simp_all add: word_le_nat_alt BLOCK_SIZES_nth max_def split: if_splits)
  fix j
  assume "j < i"
  with p(3) \<open>i < 9\<close> show "block_size j < unat (layout_size l) \<or> block_size j < unat (layout_align l)"
    by (auto simp: word_le_nat_alt BLOCK_SIZES_nth max_def split: if_splits)
qed

lemma list_index_None_iff:
  "list_index l = None \<longleftrightarrow> 2048 < unat (layout_size l) \<or> 2048 < unat (layout_align l)"
  by (auto simp: list_index_def Let_def position_None_iff BLOCK_SIZES_def word_le_nat_alt max_def)

lemma align_dvd_block:
  assumes "layout_ok l" and "list_index l = Some i"
  shows "unat (layout_align l) dvd block_size i"
proof -
  obtain k where k: "unat (layout_align l) = 2 ^ k" using layout_okD [OF assms(1)] by blast
  with list_index_Some(3) [OF assms(2)] have "(2 :: nat) ^ k \<le> 2 ^ (i + 3)"
    by (simp only: block_size_def)
  then have "k \<le> i + 3" by simp
  then show ?thesis unfolding k block_size_def by (rule le_imp_power_dvd)
qed

section \<open>Free lists in memory\<close>

fun free_chain :: "mem \<Rightarrow> u64 option \<Rightarrow> u64 list \<Rightarrow> bool" where
  "free_chain m None bs \<longleftrightarrow> bs = []"
| "free_chain m (Some a) [] \<longleftrightarrow> False"
| "free_chain m (Some a) (b # bs) \<longleftrightarrow> a = b \<and> a \<noteq> 0 \<and> free_chain m (node_next a m) bs"

lemma node_next_cong: "(\<And>x. x \<in> region a 8 \<Longrightarrow> m' x = m x) \<Longrightarrow> node_next a m' = node_next a m"
  using read_bytes_cong [of a 8 m' m] by (simp add: node_next_def read_u64_def)

lemma free_chain_cong:
  "(\<And>a x. a \<in> set bs \<Longrightarrow> x \<in> region a 8 \<Longrightarrow> m' x = m x) \<Longrightarrow> free_chain m' h bs = free_chain m h bs"
proof (induction bs arbitrary: h)
  case Nil
  then show ?case by (cases h) auto
next
  case (Cons b bs)
  have n: "node_next b m' = node_next b m"
    by (rule node_next_cong) (rule Cons.prems [of b], simp_all)
  have r: "free_chain m' h' bs = free_chain m h' bs" for h'
    by (rule Cons.IH) (rule Cons.prems, simp_all)
  show ?case
  proof (cases h)
    case (Some a)
    then show ?thesis by (cases "a = b") (simp_all add: n r)
  qed simp
qed

lemma free_chain_Some: "free_chain m (Some a) bs \<Longrightarrow> \<exists>r. bs = a # r \<and> a \<noteq> 0 \<and> free_chain m (node_next a m) r"
  by (cases bs) auto

lemma free_chain_head: "free_chain m h bs \<Longrightarrow> h \<noteq> Some 0"
  by (cases h; cases bs) auto

lemma node_next_write: "nxt \<noteq> Some 0 \<Longrightarrow> node_next a (write_node a nxt m) = nxt"
  by (auto simp: node_next_def write_node_def split: option.split)

lemma write_node_outside: "x \<notin> region a 8 \<Longrightarrow> write_node a nxt m x = m x"
  by (simp add: write_node_def write_u64_outside)

section \<open>Extents\<close>

text \<open>
  A block of memory as its address and its size; a collection of blocks is disjoint when no byte
  lies in two of them.
\<close>

type_synonym extent = "u64 \<times> nat"

abbreviation extent_bytes :: "extent \<Rightarrow> u64 set" where
  "extent_bytes e \<equiv> region (fst e) (snd e)"

definition disjoint_extents :: "extent multiset \<Rightarrow> bool" where
  "disjoint_extents M \<longleftrightarrow> (\<forall>x. size {#e \<in># M. x \<in> extent_bytes e#} \<le> 1)"

lemma disjoint_extents_add:
  "disjoint_extents (add_mset e M) \<longleftrightarrow>
     disjoint_extents M \<and> (\<forall>e' \<in># M. extent_bytes e \<inter> extent_bytes e' = {})"
proof
  assume d: "disjoint_extents (add_mset e M)"
  have "disjoint_extents M"
    unfolding disjoint_extents_def
  proof
    fix x
    have "size {#e \<in># M. x \<in> extent_bytes e#} \<le> size {#e \<in># add_mset e M. x \<in> extent_bytes e#}"
      by (intro size_mset_mono multiset_filter_mono) simp
    also have "\<dots> \<le> 1" using d unfolding disjoint_extents_def by blast
    finally show "size {#e \<in># M. x \<in> extent_bytes e#} \<le> 1" .
  qed
  moreover have "extent_bytes e \<inter> extent_bytes e' = {}" if "e' \<in># M" for e'
  proof (rule ccontr)
    assume "extent_bytes e \<inter> extent_bytes e' \<noteq> {}"
    then obtain x where x: "x \<in> extent_bytes e" "x \<in> extent_bytes e'" by blast
    with that have "e' \<in># {#e \<in># M. x \<in> extent_bytes e#}" by simp
    then have "{#e \<in># M. x \<in> extent_bytes e#} \<noteq> {#}" by (metis empty_iff set_mset_empty)
    then have "size {#e \<in># M. x \<in> extent_bytes e#} \<noteq> 0" by (simp only: size_eq_0_iff_empty not_False_eq_True)
    moreover have "size {#e \<in># add_mset e M. x \<in> extent_bytes e#}
        = Suc (size {#e \<in># M. x \<in> extent_bytes e#})" using x(1) by simp
    moreover have "size {#e \<in># add_mset e M. x \<in> extent_bytes e#} \<le> 1"
      using d unfolding disjoint_extents_def by blast
    ultimately show False by linarith
  qed
  ultimately show "disjoint_extents M \<and> (\<forall>e' \<in># M. extent_bytes e \<inter> extent_bytes e' = {})" by blast
next
  assume d: "disjoint_extents M \<and> (\<forall>e' \<in># M. extent_bytes e \<inter> extent_bytes e' = {})"
  show "disjoint_extents (add_mset e M)"
    unfolding disjoint_extents_def
  proof
    fix x
    show "size {#e \<in># add_mset e M. x \<in> extent_bytes e#} \<le> 1"
    proof (cases "x \<in> extent_bytes e")
      case True
      with d have "\<forall>e' \<in># M. x \<notin> extent_bytes e'" by blast
      then have "set_mset {#e \<in># M. x \<in> extent_bytes e#} = {}" unfolding set_mset_filter by blast
      then have "{#e \<in># M. x \<in> extent_bytes e#} = {#}" unfolding set_mset_eq_empty_iff .
      then show ?thesis using True by simp
    next
      case False
      moreover have "size {#e \<in># M. x \<in> extent_bytes e#} \<le> 1"
        using d unfolding disjoint_extents_def by blast
      ultimately show ?thesis by simp
    qed
  qed
qed

section \<open>Documented behaviour of the fallback allocator\<close>

text \<open>
  \<open>good (h, m) E\<close> says that the heap \<open>h\<close> is in order in memory \<open>m\<close> with exactly the blocks \<open>E\<close>
  allocated. The crate keeps its bookkeeping in the free part of the heap: it neither reads nor
  writes allocated blocks, and returns aligned, disjoint blocks from inside the heap.
\<close>

type_synonym 'h heap_view = "'h \<times> mem \<Rightarrow> extent set \<Rightarrow> bool"

definition inside :: "nat \<Rightarrow> nat \<Rightarrow> extent \<Rightarrow> bool" where
  "inside lo n e \<longleftrightarrow> fst e \<noteq> 0 \<and> 0 < snd e \<and> lo \<le> unat (fst e) \<and> unat (fst e) + snd e \<le> lo + n"

definition heap_init_spec :: "'h heap_crate \<Rightarrow> 'h heap_view \<Rightarrow> u64 \<Rightarrow> usize \<Rightarrow> bool" where
  "heap_init_spec H good start sz \<longleftrightarrow> (\<forall>m. good (heap_init H start sz (heap_empty H, m)) {})"

definition heap_alloc_spec :: "'h heap_crate \<Rightarrow> 'h heap_view \<Rightarrow> nat \<Rightarrow> nat \<Rightarrow> bool" where
  "heap_alloc_spec H good lo n \<longleftrightarrow>
     (\<forall>h m E l r h' m'. good (h, m) E \<longrightarrow> layout_ok l \<longrightarrow> allocate_first_fit H l (h, m) = (r, h', m') \<longrightarrow>
        (\<forall>e \<in> E. \<forall>x \<in> extent_bytes e. m' x = m x)
      \<and> (case r of
           None \<Rightarrow> good (h', m') E
         | Some p \<Rightarrow>
             good (h', m') (insert (p, unat (layout_size l)) E)
           \<and> inside lo n (p, unat (layout_size l))
           \<and> unat (layout_align l) dvd unat p
           \<and> (\<forall>e \<in> E. region p (unat (layout_size l)) \<inter> extent_bytes e = {})))"

definition heap_dealloc_spec :: "'h heap_crate \<Rightarrow> 'h heap_view \<Rightarrow> bool" where
  "heap_dealloc_spec H good \<longleftrightarrow>
     (\<forall>h m E l p h' m'. good (h, m) E \<longrightarrow> (p, unat (layout_size l)) \<in> E \<longrightarrow>
        heap_deallocate H p l (h, m) = (h', m') \<longrightarrow>
          good (h', m') (E - {(p, unat (layout_size l))})
        \<and> (\<forall>e \<in> E - {(p, unat (layout_size l))}. \<forall>x \<in> extent_bytes e. m' x = m x))"

definition heap_private_spec :: "'h heap_view \<Rightarrow> bool" where
  "heap_private_spec good \<longleftrightarrow>
     (\<forall>h m m' E. good (h, m) E \<longrightarrow> (\<forall>x. x \<notin> (\<Union>e \<in> E. extent_bytes e) \<longrightarrow> m' x = m x) \<longrightarrow> good (h, m') E)"

definition heap_spec :: "'h heap_crate \<Rightarrow> 'h heap_view \<Rightarrow> u64 \<Rightarrow> usize \<Rightarrow> bool" where
  "heap_spec H good start sz \<longleftrightarrow>
     heap_init_spec H good start sz \<and> heap_alloc_spec H good (unat start) (unat sz)
   \<and> heap_dealloc_spec H good \<and> heap_private_spec good"

section \<open>The invariant\<close>

text \<open>
  The size of the block that serves a layout; the extents of the blocks on the free lists \<open>L\<close>, and
  of the blocks in use.
\<close>

definition extent_of :: "Layout \<Rightarrow> nat" where
  "extent_of l = (case list_index l of Some i \<Rightarrow> block_size i | None \<Rightarrow> unat (layout_size l))"

definition free_extents :: "(nat \<Rightarrow> u64 list) \<Rightarrow> extent multiset" where
  "free_extents L = (\<Sum>i < 9. image_mset (\<lambda>a. (a, block_size i)) (mset (L i)))"

definition live_extents :: "(u64 \<times> Layout) list \<Rightarrow> extent multiset" where
  "live_extents live = image_mset (\<lambda>(p, l). (p, extent_of l)) (mset live)"

definition live_ok :: "u64 \<times> Layout \<Rightarrow> bool" where
  "live_ok b \<longleftrightarrow> layout_ok (snd b) \<and> unat (layout_align (snd b)) dvd unat (fst b)
     \<and> (\<forall>i. list_index (snd b) = Some i \<longrightarrow> block_size i dvd unat (fst b))"

definition lists_ok :: "'h FixedSizeBlockAllocator \<Rightarrow> mem \<Rightarrow> (nat \<Rightarrow> u64 list) \<Rightarrow> bool" where
  "lists_ok A m L \<longleftrightarrow> length (list_heads A) = 9
     \<and> (\<forall>i < 9. free_chain m (list_heads A ! i) (L i) \<and> (\<forall>a \<in> set (L i). block_size i dvd unat a))"

definition heap_inv ::
    "'h heap_view \<Rightarrow> nat \<Rightarrow> nat \<Rightarrow> 'h FixedSizeBlockAllocator \<Rightarrow> mem \<Rightarrow> (u64 \<times> Layout) list
      \<Rightarrow> (nat \<Rightarrow> u64 list) \<Rightarrow> bool" where
  "heap_inv good lo n A m live L \<longleftrightarrow>
     lists_ok A m L \<and> (\<forall>b \<in> set live. live_ok b)
   \<and> disjoint_extents (free_extents L + live_extents live)
   \<and> (\<forall>e \<in># free_extents L + live_extents live. inside lo n e)
   \<and> good (fallback_allocator A, m) (set_mset (free_extents L + live_extents live))"

lemma free_extents_upd:
  assumes "i < 9"
  shows "free_extents (L(i := a # r)) = add_mset (a, block_size i) (free_extents (L(i := r)))"
proof -
  have "free_extents (L(i := xs))
      = image_mset (\<lambda>a. (a, block_size i)) (mset xs) + (\<Sum>j \<in> {..<9} - {i}. image_mset (\<lambda>a. (a, block_size j)) (mset (L j)))"
    for xs
    unfolding free_extents_def using assms by (subst sum.remove [of _ i]) auto
  then show ?thesis by simp
qed

lemma free_extents_member: "i < 9 \<Longrightarrow> a \<in> set (L i) \<Longrightarrow> (a, block_size i) \<in># free_extents L"
  using free_extents_upd [of i L] by (auto simp: free_extents_def set_mset_sum)

lemma free_block_unchanged:
  assumes "i < 9" and "a \<in> set (L i)" and "\<forall>e \<in># free_extents L. \<forall>x \<in> extent_bytes e. m' x = m x"
    and "x \<in> region a 8"
  shows "m' x = m x"
proof -
  have "x \<in> region a (block_size i)" using assms(4) block_size_ge [of i] by (simp add: region_def)
  moreover have "(a, block_size i) \<in># free_extents L" by (rule free_extents_member) fact+
  ultimately show ?thesis using assms(3) by fastforce
qed

lemma lists_ok_cong:
  assumes "lists_ok A m L" and "\<forall>e \<in># free_extents L. \<forall>x \<in> extent_bytes e. m' x = m x"
    and "list_heads A' = list_heads A"
  shows "lists_ok A' m' L"
proof -
  have "free_chain m' h (L i) = free_chain m h (L i)" if "i < 9" for i h
    by (rule free_chain_cong) (rule free_block_unchanged [of i _ L, OF that _ assms(2)])
  with assms(1,3) show ?thesis by (simp add: lists_ok_def)
qed

lemma live_extents_append: "live_extents (live @ [(p, l)]) = add_mset (p, extent_of l) (live_extents live)"
  by (simp add: live_extents_def)

lemma live_extents_remove:
  "k < length live \<Longrightarrow> live ! k = (p, l) \<Longrightarrow>
     live_extents live = add_mset (p, extent_of l) (live_extents (remove_at k live))"
  by (simp add: live_extents_def mset_remove_at [of k live])

lemma live_extents_member: "(p, l) \<in> set live \<Longrightarrow> (p, extent_of l) \<in># live_extents live"
  by (force simp: live_extents_def)

text \<open>Allocation from the fallback allocator.\<close>

lemma fallback_alloc_inv:
  assumes "heap_inv good lo n A m live L" and "heap_alloc_spec H good lo n"
    and l: "layout_ok l" "layout_ok l'" "extent_of l = unat (layout_size l')"
      "unat (layout_align l) dvd unat (layout_align l')"
      "\<And>i. list_index l = Some i \<Longrightarrow> block_size i dvd unat (layout_align l')"
    and "fallback_alloc H l' (A, m) = (p, A', m')"
  shows "heap_inv good lo n A' m' (if p = 0 then live else live @ [(p, l)]) L"
    and "\<forall>e \<in># free_extents L + live_extents live. \<forall>x \<in> extent_bytes e. m' x = m x"
proof -
  let ?M = "free_extents L + live_extents live"
  let ?e = "(p, unat (layout_size l'))"
  have inv: "lists_ok A m L" "\<forall>b \<in> set live. live_ok b" "disjoint_extents ?M"
    "\<forall>e \<in># ?M. inside lo n e" "good (fallback_allocator A, m) (set_mset ?M)"
    using assms(1) by (simp_all add: heap_inv_def)
  obtain r h' where ff: "allocate_first_fit H l' (fallback_allocator A, m) = (r, h', m')"
    and A': "A' = A\<lparr>fallback_allocator := h'\<rparr>" and r: "p = (case r of None \<Rightarrow> 0 | Some q \<Rightarrow> q)"
    using assms(8) by (auto simp: fallback_alloc_def split: prod.splits option.splits)
  from assms(2) inv(5) l(2) ff
  have spec: "\<forall>e \<in> set_mset ?M. \<forall>x \<in> extent_bytes e. m' x = m x"
    "case r of None \<Rightarrow> good (h', m') (set_mset ?M)
     | Some q \<Rightarrow> good (h', m') (insert (q, unat (layout_size l')) (set_mset ?M))
         \<and> inside lo n (q, unat (layout_size l')) \<and> unat (layout_align l') dvd unat q
         \<and> (\<forall>e \<in> set_mset ?M. region q (unat (layout_size l')) \<inter> extent_bytes e = {})"
    unfolding heap_alloc_spec_def by blast+
  show "\<forall>e \<in># ?M. \<forall>x \<in> extent_bytes e. m' x = m x" by (rule spec(1))
  have lists: "lists_ok A' m' L"
    by (rule lists_ok_cong [OF inv(1)]) (use spec(1) in \<open>auto simp: A'\<close>)
  show "heap_inv good lo n A' m' (if p = 0 then live else live @ [(p, l)]) L"
  proof (cases r)
    case None
    with r spec(2) inv lists show ?thesis by (simp add: heap_inv_def A')
  next
    case (Some q)
    with r have "q = p" by simp
    with Some spec(2) have q: "good (h', m') (insert ?e (set_mset ?M))" "inside lo n ?e"
      "unat (layout_align l') dvd unat p" "\<forall>e \<in># ?M. extent_bytes ?e \<inter> extent_bytes e = {}"
      by auto
    have M': "free_extents L + live_extents (live @ [(p, l)]) = add_mset ?e ?M"
      by (simp add: live_extents_append l(3))
    have "p \<noteq> 0" using q(2) by (simp add: inside_def)
    moreover have "live_ok (p, l)" using l(1,4,5) q(3) dvd_trans by (auto simp: live_ok_def)
    ultimately show ?thesis
      using inv(2,3,4) lists q(1,2) disjoint_extents_add [of ?e ?M] q(4)
      unfolding heap_inv_def if_not_P [OF \<open>p \<noteq> 0\<close>] M' by (simp add: A')
  qed
qed

text \<open>
  A write into one block of a disjoint collection leaves the other blocks alone, and the
  fallback allocator does not notice it.
\<close>

lemma node_write_outside:
  assumes "disjoint_extents (add_mset (a, k) M)" and "8 \<le> k"
  shows "\<forall>e \<in># M. \<forall>x \<in> extent_bytes e. write_node a nxt m x = m x"
proof (intro ballI)
  fix e x
  assume "e \<in># M" and "x \<in> extent_bytes e"
  with assms(1) have "x \<notin> region a k" unfolding disjoint_extents_add by auto
  with assms(2) have "x \<notin> region a 8" by (simp add: region_def)
  then show "write_node a nxt m x = m x" by (rule write_node_outside)
qed

lemma node_write_private:
  assumes "heap_private_spec good" and "good (h, m) (set_mset M)" and "(a, k) \<in># M" and "8 \<le> k"
  shows "good (h, write_node a nxt m) (set_mset M)"
proof -
  have "write_node a nxt m x = m x" if "x \<notin> (\<Union>e \<in> set_mset M. extent_bytes e)" for x
  proof -
    from that assms(3) have "x \<notin> region a k" by force
    with assms(4) have "x \<notin> region a 8" by (simp add: region_def)
    then show ?thesis by (rule write_node_outside)
  qed
  with assms(1,2) show ?thesis unfolding heap_private_spec_def by blast
qed

lemma lists_ok_pop:
  assumes "lists_ok A m L" and "i < 9" and "L i = a # r"
    and "\<forall>e \<in># free_extents (L(i := r)). \<forall>x \<in> extent_bytes e. m' x = m x"
  shows "lists_ok (A\<lparr>list_heads := (list_heads A)[i := node_next a m]\<rparr>) m' (L(i := r))"
proof -
  let ?A = "A\<lparr>list_heads := (list_heads A)[i := node_next a m]\<rparr>"
  have len: "length (list_heads A) = 9" using assms(1) by (simp add: lists_ok_def)
  have "free_chain m (list_heads A ! i) (a # r)" using assms(1-3) by (metis lists_ok_def)
  then have "free_chain m (node_next a m) r" by (cases "list_heads A ! i") auto
  with assms(1,2,3) len have "lists_ok ?A m (L(i := r))"
    by (auto simp: lists_ok_def nth_list_update)
  then show ?thesis using assms(4) by (rule lists_ok_cong) simp
qed

lemma lists_ok_push:
  assumes "lists_ok A m L" and "i < 9" and "a \<noteq> 0" and "block_size i dvd unat a"
    and m': "m' = write_node a (list_heads A ! i) m"
    and "\<forall>e \<in># free_extents L. \<forall>x \<in> extent_bytes e. m' x = m x"
  shows "lists_ok (A\<lparr>list_heads := (list_heads A)[i := Some a]\<rparr>) m' (L(i := a # L i))"
proof -
  have l: "lists_ok A m' L" by (rule lists_ok_cong [OF assms(1,6)]) simp
  have "node_next a m' = list_heads A ! i"
    unfolding m' using assms(1,2) free_chain_head by (intro node_next_write) (auto simp: lists_ok_def)
  with l assms(2,3,4) show ?thesis by (auto simp: lists_ok_def nth_list_update)
qed

lemma alloc_pop_inv:
  assumes inv: "heap_inv good lo n A m live L" and "heap_private_spec good" and l: "layout_ok l"
    and idx: "list_index l = Some i" and hd: "list_heads A ! i = Some a"
  shows "\<exists>L'. heap_inv good lo n (A\<lparr>list_heads := (list_heads A)[i := node_next a m]\<rparr>) (write_node a None m)
      (live @ [(a, l)]) L' \<and> a \<noteq> 0
    \<and> (\<forall>e \<in># live_extents live. \<forall>x \<in> extent_bytes e. write_node a None m x = m x)"
proof -
  have i: "i < 9" using idx by (rule list_index_Some)
  have ext: "extent_of l = block_size i" using idx by (simp add: extent_of_def)
  have lists: "lists_ok A m L" using inv by (simp add: heap_inv_def)
  then have "free_chain m (list_heads A ! i) (L i)" using i by (simp add: lists_ok_def)
  with hd obtain r where r: "L i = a # r" and "a \<noteq> 0" using free_chain_Some [of m a "L i"] by auto
  let ?L = "L(i := r)" and ?m = "write_node a None m" and ?M = "free_extents L + live_extents live"
  have fe: "free_extents L = add_mset (a, block_size i) (free_extents ?L)"
    using free_extents_upd [OF i, of L a r] r by (metis fun_upd_triv)
  then have M: "free_extents ?L + live_extents (live @ [(a, l)]) = ?M"
    by (simp add: live_extents_append ext)
  have "disjoint_extents (add_mset (a, block_size i) (free_extents ?L + live_extents live))"
    using inv fe by (simp add: heap_inv_def)
  note same = node_write_outside [OF this block_size_ge, of None m]
  have "lists_ok (A\<lparr>list_heads := (list_heads A)[i := node_next a m]\<rparr>) ?m ?L"
    using same by (intro lists_ok_pop [OF lists i r]) auto
  moreover have "block_size i dvd unat a" using lists i r unfolding lists_ok_def by fastforce
  with align_dvd_block [OF l idx] have "live_ok (a, l)" using l idx dvd_trans by (auto simp: live_ok_def)
  moreover have "good (fallback_allocator A, ?m) (set_mset ?M)"
    by (rule node_write_private [OF assms(2) _ _ block_size_ge]) (use inv fe in \<open>auto simp: heap_inv_def\<close>)
  ultimately have "heap_inv good lo n (A\<lparr>list_heads := (list_heads A)[i := node_next a m]\<rparr>) ?m (live @ [(a, l)]) ?L"
    using inv unfolding heap_inv_def M by auto
  then show ?thesis using same \<open>a \<noteq> 0\<close> by auto
qed

lemma alloc_inv:
  assumes inv: "heap_inv good lo n A m live L"
    and spec: "heap_alloc_spec H good lo n" "heap_private_spec good" and l: "layout_ok l"
  shows "\<exists>p A' m' L'. alloc H l (A, m) = Some (p, A', m')
    \<and> heap_inv good lo n A' m' (if p = 0 then live else live @ [(p, l)]) L'
    \<and> (\<forall>e \<in># live_extents live. \<forall>x \<in> extent_bytes e. m' x = m x)"
proof (cases "list_index l")
  case None
  obtain p A' m' where f: "fallback_alloc H l (A, m) = (p, A', m')" by (metis prod_cases3)
  have "extent_of l = unat (layout_size l)" using None by (simp add: extent_of_def)
  from fallback_alloc_inv [OF inv spec(1) l l this dvd_refl _ f] show ?thesis
    using None f by (auto simp: alloc_def)
next
  case (Some i)
  have i: "i < 9" using Some by (rule list_index_Some)
  show ?thesis
  proof (cases "list_heads A ! i")
    case None
    obtain l' where l': "Layout_from_size_align (BLOCK_SIZES ! i) (BLOCK_SIZES ! i) = Some l'"
      "unat (layout_size l') = block_size i" "unat (layout_align l') = block_size i" "layout_ok l'"
      using block_layout [OF i] by blast
    obtain p A' m' where f: "fallback_alloc H l' (A, m) = (p, A', m')" by (metis prod_cases3)
    from fallback_alloc_inv [OF inv spec(1) l l'(4) _ _ _ f] show ?thesis
      using Some None f l' align_dvd_block [OF l Some] by (auto simp: alloc_def Let_def extent_of_def)
  next
    case (Some a)
    from alloc_pop_inv [OF inv spec(2) l \<open>list_index l = Some i\<close> this] show ?thesis
      using \<open>list_index l = Some i\<close> Some by (auto simp: alloc_def)
  qed
qed

lemma heap_inv_take:
  assumes inv: "heap_inv good lo n A m live L" and k: "k < length live" "live ! k = (p, l)"
  defines "M \<equiv> free_extents L + live_extents (remove_at k live)"
  shows "lists_ok A m L" and "\<forall>b \<in> set (remove_at k live). live_ok b" and "live_ok (p, l)"
    and "disjoint_extents (add_mset (p, extent_of l) M)"
    and "\<forall>e \<in># add_mset (p, extent_of l) M. inside lo n e" and "p \<noteq> 0"
    and "good (fallback_allocator A, m) (set_mset (add_mset (p, extent_of l) M))"
proof -
  have M: "free_extents L + live_extents live = add_mset (p, extent_of l) M"
    by (simp add: M_def live_extents_remove [OF k])
  show "lists_ok A m L" and "\<forall>b \<in> set (remove_at k live). live_ok b"
    and "disjoint_extents (add_mset (p, extent_of l) M)"
    and i: "\<forall>e \<in># add_mset (p, extent_of l) M. inside lo n e"
    and "good (fallback_allocator A, m) (set_mset (add_mset (p, extent_of l) M))"
    using inv set_remove_at_subset [of k live] unfolding heap_inv_def M by auto
  show "live_ok (p, l)" using inv k nth_mem [OF k(1)] by (auto simp: heap_inv_def)
  show "p \<noteq> 0" using i by (simp add: inside_def)
qed

lemma dealloc_fallback_inv:
  assumes inv: "heap_inv good lo n A m live L" and spec: "heap_dealloc_spec H good"
    and k: "k < length live" "live ! k = (p, l)" and idx: "list_index l = None"
    and d: "heap_deallocate H p l (fallback_allocator A, m) = (h', m')"
  shows "heap_inv good lo n (A\<lparr>fallback_allocator := h'\<rparr>) m' (remove_at k live) L"
    and "\<forall>e \<in># live_extents (remove_at k live). \<forall>x \<in> extent_bytes e. m' x = m x"
proof -
  let ?e = "(p, extent_of l)" and ?M = "free_extents L + live_extents (remove_at k live)"
  note inv' = heap_inv_take [OF inv k]
  have sz: "extent_of l = unat (layout_size l)" using idx by (simp add: extent_of_def)
  have dis: "disjoint_extents ?M" and apart: "\<forall>e \<in># ?M. extent_bytes ?e \<inter> extent_bytes e = {}"
    using inv'(4) unfolding disjoint_extents_add by auto
  have "p \<in> extent_bytes ?e" using inv'(5) by (simp add: inside_def region_def)
  then have "?e \<notin># ?M" using apart by blast
  then have E: "set_mset (add_mset ?e ?M) - {?e} = set_mset ?M" by auto
  have "(p, unat (layout_size l)) \<in> set_mset (add_mset ?e ?M)" by (simp add: sz)
  with spec inv'(7) d have "good (h', m') (set_mset (add_mset ?e ?M) - {?e})"
    and "\<forall>e \<in> set_mset (add_mset ?e ?M) - {?e}. \<forall>x \<in> extent_bytes e. m' x = m x"
    unfolding heap_dealloc_spec_def sz by blast+
  then have g: "good (h', m') (set_mset ?M)" and same: "\<forall>e \<in># ?M. \<forall>x \<in> extent_bytes e. m' x = m x"
    unfolding E by auto
  then show "\<forall>e \<in># live_extents (remove_at k live). \<forall>x \<in> extent_bytes e. m' x = m x" by auto
  have "lists_ok (A\<lparr>fallback_allocator := h'\<rparr>) m' L"
    by (rule lists_ok_cong [OF inv'(1)]) (use same in auto)
  with g dis inv'(2,5) show "heap_inv good lo n (A\<lparr>fallback_allocator := h'\<rparr>) m' (remove_at k live) L"
    by (simp add: heap_inv_def)
qed

lemma dealloc_push_inv:
  assumes inv: "heap_inv good lo n A m live L" and spec: "heap_private_spec good"
    and k: "k < length live" "live ! k = (p, l)" and idx: "list_index l = Some i"
  defines "m' \<equiv> write_node p (list_heads A ! i) m"
  shows "heap_inv good lo n (A\<lparr>list_heads := (list_heads A)[i := Some p]\<rparr>) m' (remove_at k live)
      (L(i := p # L i))"
    and "\<forall>e \<in># live_extents (remove_at k live). \<forall>x \<in> extent_bytes e. m' x = m x"
proof -
  let ?e = "(p, extent_of l)" and ?M = "free_extents L + live_extents (remove_at k live)"
  note inv' = heap_inv_take [OF inv k]
  have i: "i < 9" using idx by (rule list_index_Some)
  have sz: "extent_of l = block_size i" using idx by (simp add: extent_of_def)
  have same: "\<forall>e \<in># ?M. \<forall>x \<in> extent_bytes e. m' x = m x"
    unfolding m'_def by (rule node_write_outside [OF inv'(4)]) (simp add: sz block_size_ge)
  then show "\<forall>e \<in># live_extents (remove_at k live). \<forall>x \<in> extent_bytes e. m' x = m x" by auto
  have M': "free_extents (L(i := p # L i)) + live_extents (remove_at k live) = add_mset ?e ?M"
    by (simp add: free_extents_upd [OF i] sz)
  have "lists_ok (A\<lparr>list_heads := (list_heads A)[i := Some p]\<rparr>) m' (L(i := p # L i))"
    using inv'(3,6) idx same by (intro lists_ok_push [OF inv'(1) i]) (auto simp: live_ok_def m'_def)
  moreover have "good (fallback_allocator A, m') (set_mset (add_mset ?e ?M))"
    unfolding m'_def
    by (rule node_write_private [OF spec inv'(7), where k = "block_size i"]) (simp_all add: sz block_size_ge)
  ultimately show "heap_inv good lo n (A\<lparr>list_heads := (list_heads A)[i := Some p]\<rparr>) m'
      (remove_at k live) (L(i := p # L i))"
    using inv'(2,4,5) unfolding heap_inv_def M' by auto
qed

lemma dealloc_inv:
  assumes inv: "heap_inv good lo n A m live L"
    and spec: "heap_dealloc_spec H good" "heap_private_spec good"
    and k: "k < length live" "live ! k = (p, l)"
  shows "\<exists>A' m' L'. dealloc H p l (A, m) = Some (A', m')
    \<and> heap_inv good lo n A' m' (remove_at k live) L'
    \<and> (\<forall>e \<in># live_extents (remove_at k live). \<forall>x \<in> extent_bytes e. m' x = m x)"
proof (cases "list_index l")
  case None
  obtain h' m' where d: "heap_deallocate H p l (fallback_allocator A, m) = (h', m')" by fastforce
  moreover have "p \<noteq> 0" using inv k by (rule heap_inv_take)
  ultimately have "dealloc H p l (A, m) = Some (A\<lparr>fallback_allocator := h'\<rparr>, m')"
    using None by (simp add: dealloc_def)
  with dealloc_fallback_inv [OF inv spec(1) k None d] show ?thesis by blast
next
  case (Some i)
  have i: "i < 9" using Some by (rule list_index_Some)
  have "ListNode_size \<le> BLOCK_SIZES ! i"
    using BLOCK_SIZES_nth [OF i] block_size_ge [of i] by (simp add: ListNode_size_def word_le_nat_alt)
  then have "dealloc H p l (A, m) = Some (A\<lparr>list_heads := (list_heads A)[i := Some p]\<rparr>,
      write_node p (list_heads A ! i) m)" using Some by (simp add: dealloc_def Let_def)
  with dealloc_push_inv [OF inv spec(2) k Some] show ?thesis by blast
qed

section \<open>Clients of the heap\<close>

text \<open>
  What the rest of the kernel does with the heap: allocate with some layout, free one of the blocks
  in use with the layout it was allocated with, store a byte into a block in use. The third part of
  the state is the list of the blocks in use. \<open>None\<close> is a panic of the allocator.
\<close>

datatype heap_op = Alloc Layout | Dealloc nat | Store nat nat u8

type_synonym 'h heap_state = "'h FixedSizeBlockAllocator \<times> mem \<times> (u64 \<times> Layout) list"

fun heap_step :: "'h heap_crate \<Rightarrow> heap_op \<Rightarrow> 'h heap_state \<Rightarrow> 'h heap_state option" where
  "heap_step H (Alloc l) (A, m, live) =
     (case alloc H l (A, m) of
        None \<Rightarrow> None
      | Some (p, A', m') \<Rightarrow> Some (A', m', if p = 0 then live else live @ [(p, l)]))"
| "heap_step H (Dealloc k) (A, m, live) =
     (if k < length live
      then case dealloc H (fst (live ! k)) (snd (live ! k)) (A, m) of
             None \<Rightarrow> None
           | Some (A', m') \<Rightarrow> Some (A', m', remove_at k live)
      else Some (A, m, live))"
| "heap_step H (Store k i b) (A, m, live) =
     (if k < length live \<and> i < unat (layout_size (snd (live ! k)))
      then Some (A, m(fst (live ! k) + of_nat i := b), live)
      else Some (A, m, live))"

fun heap_run :: "'h heap_crate \<Rightarrow> heap_op list \<Rightarrow> 'h heap_state \<Rightarrow> 'h heap_state option" where
  "heap_run H [] s = Some s"
| "heap_run H (op # ops) s =
     (case heap_step H op s of
        None \<Rightarrow> None
      | Some s' \<Rightarrow> heap_run H ops s')"

definition heap_start :: "'h heap_crate \<Rightarrow> u64 \<Rightarrow> usize \<Rightarrow> mem \<Rightarrow> 'h heap_state" where
  "heap_start H start sz m =
     (case FixedSizeBlockAllocator_init H start sz (FixedSizeBlockAllocator_new H, m) of (A, m') \<Rightarrow> (A, m', []))"

fun op_ok :: "heap_op \<Rightarrow> bool" where
  "op_ok (Alloc l) \<longleftrightarrow> layout_ok l"
| "op_ok _ \<longleftrightarrow> True"

lemma size_le_extent: "unat (layout_size l) \<le> extent_of l"
  by (auto simp: extent_of_def list_index_Some split: option.split)

lemma store_inv:
  assumes inv: "heap_inv good lo n A m live L" and spec: "heap_private_spec good" and "lo + n \<le> 2 ^ 64"
    and k: "k < length live" "live ! k = (p, l)" and i: "i < unat (layout_size l)"
  shows "heap_inv good lo n A (m(p + of_nat i := b)) live L"
    and "\<forall>e \<in># live_extents (remove_at k live). \<forall>x \<in> extent_bytes e. (m(p + of_nat i := b)) x = m x"
proof -
  let ?e = "(p, extent_of l)" and ?M = "free_extents L + live_extents (remove_at k live)"
  let ?m = "m(p + of_nat i := b)"
  note inv' = heap_inv_take [OF inv k]
  have "extent_of l \<le> 2 ^ 64" using inv'(5) assms(3) by (simp add: inside_def)
  then have "p + of_nat i \<in> extent_bytes ?e" using i size_le_extent [of l] in_region by auto
  moreover from this have same: "\<forall>e \<in># ?M. \<forall>x \<in> extent_bytes e. ?m x = m x"
    using inv'(4) unfolding disjoint_extents_add by auto
  ultimately have "\<forall>x. x \<notin> (\<Union>e \<in> set_mset (add_mset ?e ?M). extent_bytes e) \<longrightarrow> ?m x = m x" by auto
  with spec inv'(7) have "good (fallback_allocator A, ?m) (set_mset (add_mset ?e ?M))"
    unfolding heap_private_spec_def by blast
  moreover have "free_extents L + live_extents live = add_mset ?e ?M"
    by (simp add: live_extents_remove [OF k])
  moreover have "lists_ok A ?m L"
    using same unfolding set_mset_union ball_Un by (intro lists_ok_cong [OF inv'(1)]) blast+
  ultimately show "heap_inv good lo n A ?m live L" using inv unfolding heap_inv_def by simp
  show "\<forall>e \<in># live_extents (remove_at k live). \<forall>x \<in> extent_bytes e. ?m x = m x"
    using same unfolding set_mset_union ball_Un by blast
qed

lemma nth_in_remove_at: "i < length xs \<Longrightarrow> j < length xs \<Longrightarrow> i \<noteq> j \<Longrightarrow> xs ! j \<in> set (remove_at i xs)"
proof (cases "j < i")
  case False
  assume "i < length xs" "j < length xs" "i \<noteq> j"
  with False have "xs ! j = drop (Suc i) xs ! (j - Suc i)" and "j - Suc i < length (drop (Suc i) xs)"
    by auto
  then show ?thesis unfolding remove_at_def by (metis UnI2 nth_mem set_append)
next
  case True
  assume "i < length xs" "j < length xs"
  with True have "xs ! j = take i xs ! j" and "j < length (take i xs)" by auto
  then show ?thesis unfolding remove_at_def by (metis UnI1 nth_mem set_append)
qed

definition untouched :: "heap_op \<Rightarrow> nat \<Rightarrow> bool" where
  "untouched op j \<longleftrightarrow> op \<noteq> Dealloc j \<and> (\<forall>i b. op \<noteq> Store j i b)"

lemma heap_step_inv:
  assumes "heap_spec H good start sz" and "unat start + unat sz \<le> 2 ^ 64" and "op_ok op"
    and inv: "heap_inv good (unat start) (unat sz) A m live L"
  shows "\<exists>A' m' live' L'. heap_step H op (A, m, live) = Some (A', m', live')
    \<and> heap_inv good (unat start) (unat sz) A' m' live' L'
    \<and> (\<forall>j < length live. untouched op j \<longrightarrow>
         (\<forall>x \<in> region (fst (live ! j)) (extent_of (snd (live ! j))). m' x = m x))"
proof -
  have spec: "heap_alloc_spec H good (unat start) (unat sz)" "heap_dealloc_spec H good" "heap_private_spec good"
    using assms(1) by (simp_all add: heap_spec_def)
  have member: "(fst (xs ! j), extent_of (snd (xs ! j))) \<in># live_extents ys" if "xs ! j \<in> set ys"
    for xs ys :: "(u64 \<times> Layout) list" and j
    using that by (intro live_extents_member) simp
  have step: ?thesis
    if "heap_step H op (A, m, live) = Some (A', m', live')" "heap_inv good (unat start) (unat sz) A' m' live' L'"
      "\<forall>e \<in># live_extents ys. \<forall>x \<in> extent_bytes e. m' x = m x"
      "\<And>j. j < length live \<Longrightarrow> untouched op j \<Longrightarrow> live ! j \<in> set ys" for A' m' live' L' ys
    using that member by (intro exI [of _ A'] exI [of _ m'] exI [of _ live'] exI [of _ L']) fastforce
  show ?thesis
  proof (cases op)
    case (Alloc l)
    with assms(3) have "layout_ok l" by simp
    from alloc_inv [OF inv spec(1,3) this] obtain p A' m' L' where
      "alloc H l (A, m) = Some (p, A', m')"
      "heap_inv good (unat start) (unat sz) A' m' (if p = 0 then live else live @ [(p, l)]) L'"
      "\<forall>e \<in># live_extents live. \<forall>x \<in> extent_bytes e. m' x = m x" by blast
    with Alloc show ?thesis by (intro step [of _ _ _ _ live]) simp_all
  next
    case (Dealloc k)
    show ?thesis
    proof (cases "k < length live")
      case True
      obtain p l where "live ! k = (p, l)" by fastforce
      with dealloc_inv [OF inv spec(2,3) True this] True Dealloc show ?thesis
        by (elim exE conjE, intro step)
          (auto simp: untouched_def intro: nth_in_remove_at)
    next
      case False
      with Dealloc inv show ?thesis by (intro step [of _ _ _ _ live]) auto
    qed
  next
    case (Store k i b)
    show ?thesis
    proof (cases "k < length live \<and> i < unat (layout_size (snd (live ! k)))")
      case True
      then have s: "k < length live" "live ! k = (fst (live ! k), snd (live ! k))"
        "i < unat (layout_size (snd (live ! k)))" by simp_all
      have "heap_step H op (A, m, live) = Some (A, m(fst (live ! k) + of_nat i := b), live)"
        using True Store by simp
      then show ?thesis
        using store_inv [OF inv spec(3) assms(2) s]
      proof (rule step)
        show "live ! j \<in> set (remove_at k live)" if "j < length live" "untouched op j" for j
          using that s Store by (auto simp: untouched_def intro: nth_in_remove_at)
      qed
    next
      case False
      with Store inv show ?thesis by (intro step [of _ _ _ _ live]) auto
    qed
  qed
qed

lemma heap_start_inv:
  assumes "heap_spec H good start sz"
  shows "\<exists>A m' L. heap_start H start sz m = (A, m', []) \<and> heap_inv good (unat start) (unat sz) A m' [] L"
proof -
  obtain h m' where h: "heap_init H start sz (heap_empty H, m) = (h, m')" by fastforce
  with assms have g: "good (h, m') {}" unfolding heap_spec_def heap_init_spec_def by metis
  let ?A = "(FixedSizeBlockAllocator_new H)\<lparr>fallback_allocator := h\<rparr>"
  have "heap_inv good (unat start) (unat sz) ?A m' [] (\<lambda>_. [])"
    using g by (simp add: heap_inv_def lists_ok_def FixedSizeBlockAllocator_new_def length_BLOCK_SIZES
        free_extents_def live_extents_def disjoint_extents_def)
  moreover have "heap_start H start sz m = (?A, m', [])"
    using h by (simp add: heap_start_def FixedSizeBlockAllocator_init_def FixedSizeBlockAllocator_new_def)
  ultimately show ?thesis by blast
qed

lemma heap_run_inv:
  assumes "heap_spec H good start sz" and "unat start + unat sz \<le> 2 ^ 64" and "\<forall>op \<in> set ops. op_ok op"
    and "heap_inv good (unat start) (unat sz) A m live L"
  shows "\<exists>A' m' live' L'. heap_run H ops (A, m, live) = Some (A', m', live')
    \<and> heap_inv good (unat start) (unat sz) A' m' live' L'"
  using assms(3,4)
proof (induction ops arbitrary: A m live L)
  case Nil
  then show ?case by auto
next
  case (Cons op ops)
  from heap_step_inv [OF assms(1,2) _ Cons.prems(2), of op] Cons.prems(1)
  obtain A' m' live' L' where "heap_step H op (A, m, live) = Some (A', m', live')"
    and "heap_inv good (unat start) (unat sz) A' m' live' L'" by auto
  with Cons.IH [of A' m' live' L'] Cons.prems(1) show ?case by simp
qed

lemma heap_run_start:
  assumes "heap_spec H good start sz" and "unat start + unat sz \<le> 2 ^ 64" and "\<forall>op \<in> set ops. op_ok op"
  shows "\<exists>A m' live L. heap_run H ops (heap_start H start sz m) = Some (A, m', live)
    \<and> heap_inv good (unat start) (unat sz) A m' live L"
  using heap_start_inv [OF assms(1), of m] heap_run_inv [OF assms] by fastforce

lemma live_blocks:
  assumes "heap_inv good lo n A m live L"
  shows "b \<in> set live \<Longrightarrow> unat (layout_align (snd b)) dvd unat (fst b)"
    and "b \<in> set live \<Longrightarrow> lo \<le> unat (fst b) \<and> unat (fst b) + unat (layout_size (snd b)) \<le> lo + n"
    and "i < length live \<Longrightarrow> j < length live \<Longrightarrow> i \<noteq> j \<Longrightarrow>
      region (fst (live ! i)) (extent_of (snd (live ! i))) \<inter> region (fst (live ! j)) (extent_of (snd (live ! j))) = {}"
proof -
  assume b: "b \<in> set live"
  then show "unat (layout_align (snd b)) dvd unat (fst b)"
    using assms by (auto simp: heap_inv_def live_ok_def)
  have "(fst b, extent_of (snd b)) \<in># live_extents live" using b by (intro live_extents_member) simp
  with assms have "inside lo n (fst b, extent_of (snd b))" by (simp add: heap_inv_def)
  then show "lo \<le> unat (fst b) \<and> unat (fst b) + unat (layout_size (snd b)) \<le> lo + n"
    using size_le_extent [of "snd b"] by (simp add: inside_def)
next
  assume i: "i < length live" and j: "j < length live" and "i \<noteq> j"
  have "(fst (live ! j), extent_of (snd (live ! j))) \<in># live_extents (remove_at i live)"
    using nth_in_remove_at [OF i j \<open>i \<noteq> j\<close>] by (intro live_extents_member) simp
  with heap_inv_take(4) [OF assms i, of "fst (live ! i)" "snd (live ! i)"]
  show "region (fst (live ! i)) (extent_of (snd (live ! i)))
      \<inter> region (fst (live ! j)) (extent_of (snd (live ! j))) = {}"
    unfolding disjoint_extents_add by force
qed

section \<open>Properties\<close>

text \<open>
  C3 (blocks in use never overlap). From a fresh heap, whatever layouts are allocated, whichever
  blocks are freed with their layout and whatever is stored into blocks in use, the allocator never
  panics, every block in use is aligned as asked and lies in the heap with its full size, and no two
  blocks in use share a byte.
\<close>

theorem allocator_blocks_disjoint:
  assumes "heap_spec H good start sz" and "unat start + unat sz \<le> 2 ^ 64" and "\<forall>op \<in> set ops. op_ok op"
  shows "\<exists>A m' live. heap_run H ops (heap_start H start sz m) = Some (A, m', live)
    \<and> (\<forall>(p, l) \<in> set live. unat (layout_align l) dvd unat p
         \<and> unat start \<le> unat p \<and> unat p + unat (layout_size l) \<le> unat start + unat sz)
    \<and> (\<forall>i < length live. \<forall>j < length live. i \<noteq> j \<longrightarrow>
         region (fst (live ! i)) (unat (layout_size (snd (live ! i))))
           \<inter> region (fst (live ! j)) (unat (layout_size (snd (live ! j)))) = {})"
proof -
  obtain A m' live L where run: "heap_run H ops (heap_start H start sz m) = Some (A, m', live)"
    and inv: "heap_inv good (unat start) (unat sz) A m' live L"
    using heap_run_start [OF assms, of m] by blast
  have sub: "region p (unat (layout_size l)) \<subseteq> region p (extent_of l)" for p l
    using size_le_extent [of l] by (auto simp: region_def)
  have "region (fst (live ! i)) (unat (layout_size (snd (live ! i))))
      \<inter> region (fst (live ! j)) (unat (layout_size (snd (live ! j)))) = {}"
    if "i < length live" "j < length live" "i \<noteq> j" for i j
    using live_blocks(3) [OF inv that] sub by blast
  moreover have "\<forall>(p, l) \<in> set live. unat (layout_align l) dvd unat p
      \<and> unat start \<le> unat p \<and> unat p + unat (layout_size l) \<le> unat start + unat sz"
    using live_blocks(1,2) [OF inv] by auto
  ultimately show ?thesis using run by blast
qed

text \<open>
  C14 (contents of blocks). No operation on the heap, other than freeing a block or storing into it,
  changes a byte of a block in use.
\<close>

theorem allocator_keeps_contents:
  assumes "heap_spec H good start sz" and "unat start + unat sz \<le> 2 ^ 64" and "\<forall>q \<in> set ops. op_ok q"
    and "heap_run H ops (heap_start H start sz m) = Some (A, m1, live)" and "op_ok op"
    and "j < length live" and "untouched op j" and "i < unat (layout_size (snd (live ! j)))"
  shows "\<exists>A' m2 live'. heap_step H op (A, m1, live) = Some (A', m2, live')
    \<and> m2 (fst (live ! j) + of_nat i) = m1 (fst (live ! j) + of_nat i)"
proof -
  obtain L where inv: "heap_inv good (unat start) (unat sz) A m1 live L"
    using heap_run_start [OF assms(1-3), of m] assms(4) by auto
  have "unat (fst (live ! j)) + unat (layout_size (snd (live ! j))) \<le> 2 ^ 64"
    using live_blocks(2) [OF inv nth_mem [OF assms(6)]] assms(2) by simp
  then have "fst (live ! j) + of_nat i \<in> region (fst (live ! j)) (extent_of (snd (live ! j)))"
    using in_region [OF assms(8), of "fst (live ! j)"] size_le_extent [of "snd (live ! j)"]
    by (simp add: region_def)
  with heap_step_inv [OF assms(1,2,5) inv] assms(6,7) show ?thesis by blast
qed

text \<open>
  A heap crate that meets the documented behaviour: it hands out increasing addresses and never
  reuses memory.
\<close>

definition align_up :: "nat \<Rightarrow> nat \<Rightarrow> nat" where
  "align_up a x = (x + a - 1) div a * a"

lemma align_up: "0 < a \<Longrightarrow> x \<le> align_up a x" "a dvd align_up a x"
  unfolding align_up_def using div_mult_mod_eq [of "x + a - 1" a] mod_less_divisor [of a "x + a - 1"]
  by (linarith, simp)

definition bump_heap :: "(nat \<times> nat) heap_crate" where
  "bump_heap =
     \<lparr>heap_empty = (0, 0),
      heap_init = (\<lambda>start sz s. ((unat start, unat start + unat sz), snd s)),
      allocate_first_fit = (\<lambda>l s. case s of ((nx, hi), m) \<Rightarrow>
        (let p = align_up (unat (layout_align l)) nx
         in if p + unat (layout_size l) \<le> hi
            then (Some (of_nat p), (p + unat (layout_size l), hi), m)
            else (None, (nx, hi), m))),
      heap_deallocate = (\<lambda>p l s. s)\<rparr>"

definition bump_good :: "nat \<Rightarrow> nat \<Rightarrow> (nat \<times> nat) heap_view" where
  "bump_good lo n s E \<longleftrightarrow> (case s of ((nx, hi), m) \<Rightarrow> hi = lo + n \<and> lo \<le> nx
     \<and> (\<forall>e \<in> E. unat (fst e) + snd e \<le> nx \<and> unat (fst e) + snd e \<le> hi))"

lemma bump_alloc_spec:
  assumes "lo + n < 2 ^ 64" and "0 < lo"
  shows "heap_alloc_spec bump_heap (bump_good lo n) lo n"
  unfolding heap_alloc_spec_def
proof (intro allI impI)
  fix h m E l r h' m'
  assume g: "bump_good lo n (h, m) E" and l: "layout_ok l"
    and a: "allocate_first_fit bump_heap l (h, m) = (r, h', m')"
  obtain nx where h: "h = (nx, lo + n)" "lo \<le> nx" and E: "\<forall>e \<in> E. unat (fst e) + snd e \<le> nx \<and> unat (fst e) + snd e \<le> lo + n"
    using g by (auto simp: bump_good_def split: prod.splits)
  define p where "p = align_up (unat (layout_align l)) nx"
  have al: "0 < unat (layout_align l)" using layout_okD [OF l] by auto
  then have p: "nx \<le> p" "unat (layout_align l) dvd p" by (simp_all add: p_def align_up)
  have sz: "0 < unat (layout_size l)" using l by (simp add: layout_ok_def unat_gt_0)
  show "(\<forall>e \<in> E. \<forall>x \<in> extent_bytes e. m' x = m x) \<and> (case r of None \<Rightarrow> bump_good lo n (h', m') E
    | Some q \<Rightarrow> bump_good lo n (h', m') (insert (q, unat (layout_size l)) E)
        \<and> inside lo n (q, unat (layout_size l)) \<and> unat (layout_align l) dvd unat q
        \<and> (\<forall>e \<in> E. region q (unat (layout_size l)) \<inter> extent_bytes e = {}))"
  proof (cases "p + unat (layout_size l) \<le> lo + n")
    case False
    with a h have "r = None" "h' = h" "m' = m" by (auto simp: bump_heap_def p_def Let_def)
    then show ?thesis using g by simp
  next
    case True
    with a h have r: "r = Some (of_nat p)" "h' = (p + unat (layout_size l), lo + n)" "m' = m"
      by (auto simp: bump_heap_def p_def Let_def)
    have u: "unat (of_nat p :: u64) = p" using True assms by (intro unat_of_nat_small) simp
    have "inside lo n (of_nat p, unat (layout_size l))"
      using u True sz p h assms(2) by (auto simp: inside_def word_unat_eq_iff)
    moreover have "bump_good lo n (h', m') (insert (of_nat p, unat (layout_size l)) E)"
      using E u True p h by (auto simp: bump_good_def r intro: order_trans)
    moreover have "region (of_nat p) (unat (layout_size l)) \<inter> extent_bytes e = {}" if "e \<in> E" for e
    proof -
      have "unat (fst e) + snd e \<le> p" using E that p by fastforce
      then show ?thesis using True assms(1) u by (auto simp: region_no_wrap)
    qed
    ultimately show ?thesis using p u r by simp
  qed
qed

lemma bump_heap_spec:
  assumes "unat start + unat sz < 2 ^ 64" and "start \<noteq> 0"
  shows "heap_spec bump_heap (bump_good (unat start) (unat sz)) start sz"
proof -
  have "heap_alloc_spec bump_heap (bump_good (unat start) (unat sz)) (unat start) (unat sz)"
    using assms by (intro bump_alloc_spec) (simp_all add: unat_gt_0)
  moreover have "heap_dealloc_spec bump_heap (bump_good (unat start) (unat sz))"
    by (auto simp: heap_dealloc_spec_def bump_heap_def bump_good_def)
  ultimately show ?thesis
    by (auto simp: heap_spec_def heap_init_spec_def heap_private_spec_def bump_heap_def bump_good_def)
qed

definition example_ops :: "heap_op list" where
  "example_ops =
     [Alloc \<lparr>layout_size = 24, layout_align = 8\<rparr>, Alloc \<lparr>layout_size = 4096, layout_align = 4096\<rparr>,
      Store 0 3 7, Dealloc 0, Alloc \<lparr>layout_size = 32, layout_align = 16\<rparr>]"

lemma power_of_two_witness: "k < 64 \<Longrightarrow> a = 2 ^ k \<Longrightarrow> is_power_of_two a"
  by (auto simp: is_power_of_two_def)

lemma small_power_of_two:
  "is_power_of_two 8" "is_power_of_two 16" "is_power_of_two 32" "is_power_of_two 4096"
  using power_of_two_witness [of 3] power_of_two_witness [of 4] power_of_two_witness [of 5]
    power_of_two_witness [of 12] by simp_all

lemma example_ops_ok: "\<forall>op \<in> set example_ops. op_ok op"
  using small_power_of_two by (simp add: example_ops_def layout_ok_def)

lemma kernel_heap_spec:
  "heap_spec bump_heap (bump_good (unat HEAP_START) (unat HEAP_SIZE)) HEAP_START HEAP_SIZE"
  by (rule bump_heap_spec) (simp_all add: HEAP_START_def HEAP_SIZE_def)

theorem allocator_blocks_disjoint_witness:
  "\<exists>A m' live. heap_run bump_heap example_ops (heap_start bump_heap HEAP_START HEAP_SIZE (\<lambda>_. 0))
      = Some (A, m', live)
    \<and> (\<forall>(p, l) \<in> set live. unat (layout_align l) dvd unat p)"
proof -
  have "unat HEAP_START + unat HEAP_SIZE \<le> 2 ^ 64" by (simp add: HEAP_START_def HEAP_SIZE_def)
  from allocator_blocks_disjoint [OF kernel_heap_spec this example_ops_ok, of "\<lambda>_. 0"]
  show ?thesis by fastforce
qed

lemma example_run:
  "\<exists>A m1 l. heap_run bump_heap [Alloc \<lparr>layout_size = 24, layout_align = 8\<rparr>]
      (heap_start bump_heap HEAP_START HEAP_SIZE (\<lambda>_. 0)) = Some (A, m1, [(HEAP_START, l)])
    \<and> unat (layout_size l) = 24"
  using small_power_of_two
  by (simp add: heap_start_def FixedSizeBlockAllocator_init_def FixedSizeBlockAllocator_new_def bump_heap_def
      alloc_def list_index_def BLOCK_SIZES_def Layout_from_size_align_def
      fallback_alloc_def align_up_def HEAP_START_def HEAP_SIZE_def)

theorem allocator_keeps_contents_witness:
  "\<exists>A m1 live A' m2 live'. heap_run bump_heap [Alloc \<lparr>layout_size = 24, layout_align = 8\<rparr>]
      (heap_start bump_heap HEAP_START HEAP_SIZE (\<lambda>_. 0)) = Some (A, m1, live)
    \<and> heap_step bump_heap (Alloc \<lparr>layout_size = 100, layout_align = 16\<rparr>) (A, m1, live) = Some (A', m2, live')
    \<and> m2 (fst (live ! 0) + of_nat 3) = m1 (fst (live ! 0) + of_nat 3)"
proof -
  have bound: "unat HEAP_START + unat HEAP_SIZE \<le> 2 ^ 64" by (simp add: HEAP_START_def HEAP_SIZE_def)
  obtain A m1 l where run: "heap_run bump_heap [Alloc \<lparr>layout_size = 24, layout_align = 8\<rparr>]
      (heap_start bump_heap HEAP_START HEAP_SIZE (\<lambda>_. 0)) = Some (A, m1, [(HEAP_START, l)])"
    and l: "unat (layout_size l) = 24" using example_run by blast
  have ok: "\<forall>q \<in> set [Alloc \<lparr>layout_size = 24, layout_align = 8\<rparr>]. op_ok q"
    "op_ok (Alloc \<lparr>layout_size = 100, layout_align = 16\<rparr>)"
    using small_power_of_two by (simp_all add: layout_ok_def)
  from allocator_keeps_contents [OF kernel_heap_spec bound ok(1) run ok(2), of 0 3] l
  have "\<exists>A' m2 live'. heap_step bump_heap (Alloc \<lparr>layout_size = 100, layout_align = 16\<rparr>)
      (A, m1, [(HEAP_START, l)]) = Some (A', m2, live')
    \<and> m2 (fst ([(HEAP_START, l)] ! 0) + of_nat 3) = m1 (fst ([(HEAP_START, l)] ! 0) + of_nat 3)"
    by (simp add: untouched_def)
  with run show ?thesis by blast
qed

text \<open>
  Reuse of freed blocks. Freeing a block of one of the fixed sizes and allocating one of the
  same size returns the freed block, gives back the allocator as it was before, and has changed
  memory only in the first eight bytes of the block.
\<close>

theorem freed_block_reused:
  assumes "list_index l = Some i" and "list_index l' = Some i" and "i < length (list_heads A)"
    and "p \<noteq> 0" and "list_heads A ! i \<noteq> Some 0"
  shows "\<exists>s m'. dealloc H p l (A, m) = Some s \<and> alloc H l' s = Some (p, A, m')
    \<and> (\<forall>x. x \<notin> region p 8 \<longrightarrow> m' x = m x)"
proof -
  have i: "i < 9" using assms(1) by (rule list_index_Some)
  have "ListNode_size \<le> BLOCK_SIZES ! i"
    using BLOCK_SIZES_nth [OF i] block_size_ge [of i] by (simp add: ListNode_size_def word_le_nat_alt)
  then show ?thesis
    using assms node_next_write [OF assms(5), of p m]
    by (simp add: dealloc_def alloc_def Let_def write_node_outside)
qed

theorem freed_block_reused_witness:
  "\<exists>s m'. dealloc bump_heap 0x1000 \<lparr>layout_size = 20, layout_align = 4\<rparr>
        (FixedSizeBlockAllocator_new bump_heap, \<lambda>_. 0) = Some s
    \<and> alloc bump_heap \<lparr>layout_size = 32, layout_align = 8\<rparr> s
        = Some (0x1000, FixedSizeBlockAllocator_new bump_heap, m')"
proof -
  have "list_index \<lparr>layout_size = 20, layout_align = 4\<rparr> = Some 2"
    and "list_index \<lparr>layout_size = 32, layout_align = 8\<rparr> = Some 2"
    by (simp_all add: list_index_def BLOCK_SIZES_def)
  from freed_block_reused [OF this, of "FixedSizeBlockAllocator_new bump_heap" "0x1000" bump_heap "\<lambda>_. 0"]
  show ?thesis by (auto simp: FixedSizeBlockAllocator_new_def BLOCK_SIZES_def)
qed

section \<open>The pages of the heap\<close>

definition page_spec :: "page_crate \<Rightarrow> bool" where
  "page_spec C \<longleftrightarrow>
     (\<forall>a n. n \<le> a \<longrightarrow> canonical (a - n) \<longrightarrow> virt_sub C a n = Some (a - n))
   \<and> (\<forall>a. page_containing C a = a - a mod 4096)
   \<and> (\<forall>a b. page_aligned a \<longrightarrow> page_aligned b \<longrightarrow> a \<le> b \<longrightarrow>
        page_range_inclusive C a b = map (\<lambda>i. a + of_nat (4096 * i)) [0..<(unat b - unat a) div 4096 + 1])"

definition heap_pages :: "u64 list" where
  "heap_pages = map (\<lambda>i. HEAP_START + of_nat (4096 * i)) [0..<25]"

lemma heap_page_range_eq:
  assumes "virt_new_spec X" and "virt_add_spec X" and "page_spec C"
  shows "heap_page_range X C = Some heap_pages"
proof -
  have 1: "virt_new X HEAP_START = Some HEAP_START"
    using assms(1) by (rule virt_new_low) (simp add: HEAP_START_def)
  have 2: "virt_add X HEAP_START HEAP_SIZE = Some (HEAP_START + HEAP_SIZE)"
    using assms(2) by (rule virt_add_low) (simp add: HEAP_START_def HEAP_SIZE_def)
  have "1 \<le> HEAP_START + HEAP_SIZE" and "canonical (HEAP_START + HEAP_SIZE - 1)"
    by (simp_all add: canonical_def HEAP_START_def HEAP_SIZE_def)
  then have 3: "virt_sub C (HEAP_START + HEAP_SIZE) 1 = Some (HEAP_START + HEAP_SIZE - 1)"
    using assms(3) unfolding page_spec_def by blast
  have 4: "page_containing C HEAP_START = HEAP_START"
    "page_containing C (HEAP_START + HEAP_SIZE - 1) = HEAP_START + 0x18000"
    using assms(3) by (simp_all add: page_spec_def HEAP_START_def HEAP_SIZE_def)
  have "page_aligned HEAP_START" "page_aligned (HEAP_START + 0x18000)" "HEAP_START \<le> HEAP_START + 0x18000"
    by (simp_all add: page_aligned_def HEAP_START_def)
  then have "page_range_inclusive C HEAP_START (HEAP_START + 0x18000)
      = map (\<lambda>i. HEAP_START + of_nat (4096 * i)) [0..<(unat (HEAP_START + 0x18000) - unat HEAP_START) div 4096 + 1]"
    using assms(3) unfolding page_spec_def by blast
  also have "(unat (HEAP_START + 0x18000) - unat HEAP_START) div 4096 + 1 = 25"
    by (simp add: HEAP_START_def)
  finally show ?thesis by (simp add: heap_page_range_def heap_pages_def 1 2 3 4)
qed

text \<open>The pages are distinct and cover exactly the bytes of the heap.\<close>

lemma heap_pages_cover:
  "distinct heap_pages" "(\<Union>page \<in> set heap_pages. region page 4096) = region HEAP_START (unat HEAP_SIZE)"
proof -
  have d: "unat (HEAP_START + of_nat (4096 * i)) = unat HEAP_START + 4096 * i" if "i < 25" for i
    using that by (simp add: unat_word_ariths unat_of_nat HEAP_START_def)
  have "inj_on (\<lambda>i. HEAP_START + of_nat (4096 * i)) {0..<25}"
  proof (rule inj_on_inverseI)
    fix i :: nat
    assume "i \<in> {0..<25}"
    then show "(unat (HEAP_START + of_nat (4096 * i)) - unat HEAP_START) div 4096 = i"
      by (subst d) simp_all
  qed
  then show "distinct heap_pages" by (simp add: heap_pages_def distinct_map)
  have "x \<in> (\<Union>page \<in> set heap_pages. region page 4096) \<longleftrightarrow> unat (x - HEAP_START) < 102400" for x
  proof -
    have "x \<in> (\<Union>page \<in> set heap_pages. region page 4096)
        \<longleftrightarrow> (\<exists>i < 25. 4096 * i \<le> unat (x - HEAP_START) \<and> unat (x - HEAP_START) < 4096 * i + 4096)"
      unfolding heap_pages_def by (auto simp: region_shift simp del: of_nat_mult)
    also have "\<dots> \<longleftrightarrow> unat (x - HEAP_START) < 102400"
      by (auto intro!: exI [of _ "unat (x - HEAP_START) div 4096"])
    finally show ?thesis .
  qed
  then show "(\<Union>page \<in> set heap_pages. region page 4096) = region HEAP_START (unat HEAP_SIZE)"
    by (simp add: set_eq_iff region_def HEAP_SIZE_def)
qed

text \<open>
  Setting up the heap does not panic; it maps these pages in order, stops at the first failure
  with the allocator untouched, and otherwise initialises the allocator with exactly the bytes of
  the mapped pages.
\<close>

lemma init_heap_outcome:
  assumes "virt_new_spec X" and "virt_add_spec X" and "page_spec C"
  shows "init_heap X C H map_to get_frame mapper A s =
    Some (case map_heap_pages map_to get_frame mapper heap_pages s of
        (Inl e, s') \<Rightarrow> (Inl e, A, s')
      | (Inr _, m, fa) \<Rightarrow>
          (case FixedSizeBlockAllocator_init H HEAP_START HEAP_SIZE (A, m) of (A', m') \<Rightarrow> (Inr (), A', m', fa)))"
  by (simp add: init_heap_def heap_page_range_eq [OF assms] split: prod.split sum.split)

end
