(* ===== verification/Ruix_Cpu.thy ===== *)
theory Ruix_Cpu
  imports Ruix_Interfaces Ruix_Error Ruix_Mem
begin

text \<open>
  Management of several processors (\<^verbatim>\<open>src/cpu.rs\<close>): the data of one processor, the manager
  with its 64 slots, the kernel stacks and the performance counters. Atomic cells are plain fields:
  the operations of the module are single atomic accesses or run under the manager's lock. The field
  \<^verbatim>\<open>load_average\<close> is set to 0.0 and never used; it is left out.
\<close>

section \<open>The data of one processor\<close>

definition MAX_CPUS :: nat where
  "MAX_CPUS = 64"

record CpuLocalStorage =
  current_task :: "usize option"
  cpu_flags :: u64
  perf_counters :: "u64 list"
  last_error :: "KernelError option"

record CpuSchedulerState =
  is_scheduling :: bool
  next_task :: "usize option"
  quantum_remaining :: usize

record PerCpu =
  cd_cpu_id :: usize
  cd_current_process_id :: usize
  cd_user_rsp :: usize
  cd_kernel_stack_top :: usize
  cd_tss_ptr :: usize
  local_storage :: CpuLocalStorage
  interrupt_depth :: usize
  scheduler_state :: CpuSchedulerState

definition PerCpu_new :: "usize \<Rightarrow> usize \<Rightarrow> PerCpu" where
  "PerCpu_new cpu_id kernel_stack_top =
     \<lparr>cd_cpu_id = cpu_id, cd_current_process_id = 0, cd_user_rsp = 0,
      cd_kernel_stack_top = kernel_stack_top, cd_tss_ptr = 0,
      local_storage = \<lparr>current_task = None, cpu_flags = 0, perf_counters = replicate 4 0, last_error = None\<rparr>,
      interrupt_depth = 0,
      scheduler_state = \<lparr>is_scheduling = False, next_task = None, quantum_remaining = 0\<rparr>\<rparr>"

definition PerCpu_get_current_process_id :: "PerCpu \<Rightarrow> usize" where
  "PerCpu_get_current_process_id c = cd_current_process_id c"

definition PerCpu_set_current_process_id :: "usize \<Rightarrow> PerCpu \<Rightarrow> PerCpu" where
  "PerCpu_set_current_process_id pid c = c\<lparr>cd_current_process_id := pid\<rparr>"

definition get_user_rsp :: "PerCpu \<Rightarrow> usize" where
  "get_user_rsp c = cd_user_rsp c"

definition set_user_rsp :: "usize \<Rightarrow> PerCpu \<Rightarrow> PerCpu" where
  "set_user_rsp rsp c = c\<lparr>cd_user_rsp := rsp\<rparr>"

definition enter_interrupt :: "PerCpu \<Rightarrow> PerCpu" where
  "enter_interrupt c = c\<lparr>interrupt_depth := interrupt_depth c + 1\<rparr>"

definition exit_interrupt :: "PerCpu \<Rightarrow> PerCpu" where
  "exit_interrupt c = c\<lparr>interrupt_depth := interrupt_depth c - 1\<rparr>"

definition in_interrupt :: "PerCpu \<Rightarrow> bool" where
  "in_interrupt c \<longleftrightarrow> 0 < interrupt_depth c"

definition CPU_FLAG_PENDING_WORK :: u64 where "CPU_FLAG_PENDING_WORK = 0x1"
definition CPU_FLAG_IN_SYSCALL :: u64 where "CPU_FLAG_IN_SYSCALL = 0x2"
definition CPU_FLAG_SCHEDULE_PENDING :: u64 where "CPU_FLAG_SCHEDULE_PENDING = 0x4"

definition process_pending_work :: "PerCpu \<Rightarrow> PerCpu" where
  "process_pending_work c =
     c\<lparr>local_storage := (local_storage c)\<lparr>cpu_flags := cpu_flags (local_storage c) AND NOT CPU_FLAG_PENDING_WORK\<rparr>\<rparr>"

definition handle_interrupt_exit :: "PerCpu \<Rightarrow> PerCpu" where
  "handle_interrupt_exit c =
     (if cpu_flags (local_storage c) AND CPU_FLAG_PENDING_WORK \<noteq> 0 then process_pending_work c else c)"

definition set_last_error :: "KernelError \<Rightarrow> PerCpu \<Rightarrow> PerCpu" where
  "set_last_error err c = c\<lparr>local_storage := (local_storage c)\<lparr>last_error := Some err\<rparr>\<rparr>"

definition take_last_error :: "PerCpu \<Rightarrow> KernelError option \<times> PerCpu" where
  "take_last_error c =
     (last_error (local_storage c), c\<lparr>local_storage := (local_storage c)\<lparr>last_error := None\<rparr>\<rparr>)"

section \<open>The manager\<close>

record CpuManager =
  cpus :: "PerCpu option list"
  manager_cpu_count :: usize
  manager_current_cpu :: usize

definition CpuManager_new :: CpuManager where
  "CpuManager_new = \<lparr>cpus = replicate MAX_CPUS None, manager_cpu_count = 0, manager_current_cpu = 0\<rparr>"

definition init_cpu :: "usize \<Rightarrow> usize \<Rightarrow> CpuManager \<Rightarrow> unit KernelResult \<times> CpuManager" where
  "init_cpu cpu_id kernel_stack_top M =
     (if MAX_CPUS \<le> unat cpu_id then (Inl (General GeneralError.InvalidOperation), M)
      else if cpus M ! unat cpu_id \<noteq> None then (Inl (General GeneralError.InvalidState), M)
      else (Inr (), M\<lparr>cpus := (cpus M)[unat cpu_id := Some (PerCpu_new cpu_id kernel_stack_top)],
              manager_cpu_count := manager_cpu_count M + 1\<rparr>))"

definition get_cpu :: "usize \<Rightarrow> CpuManager \<Rightarrow> PerCpu KernelResult" where
  "get_cpu cpu_id M =
     (if MAX_CPUS \<le> unat cpu_id then Inl (General GeneralError.InvalidOperation)
      else case cpus M ! unat cpu_id of
             None \<Rightarrow> Inl (General GeneralError.InvalidState)
           | Some c \<Rightarrow> Inr c)"

definition get_current_cpu :: "CpuManager \<Rightarrow> PerCpu KernelResult" where
  "get_current_cpu M = get_cpu (manager_current_cpu M) M"

text \<open>The mutable accessors, with the change that the caller makes through the reference.\<close>

definition get_cpu_mut :: "usize \<Rightarrow> (PerCpu \<Rightarrow> PerCpu) \<Rightarrow> CpuManager \<Rightarrow> unit KernelResult \<times> CpuManager" where
  "get_cpu_mut cpu_id f M =
     (if MAX_CPUS \<le> unat cpu_id then (Inl (General GeneralError.InvalidOperation), M)
      else case cpus M ! unat cpu_id of
             None \<Rightarrow> (Inl (General GeneralError.InvalidState), M)
           | Some c \<Rightarrow> (Inr (), M\<lparr>cpus := (cpus M)[unat cpu_id := Some (f c)]\<rparr>))"

definition get_current_cpu_mut :: "(PerCpu \<Rightarrow> PerCpu) \<Rightarrow> CpuManager \<Rightarrow> unit KernelResult \<times> CpuManager" where
  "get_current_cpu_mut f M = get_cpu_mut (manager_current_cpu M) f M"

definition set_current_cpu :: "usize \<Rightarrow> CpuManager \<Rightarrow> CpuManager" where
  "set_current_cpu cpu_id M = M\<lparr>manager_current_cpu := cpu_id\<rparr>"

definition cpu_count :: "CpuManager \<Rightarrow> usize" where
  "cpu_count M = manager_cpu_count M"

definition iter_cpus :: "CpuManager \<Rightarrow> PerCpu list" where
  "iter_cpus M = List.map_filter (\<lambda>c. c) (cpus M)"

definition KERNEL_STACK_BASE :: usize where
  "KERNEL_STACK_BASE = 0xFFFF800000000000"

definition KERNEL_STACK_SIZE :: usize where
  "KERNEL_STACK_SIZE = 16 * 1024"

definition get_kernel_stack_for_cpu :: "usize \<Rightarrow> usize KernelResult" where
  "get_kernel_stack_for_cpu cpu_id =
     (let stack_base = KERNEL_STACK_BASE + cpu_id * KERNEL_STACK_SIZE
      in if stack_base mod 16 \<noteq> 0 then Inl (Memory BadAlignment)
         else Inr (stack_base + KERNEL_STACK_SIZE))"

definition cpu_init :: "CpuManager \<Rightarrow> unit KernelResult \<times> CpuManager" where
  "cpu_init M =
     (case get_kernel_stack_for_cpu 0 of
        Inl err \<Rightarrow> (Inl err, M)
      | Inr kernel_stack_top \<Rightarrow>
          (case init_cpu 0 kernel_stack_top M of
             (Inl err, M') \<Rightarrow> (Inl err, M')
           | (Inr _, M') \<Rightarrow> (Inr (), set_current_cpu 0 M')))"

definition with_current_cpu :: "(PerCpu \<Rightarrow> 'a KernelResult) \<Rightarrow> CpuManager \<Rightarrow> 'a KernelResult" where
  "with_current_cpu body M =
     (case get_current_cpu M of
        Inr c \<Rightarrow> body c
      | Inl e \<Rightarrow> Inl e)"

section \<open>Performance counters\<close>

record PerfMonitor =
  context_switches :: usize
  interrupts_handled :: usize
  syscalls_handled :: usize

definition PerfMonitor_new :: PerfMonitor where
  "PerfMonitor_new = \<lparr>context_switches = 0, interrupts_handled = 0, syscalls_handled = 0\<rparr>"

definition increment_context_switches :: "PerfMonitor \<Rightarrow> PerfMonitor" where
  "increment_context_switches s = s\<lparr>context_switches := context_switches s + 1\<rparr>"

definition increment_interrupts :: "PerfMonitor \<Rightarrow> PerfMonitor" where
  "increment_interrupts s = s\<lparr>interrupts_handled := interrupts_handled s + 1\<rparr>"

definition increment_syscalls :: "PerfMonitor \<Rightarrow> PerfMonitor" where
  "increment_syscalls s = s\<lparr>syscalls_handled := syscalls_handled s + 1\<rparr>"

definition PerfMonitor_get_stats :: "PerfMonitor \<Rightarrow> usize \<times> usize \<times> usize" where
  "PerfMonitor_get_stats s = (context_switches s, interrupts_handled s, syscalls_handled s)"

section \<open>The invariant of the manager\<close>

definition CpuManager_inv :: "CpuManager \<Rightarrow> bool" where
  "CpuManager_inv M \<longleftrightarrow>
     length (cpus M) = MAX_CPUS
   \<and> unat (manager_cpu_count M) = length (filter (\<lambda>c. c \<noteq> None) (cpus M))
   \<and> (\<forall>i < MAX_CPUS. \<forall>c. cpus M ! i = Some c \<longrightarrow> unat (cd_cpu_id c) = i)"

datatype cpu_data_op = SetPid usize | SetUserRsp usize | EnterInterrupt | ExitInterrupt
  | InterruptExit | SetLastError KernelError | TakeLastError

fun cpu_data_step :: "cpu_data_op \<Rightarrow> PerCpu \<Rightarrow> PerCpu" where
  "cpu_data_step (SetPid pid) = PerCpu_set_current_process_id pid"
| "cpu_data_step (SetUserRsp rsp) = set_user_rsp rsp"
| "cpu_data_step EnterInterrupt = enter_interrupt"
| "cpu_data_step ExitInterrupt = exit_interrupt"
| "cpu_data_step InterruptExit = handle_interrupt_exit"
| "cpu_data_step (SetLastError err) = set_last_error err"
| "cpu_data_step TakeLastError = snd \<circ> take_last_error"

datatype cpu_op = InitCpu usize usize | SetCurrentCpu usize | OnCpu usize cpu_data_op | OnCurrentCpu cpu_data_op

fun cpu_step :: "cpu_op \<Rightarrow> CpuManager \<Rightarrow> CpuManager" where
  "cpu_step (InitCpu cpu_id stk) M = snd (init_cpu cpu_id stk M)"
| "cpu_step (SetCurrentCpu cpu_id) M = set_current_cpu cpu_id M"
| "cpu_step (OnCpu cpu_id op) M = snd (get_cpu_mut cpu_id (cpu_data_step op) M)"
| "cpu_step (OnCurrentCpu op) M = snd (get_current_cpu_mut (cpu_data_step op) M)"

lemma cpu_data_step_id: "cd_cpu_id (cpu_data_step op c) = cd_cpu_id c"
  by (cases op) (simp_all add: PerCpu_set_current_process_id_def set_user_rsp_def enter_interrupt_def
      exit_interrupt_def handle_interrupt_exit_def process_pending_work_def set_last_error_def take_last_error_def)

lemma length_filter_fill:
  "i < length xs \<Longrightarrow> xs ! i = None \<Longrightarrow>
     length (filter (\<lambda>c. c \<noteq> None) (xs[i := Some y])) = Suc (length (filter (\<lambda>c. c \<noteq> None) xs))"
proof (induction xs arbitrary: i)
  case Nil
  then show ?case by simp
next
  case (Cons x xs)
  then show ?case by (cases i) auto
qed

lemma length_filter_refill:
  "xs ! i \<noteq> None \<Longrightarrow> length (filter (\<lambda>c. c \<noteq> None) (xs[i := Some y])) = length (filter (\<lambda>c. c \<noteq> None) xs)"
proof (induction xs arbitrary: i)
  case Nil
  then show ?case by simp
next
  case (Cons x xs)
  then show ?case by (cases i) auto
qed

lemma CpuManager_new_inv: "CpuManager_inv CpuManager_new"
  by (simp add: CpuManager_inv_def CpuManager_new_def)

lemma init_cpu_inv:
  assumes "CpuManager_inv M"
  shows "CpuManager_inv (snd (init_cpu cpu_id stk M))"
proof (cases "MAX_CPUS \<le> unat cpu_id \<or> cpus M ! unat cpu_id \<noteq> None")
  case True
  then show ?thesis using assms by (auto simp: init_cpu_def)
next
  case False
  then have i: "unat cpu_id < length (cpus M)" "cpus M ! unat cpu_id = None"
    using assms by (auto simp: CpuManager_inv_def)
  note n = length_filter_fill [OF i, of "PerCpu_new cpu_id stk"]
  have "length (filter (\<lambda>c. c \<noteq> None) ((cpus M)[unat cpu_id := Some (PerCpu_new cpu_id stk)])) \<le> MAX_CPUS"
    using assms length_filter_le by (metis CpuManager_inv_def length_list_update)
  then have "unat (manager_cpu_count M) + 1 < 2 ^ LENGTH(64)"
    using n assms by (simp add: CpuManager_inv_def MAX_CPUS_def)
  then have "unat (manager_cpu_count M + 1) = unat (manager_cpu_count M) + 1" by (rule unat_Suc_word)
  then show ?thesis
    using False assms n by (auto simp: init_cpu_def CpuManager_inv_def nth_list_update PerCpu_new_def)
qed

lemma get_cpu_mut_inv:
  assumes "CpuManager_inv M" and "\<And>c. cd_cpu_id (f c) = cd_cpu_id c"
  shows "CpuManager_inv (snd (get_cpu_mut cpu_id f M))"
  using assms length_filter_refill [of "cpus M" "unat cpu_id"]
  by (auto simp: get_cpu_mut_def CpuManager_inv_def nth_list_update split: option.split)

lemma set_current_cpu_inv: "CpuManager_inv M \<Longrightarrow> CpuManager_inv (set_current_cpu cpu_id M)"
  by (simp add: set_current_cpu_def CpuManager_inv_def)

interpretation cpu_life: invariant_system cpu_step CpuManager_inv
proof
  fix M op
  assume "CpuManager_inv M"
  then show "CpuManager_inv (cpu_step op M)"
    by (cases op) (simp_all add: init_cpu_inv get_cpu_mut_inv get_current_cpu_mut_def cpu_data_step_id
        set_current_cpu_inv)
qed

section \<open>Properties\<close>

lemma iter_cpus_filter: "map Some (iter_cpus M) = filter (\<lambda>c. c \<noteq> None) (cpus M)"
proof -
  have "map Some (List.map_filter (\<lambda>c. c) xs) = filter (\<lambda>c. c \<noteq> None) xs" for xs :: "PerCpu option list"
    by (induction xs) (auto simp: List.map_filter_simps)
  then show ?thesis by (simp add: iter_cpus_def)
qed

lemma iter_cpus_ids:
  assumes "CpuManager_inv M"
  shows "distinct (map cd_cpu_id (iter_cpus M))"
proof -
  let ?id = "\<lambda>c. case c of None \<Rightarrow> 0 | Some c \<Rightarrow> unat (cd_cpu_id c)"
  have "sorted_wrt (\<lambda>c d. ?id c < ?id d) (filter (\<lambda>c. c \<noteq> None) xs)"
    if "\<forall>i < length xs. \<forall>c. xs ! i = Some c \<longrightarrow> unat (cd_cpu_id c) = k + i" for xs k
    using that
  proof (induction xs arbitrary: k)
    case Nil
    then show ?case by simp
  next
    case (Cons x xs)
    have r: "\<forall>i < length xs. \<forall>c. xs ! i = Some c \<longrightarrow> unat (cd_cpu_id c) = Suc k + i"
      using Cons.prems by (metis Suc_less_eq add_Suc_shift length_Cons nth_Cons_Suc)
    have "?id x < ?id y" if "y \<in> set xs" "y \<noteq> None" "x \<noteq> None" for y
      using that r Cons.prems [rule_format, of 0] by (fastforce simp: in_set_conv_nth)
    with Cons.IH [OF r] show ?case by auto
  qed
  from this [of "cpus M" 0] assms have "sorted_wrt (\<lambda>c d. ?id c < ?id d) (map Some (iter_cpus M))"
    unfolding iter_cpus_filter by (simp add: CpuManager_inv_def)
  then have "sorted_wrt (\<lambda>c d. unat (cd_cpu_id c) < unat (cd_cpu_id d)) (iter_cpus M)"
    by (simp add: sorted_wrt_map)
  then have "sorted_wrt (<) (map (\<lambda>c. unat (cd_cpu_id c)) (iter_cpus M))" by (simp add: sorted_wrt_map)
  then have "distinct (map (\<lambda>c. unat (cd_cpu_id c)) (iter_cpus M))" by (simp add: strict_sorted_iff)
  then show ?thesis by (simp add: distinct_map comp_def inj_on_def)
qed

text \<open>
  C35 (registered processors). However the operations of the manager are called, the counter is the
  number of initialised processors, at most 64; the processor found under an identifier has that
  identifier, and iteration meets every initialised processor once.
\<close>

theorem cpu_manager_counts:
  fixes ops
  defines "M \<equiv> run cpu_step ops CpuManager_new"
  shows "unat (cpu_count M) = length (iter_cpus M) \<and> unat (cpu_count M) \<le> MAX_CPUS
    \<and> (\<forall>i c. get_cpu i M = Inr c \<longrightarrow> cd_cpu_id c = i \<and> c \<in> set (iter_cpus M))
    \<and> distinct (map cd_cpu_id (iter_cpus M))"
proof -
  have inv: "CpuManager_inv M" unfolding M_def by (rule cpu_life.inv_run [OF CpuManager_new_inv])
  then have n: "unat (cpu_count M) = length (iter_cpus M)"
    using arg_cong [OF iter_cpus_filter, of length M] by (simp add: CpuManager_inv_def cpu_count_def)
  have "length (filter (\<lambda>c. c \<noteq> None) (cpus M)) \<le> MAX_CPUS"
    using inv length_filter_le by (metis CpuManager_inv_def)
  then have "length (iter_cpus M) \<le> MAX_CPUS" unfolding iter_cpus_filter [symmetric] by simp
  moreover have "cd_cpu_id c = i \<and> c \<in> set (iter_cpus M)" if "get_cpu i M = Inr c" for i c
  proof -
    from that have c: "unat i < MAX_CPUS" "cpus M ! unat i = Some c"
      by (auto simp: get_cpu_def split: if_splits option.splits)
    then have "Some c \<in> set (map Some (iter_cpus M))"
      unfolding iter_cpus_filter using inv nth_mem [of "unat i" "cpus M"] by (simp add: CpuManager_inv_def)
    moreover have "unat (cd_cpu_id c) = unat i" using c inv by (simp add: CpuManager_inv_def)
    ultimately show ?thesis by (auto simp: word_unat_eq_iff)
  qed
  ultimately show ?thesis using n iter_cpus_ids [OF inv] by auto
qed

theorem cpu_manager_counts_witness:
  "unat (cpu_count (run cpu_step [InitCpu 3 0x1000, InitCpu 3 0x2000, InitCpu 64 0, InitCpu 5 0x3000] CpuManager_new))
     = length (iter_cpus (run cpu_step [InitCpu 3 0x1000, InitCpu 3 0x2000, InitCpu 64 0, InitCpu 5 0x3000] CpuManager_new))
   \<and> cpu_count (run cpu_step [InitCpu 3 0x1000, InitCpu 3 0x2000, InitCpu 64 0, InitCpu 5 0x3000] CpuManager_new) = 2"
  using cpu_manager_counts [of "[InitCpu 3 0x1000, InitCpu 3 0x2000, InitCpu 64 0, InitCpu 5 0x3000]"]
  by (simp add: init_cpu_def CpuManager_new_def MAX_CPUS_def cpu_count_def)

lemma kernel_stack:
  assumes "unat k < MAX_CPUS"
  defines "b \<equiv> KERNEL_STACK_BASE + k * KERNEL_STACK_SIZE"
  shows "get_kernel_stack_for_cpu k = Inr (b + KERNEL_STACK_SIZE)"
    and "unat b = unat KERNEL_STACK_BASE + 16384 * unat k"
    and "unat (b + KERNEL_STACK_SIZE) = unat KERNEL_STACK_BASE + 16384 * (unat k + 1)"
proof -
  have "unat (k * KERNEL_STACK_SIZE) = 16384 * unat k"
    using assms(1) by (simp add: KERNEL_STACK_SIZE_def MAX_CPUS_def unat_word_ariths)
  then show b: "unat b = unat KERNEL_STACK_BASE + 16384 * unat k"
    using assms(1) by (simp add: b_def KERNEL_STACK_BASE_def MAX_CPUS_def unat_word_ariths)
  then have "unat (b mod 16) = 0"
    unfolding unat_mod by (simp add: KERNEL_STACK_BASE_def)
  then have "b mod 16 = 0" by (simp add: unat_eq_0)
  then show "get_kernel_stack_for_cpu k = Inr (b + KERNEL_STACK_SIZE)"
    by (simp add: get_kernel_stack_for_cpu_def b_def)
  show "unat (b + KERNEL_STACK_SIZE) = unat KERNEL_STACK_BASE + 16384 * (unat k + 1)"
    unfolding unat_word_ariths(1) b
    using assms(1) by (simp add: KERNEL_STACK_SIZE_def KERNEL_STACK_BASE_def MAX_CPUS_def)
qed

text \<open>
  C36 (kernel stacks). For each of the 64 processors there is a kernel stack: the computation does not
  overflow, the top is 16 byte aligned in the upper half, and the stacks of different processors do
  not overlap.
\<close>

theorem kernel_stacks_disjoint:
  assumes "unat i < MAX_CPUS" and "unat j < MAX_CPUS" and "i \<noteq> j"
  shows "\<exists>s t. get_kernel_stack_for_cpu i = Inr s \<and> get_kernel_stack_for_cpu j = Inr t
    \<and> unat s = unat KERNEL_STACK_BASE + 16384 * (unat i + 1) \<and> s mod 16 = 0
    \<and> region (s - KERNEL_STACK_SIZE) 16384 \<inter> region (t - KERNEL_STACK_SIZE) 16384 = {}"
proof -
  let ?b = "\<lambda>k. KERNEL_STACK_BASE + k * KERNEL_STACK_SIZE"
  have "unat (?b k) + 16384 \<le> 2 ^ 64" if "unat k < MAX_CPUS" for k
    using kernel_stack(2) [OF that] that by (simp add: KERNEL_STACK_BASE_def MAX_CPUS_def)
  note r = this [THEN region_no_wrap]
  have "unat i \<noteq> unat j" using assms(3) by (simp add: word_unat_eq_iff)
  then have "region (?b i) 16384 \<inter> region (?b j) 16384 = {}"
    unfolding r [OF assms(1)] r [OF assms(2)] kernel_stack(2) [OF assms(1)] kernel_stack(2) [OF assms(2)]
    by auto
  moreover have "(?b i + KERNEL_STACK_SIZE) mod 16 = 0"
  proof -
    have "unat ((?b i + KERNEL_STACK_SIZE) mod 16) = 0"
      unfolding unat_mod kernel_stack(3) [OF assms(1)] by (simp add: KERNEL_STACK_BASE_def)
    then show ?thesis by (simp add: unat_eq_0)
  qed
  ultimately show ?thesis
    using kernel_stack [OF assms(1)] kernel_stack(1) [OF assms(2)] by simp
qed

theorem kernel_stacks_disjoint_witness:
  "get_kernel_stack_for_cpu 0 = Inr 0xFFFF800000004000 \<and>
     (\<exists>s t. get_kernel_stack_for_cpu 0 = Inr s \<and> get_kernel_stack_for_cpu 1 = Inr t
        \<and> region (s - KERNEL_STACK_SIZE) 16384 \<inter> region (t - KERNEL_STACK_SIZE) 16384 = {})"
  using kernel_stacks_disjoint [of 0 1]
  by (auto simp: MAX_CPUS_def get_kernel_stack_for_cpu_def KERNEL_STACK_BASE_def KERNEL_STACK_SIZE_def)

text \<open>
  Leaving an interrupt without having entered one wraps the depth, after which the processor counts as
  inside an interrupt; and leaving the last interrupt does not process pending work.
\<close>

lemma exit_interrupt_unbalanced: "interrupt_depth c = 0 \<Longrightarrow> in_interrupt (exit_interrupt c)"
  by (simp add: in_interrupt_def exit_interrupt_def word_neq_0_conv [symmetric])

lemma exit_interrupt_keeps_pending_work: "local_storage (exit_interrupt (enter_interrupt c)) = local_storage c"
  by (simp add: exit_interrupt_def enter_interrupt_def)

lemma interrupts_balanced: "exit_interrupt (enter_interrupt c) = c"
  by (simp add: exit_interrupt_def enter_interrupt_def)

lemma last_error_round_trip: "fst (take_last_error (set_last_error err c)) = Some err"
  by (simp add: take_last_error_def set_last_error_def)

text \<open>The boot processor is initialised once; a second initialisation is refused.\<close>

lemma cpu_init_once:
  "cpu_init CpuManager_new = (Inr (), snd (cpu_init CpuManager_new))"
  "cpu_init (snd (cpu_init CpuManager_new)) = (Inl (General GeneralError.InvalidState), snd (cpu_init CpuManager_new))"
  by (simp_all add: cpu_init_def get_kernel_stack_for_cpu_def KERNEL_STACK_BASE_def KERNEL_STACK_SIZE_def
      init_cpu_def CpuManager_new_def MAX_CPUS_def set_current_cpu_def)

end
