(* ===== verification/Ruix_Scalable.thy ===== *)
theory Ruix_Scalable
  imports Ruix_Scheduler Ruix_Allocator Ruix_Cpu
begin

text \<open>
  The memory manager (\<^verbatim>\<open>src/memory/scalable.rs\<close>): memory regions, the allocators of the
  single processors with their statistics, the global manager, which allocates from the kernel heap
  of \<^verbatim>\<open>src/allocator\<close>, and the page table operations that it offers to the IPC subsystem.
  Locks and atomic cells are plain fields. The spurious failure that
  \<^verbatim>\<open>compare_exchange_weak\<close> may have is an argument.
\<close>

section \<open>Memory regions\<close>

datatype MemoryType = Kernel | User | Device | Dma

record AllocFlags =
  flag_zero :: bool
  flag_contiguous :: bool
  flag_align :: "usize option"
  flag_mem_type :: MemoryType

definition AllocFlags_default :: AllocFlags where
  "AllocFlags_default = \<lparr>flag_zero = False, flag_contiguous = False, flag_align = None, flag_mem_type = Kernel\<rparr>"

record MemoryRegion =
  virt_start :: u64
  phys_start :: "u64 option"
  mr_size :: usize
  mr_mem_type :: MemoryType
  allocated :: bool
  mr_ref_count :: usize

definition MemoryRegion_new :: "u64 \<Rightarrow> usize \<Rightarrow> MemoryType \<Rightarrow> MemoryRegion" where
  "MemoryRegion_new start sz mt =
     \<lparr>virt_start = start, phys_start = None, mr_size = sz, mr_mem_type = mt, allocated = False, mr_ref_count = 0\<rparr>"

definition is_allocated :: "MemoryRegion \<Rightarrow> bool" where
  "is_allocated r = allocated r"

definition MemoryRegion_allocate :: "bool \<Rightarrow> MemoryRegion \<Rightarrow> bool \<times> MemoryRegion" where
  "MemoryRegion_allocate spurious r =
     (if allocated r \<or> spurious then (False, r) else (True, r\<lparr>allocated := True\<rparr>))"

definition MemoryRegion_deallocate :: "MemoryRegion \<Rightarrow> MemoryRegion" where
  "MemoryRegion_deallocate r = r\<lparr>allocated := False\<rparr>"

definition inc_ref :: "MemoryRegion \<Rightarrow> usize \<times> MemoryRegion" where
  "inc_ref r = (mr_ref_count r + 1, r\<lparr>mr_ref_count := mr_ref_count r + 1\<rparr>)"

definition dec_ref :: "MemoryRegion \<Rightarrow> usize \<times> MemoryRegion" where
  "dec_ref r = (mr_ref_count r - 1, r\<lparr>mr_ref_count := mr_ref_count r - 1\<rparr>)"

definition ref_count :: "MemoryRegion \<Rightarrow> usize" where
  "ref_count r = mr_ref_count r"

definition overlaps :: "x86_crate \<Rightarrow> MemoryRegion \<Rightarrow> MemoryRegion \<Rightarrow> bool option" where
  "overlaps X self other =
     (case virt_add X (virt_start self) (mr_size self) of
        None \<Rightarrow> None
      | Some self_end \<Rightarrow>
          (case virt_add X (virt_start other) (mr_size other) of
             None \<Rightarrow> None
           | Some other_end \<Rightarrow> Some (virt_start self < other_end \<and> virt_start other < self_end)))"

section \<open>State\<close>

definition SMALL_ALLOC_THRESHOLD :: usize where
  "SMALL_ALLOC_THRESHOLD = 4096"

record AllocatorStats =
  total_allocated :: usize
  total_freed :: usize
  current_usage :: usize
  peak_usage :: usize
  allocation_count :: usize
  free_count :: usize

definition AllocatorStats_default :: AllocatorStats where
  "AllocatorStats_default = \<lparr>total_allocated = 0, total_freed = 0, current_usage = 0, peak_usage = 0,
     allocation_count = 0, free_count = 0\<rparr>"

record PerCpuAllocator =
  alloc_cpu_id :: usize
  small_free_list :: "MemoryRegion list"
  large_allocations :: "MemoryRegion list"
  stats :: AllocatorStats

definition PerCpuAllocator_new :: "usize \<Rightarrow> PerCpuAllocator" where
  "PerCpuAllocator_new cpu_id =
     \<lparr>alloc_cpu_id = cpu_id, small_free_list = [], large_allocations = [], stats = AllocatorStats_default\<rparr>"

record 'fa GlobalMemoryManager =
  per_cpu_allocators :: "PerCpuAllocator option list"
  global_free_list :: "MemoryRegion list"
  regions_by_type :: "MemoryRegion list list"
  frame_allocator :: 'fa

definition GlobalMemoryManager_new :: "'fa \<Rightarrow> 'fa GlobalMemoryManager" where
  "GlobalMemoryManager_new empty_frame_allocator =
     \<lparr>per_cpu_allocators = replicate MAX_CPUS None, global_free_list = [],
      regions_by_type = [[], [], [], []], frame_allocator = empty_frame_allocator\<rparr>"

text \<open>The statics of the module: the manager and the flag that it has been initialised.\<close>

record 'fa memory_statics =
  GLOBAL_MEMORY_MANAGER :: "'fa GlobalMemoryManager option"
  MEMORY_MANAGER_INIT :: bool

definition global_memory_manager :: "'fa memory_statics \<Rightarrow> 'fa GlobalMemoryManager KernelResult" where
  "global_memory_manager G =
     (if \<not> MEMORY_MANAGER_INIT G then Inl (Memory OutOfMemory)
      else case GLOBAL_MEMORY_MANAGER G of
             None \<Rightarrow> Inl (Memory OutOfMemory)
           | Some manager \<Rightarrow> Inr manager)"

section \<open>The global manager\<close>

definition GlobalMemoryManager_init :: "'fa \<Rightarrow> 'fa GlobalMemoryManager \<Rightarrow> unit KernelResult \<times> 'fa GlobalMemoryManager" where
  "GlobalMemoryManager_init fa G =
     (Inr (), G\<lparr>frame_allocator := fa,
        per_cpu_allocators := fold (\<lambda>i xs. xs[i := Some (PerCpuAllocator_new (of_nat i))]) [0..<MAX_CPUS]
          (per_cpu_allocators G)\<rparr>)"

definition scalable_init :: "'fa \<Rightarrow> 'fa \<Rightarrow> 'fa memory_statics \<Rightarrow> unit KernelResult \<times> 'fa memory_statics" where
  "scalable_init empty_frame_allocator fa G =
     (if MEMORY_MANAGER_INIT G then (Inr (), G)
      else let G' = G\<lparr>MEMORY_MANAGER_INIT := True\<rparr>
           in case GlobalMemoryManager_init fa (GlobalMemoryManager_new empty_frame_allocator) of
                (Inl err, _) \<Rightarrow> (Inl err, G')
              | (Inr _, manager) \<Rightarrow> (Inr (), G'\<lparr>GLOBAL_MEMORY_MANAGER := Some manager\<rparr>))"

text \<open>
  \<^verbatim>\<open>alloc::alloc::alloc\<close> and \<^verbatim>\<open>dealloc\<close> are the kernel's global allocator. The
  outer option is a panic.
\<close>

definition GlobalMemoryManager_allocate ::
    "x86_crate \<Rightarrow> 'h heap_crate \<Rightarrow> usize \<Rightarrow> AllocFlags \<Rightarrow> 'h FixedSizeBlockAllocator \<times> mem
      \<Rightarrow> (u64 KernelResult \<times> 'h FixedSizeBlockAllocator \<times> mem) option" where
  "GlobalMemoryManager_allocate X H sz flags s =
     (case Layout_from_size_align sz (case flag_align flags of None \<Rightarrow> 8 | Some a \<Rightarrow> a) of
        None \<Rightarrow> Some (Inl (Memory OutOfMemory), s)
      | Some layout \<Rightarrow>
          (case alloc H layout s of
             None \<Rightarrow> None
           | Some (ptr, s') \<Rightarrow>
               if ptr = 0 then Some (Inl (Memory OutOfMemory), s')
               else case virt_new X ptr of
                      None \<Rightarrow> None
                    | Some v \<Rightarrow> Some (Inr v, s')))"

definition GlobalMemoryManager_free ::
    "'h heap_crate \<Rightarrow> u64 \<Rightarrow> usize \<Rightarrow> 'h FixedSizeBlockAllocator \<times> mem
      \<Rightarrow> (unit KernelResult \<times> 'h FixedSizeBlockAllocator \<times> mem) option" where
  "GlobalMemoryManager_free H addr sz s =
     (case Layout_from_size_align sz 8 of
        None \<Rightarrow> Some (Inl (Memory OutOfMemory), s)
      | Some layout \<Rightarrow> map_option (\<lambda>s'. (Inr (), s')) (dealloc H addr layout s))"

definition map_page :: "u64 \<Rightarrow> u64 \<Rightarrow> u64 \<Rightarrow> unit KernelResult" where
  "map_page page frame flags = Inl (Memory AllocError.InvalidAddress)"

definition GlobalMemoryManager_unmap_page :: "u64 \<Rightarrow> unit KernelResult" where
  "GlobalMemoryManager_unmap_page page = Inl (Memory AllocError.InvalidAddress)"

record GlobalMemoryStats = AllocatorStats +
  stats_cpu_count :: usize

definition add_stats :: "AllocatorStats \<Rightarrow> AllocatorStats \<Rightarrow> AllocatorStats" where
  "add_stats t s = \<lparr>total_allocated = total_allocated t + total_allocated s,
     total_freed = total_freed t + total_freed s, current_usage = current_usage t + current_usage s,
     peak_usage = peak_usage t + peak_usage s, allocation_count = allocation_count t + allocation_count s,
     free_count = free_count t + free_count s\<rparr>"

definition get_global_stats :: "CpuManager \<Rightarrow> 'fa GlobalMemoryManager \<Rightarrow> GlobalMemoryStats" where
  "get_global_stats M G =
     AllocatorStats.extend
       (fold (\<lambda>a t. add_stats t (stats a)) (List.map_filter (\<lambda>a. a) (per_cpu_allocators G)) AllocatorStats_default)
       (GlobalMemoryStats.fields (cpu_count M))"

section \<open>The allocator of one processor\<close>

text \<open>\<^verbatim>\<open>Vec::swap_remove\<close>: the last element takes the place of the removed one.\<close>

definition swap_remove :: "nat \<Rightarrow> 'a list \<Rightarrow> 'a list" where
  "swap_remove i xs = (if Suc i = length xs then butlast xs else (butlast xs)[i := last xs])"

definition try_local_allocate ::
    "bool \<Rightarrow> usize \<Rightarrow> AllocFlags \<Rightarrow> PerCpuAllocator \<times> mem \<Rightarrow> MemoryRegion option KernelResult \<times> PerCpuAllocator \<times> mem" where
  "try_local_allocate spurious sz flags =
     (\<lambda>(A, m). case position (\<lambda>r. \<not> is_allocated r \<and> sz \<le> mr_size r) (small_free_list A) of
        None \<Rightarrow> (Inr None, A, m)
      | Some pos \<Rightarrow>
          (let A' = A\<lparr>small_free_list := swap_remove pos (small_free_list A)\<rparr>
           in case MemoryRegion_allocate spurious (small_free_list A ! pos) of
                (True, reg) \<Rightarrow>
                  (Inr (Some reg), A',
                   if flag_zero flags then write_bytes (virt_start reg) (replicate (unat sz) 0) m else m)
              | (False, _) \<Rightarrow> (Inr None, A', m)))"

definition record_allocation :: "usize \<Rightarrow> AllocatorStats \<Rightarrow> AllocatorStats" where
  "record_allocation sz s =
     (let s' = s\<lparr>total_allocated := total_allocated s + sz, current_usage := current_usage s + sz\<rparr>
      in if peak_usage s' < current_usage s' then s'\<lparr>peak_usage := current_usage s'\<rparr> else s')"

definition global_allocate ::
    "x86_crate \<Rightarrow> 'h heap_crate \<Rightarrow> 'fa memory_statics \<Rightarrow> usize \<Rightarrow> AllocFlags \<Rightarrow> 'h FixedSizeBlockAllocator \<times> mem
      \<Rightarrow> (u64 KernelResult \<times> 'h FixedSizeBlockAllocator \<times> mem) option" where
  "global_allocate X H G sz flags s =
     (case global_memory_manager G of
        Inr _ \<Rightarrow> GlobalMemoryManager_allocate X H sz flags s
      | Inl _ \<Rightarrow> Some (Inl (Memory OutOfMemory), s))"

definition PerCpuAllocator_allocate ::
    "x86_crate \<Rightarrow> 'h heap_crate \<Rightarrow> 'fa memory_statics \<Rightarrow> bool \<Rightarrow> usize \<Rightarrow> AllocFlags
      \<Rightarrow> PerCpuAllocator \<times> 'h FixedSizeBlockAllocator \<times> mem
      \<Rightarrow> (u64 KernelResult \<times> PerCpuAllocator \<times> 'h FixedSizeBlockAllocator \<times> mem) option" where
  "PerCpuAllocator_allocate X H G spurious sz flags =
     (\<lambda>(A, h, m).
       let A = A\<lparr>stats := (stats A)\<lparr>allocation_count := allocation_count (stats A) + 1\<rparr>\<rparr>;
           fallback = (\<lambda>A m. map_option (\<lambda>(r, s). (r, A, s)) (global_allocate X H G sz flags (h, m)))
       in if sz \<le> SMALL_ALLOC_THRESHOLD
          then case try_local_allocate spurious sz flags (A, m) of
                 (Inl err, A', m') \<Rightarrow> Some (Inl err, A', h, m')
               | (Inr (Some reg), A', m') \<Rightarrow>
                   Some (Inr (virt_start reg), A'\<lparr>stats := record_allocation sz (stats A')\<rparr>, h, m')
               | (Inr None, A', m') \<Rightarrow> fallback A' m'
          else fallback A m)"

definition PerCpuAllocator_free ::
    "'h heap_crate \<Rightarrow> 'fa memory_statics \<Rightarrow> u64 \<Rightarrow> usize
      \<Rightarrow> PerCpuAllocator \<times> 'h FixedSizeBlockAllocator \<times> mem
      \<Rightarrow> (unit KernelResult \<times> PerCpuAllocator \<times> 'h FixedSizeBlockAllocator \<times> mem) option" where
  "PerCpuAllocator_free H G addr sz =
     (\<lambda>(A, s).
       let A = A\<lparr>stats := (stats A)\<lparr>free_count := free_count (stats A) + 1,
             total_freed := total_freed (stats A) + sz, current_usage := current_usage (stats A) - sz\<rparr>\<rparr>
       in if sz \<le> SMALL_ALLOC_THRESHOLD
          then Some (Inr (), A\<lparr>small_free_list := small_free_list A @ [MemoryRegion_new addr sz Kernel]\<rparr>, s)
          else case global_memory_manager G of
                 Inr _ \<Rightarrow> map_option (\<lambda>(r, s'). (r, A, s')) (GlobalMemoryManager_free H addr sz s)
               | Inl _ \<Rightarrow> Some (Inl (Memory OutOfMemory), A, s))"

definition get_stats :: "PerCpuAllocator \<Rightarrow> AllocatorStats" where
  "get_stats A = stats A"

section \<open>The interface of the module\<close>

definition scalable_allocate ::
    "x86_crate \<Rightarrow> 'h heap_crate \<Rightarrow> 'fa memory_statics \<Rightarrow> usize \<Rightarrow> AllocFlags \<Rightarrow> 'h FixedSizeBlockAllocator \<times> mem
      \<Rightarrow> (u64 KernelResult \<times> 'h FixedSizeBlockAllocator \<times> mem) option" where
  "scalable_allocate X H G sz flags s =
     (case global_memory_manager G of
        Inr _ \<Rightarrow> GlobalMemoryManager_allocate X H sz flags s
      | Inl _ \<Rightarrow>
          (case Layout_from_size_align sz (case flag_align flags of None \<Rightarrow> 8 | Some a \<Rightarrow> a) of
             None \<Rightarrow> Some (Inl (Memory OutOfMemory), s)
           | Some layout \<Rightarrow>
               (case alloc H layout s of
                  None \<Rightarrow> None
                | Some (ptr, s') \<Rightarrow>
                    if ptr = 0 then Some (Inl (Memory OutOfMemory), s')
                    else case virt_new X ptr of
                           None \<Rightarrow> None
                         | Some v \<Rightarrow> Some (Inr v, s'))))"

definition allocate_simple ::
    "x86_crate \<Rightarrow> 'h heap_crate \<Rightarrow> 'fa memory_statics \<Rightarrow> usize \<Rightarrow> 'h FixedSizeBlockAllocator \<times> mem
      \<Rightarrow> (u64 KernelResult \<times> 'h FixedSizeBlockAllocator \<times> mem) option" where
  "allocate_simple X H G sz s = scalable_allocate X H G sz AllocFlags_default s"

definition scalable_free ::
    "'h heap_crate \<Rightarrow> 'fa memory_statics \<Rightarrow> u64 \<Rightarrow> usize \<Rightarrow> 'h FixedSizeBlockAllocator \<times> mem
      \<Rightarrow> (unit KernelResult \<times> 'h FixedSizeBlockAllocator \<times> mem) option" where
  "scalable_free H G addr sz s =
     (case global_memory_manager G of
        Inr _ \<Rightarrow> GlobalMemoryManager_free H addr sz s
      | Inl _ \<Rightarrow>
          (case Layout_from_size_align sz 8 of
             None \<Rightarrow> Some (Inl (Memory OutOfMemory), s)
           | Some layout \<Rightarrow> map_option (\<lambda>s'. (Inr (), s')) (dealloc H addr layout s)))"

definition scalable_map_user_page :: "'fa memory_statics \<Rightarrow> u64 \<Rightarrow> u64 \<Rightarrow> unit KernelResult" where
  "scalable_map_user_page G page frame =
     (let flags = PRESENT_bit OR WRITABLE_bit OR USER_ACCESSIBLE_bit
      in case global_memory_manager G of
           Inr _ \<Rightarrow> map_page page frame flags
         | Inl _ \<Rightarrow> Inl (Memory OutOfMemory))"

definition scalable_unmap_page :: "'fa memory_statics \<Rightarrow> u64 \<Rightarrow> unit KernelResult" where
  "scalable_unmap_page G page =
     (case global_memory_manager G of
        Inr _ \<Rightarrow> GlobalMemoryManager_unmap_page page
      | Inl _ \<Rightarrow> Inl (Memory OutOfMemory))"

definition scalable_get_memory_stats :: "CpuManager \<Rightarrow> 'fa memory_statics \<Rightarrow> GlobalMemoryStats" where
  "scalable_get_memory_stats M G =
     (case global_memory_manager G of
        Inr manager \<Rightarrow> get_global_stats M manager
      | Inl _ \<Rightarrow> AllocatorStats.extend AllocatorStats_default (GlobalMemoryStats.fields 0))"

definition validate_memory :: "unit KernelResult" where
  "validate_memory = Inr ()"

section \<open>Page table operations for IPC\<close>

definition get_physical_offset :: "x86_crate \<Rightarrow> u64 option" where
  "get_physical_offset X = virt_new X 0xffff800000000000"

definition get_process_page_table ::
    "x86_crate \<Rightarrow> u64 \<Rightarrow> u64 \<Rightarrow> ('fut, 'w) Scheduler \<Rightarrow> OffsetPageTable KernelResult option" where
  "get_process_page_table X cr3 pid sched =
     (if \<exists>p \<in> set (processes sched). proc_id p = pid
      then case get_physical_offset X of
             None \<Rightarrow> None
           | Some offset \<Rightarrow>
               (case active_level_4_table X cr3 offset of
                  None \<Rightarrow> None
                | Some table \<Rightarrow> Some (Inr \<lparr>phys_offset = offset, level_4_table = table\<rparr>))
      else Some (Inl (Process ProcessError.NotFound)))"

text \<open>
  The loop of \<^verbatim>\<open>map_memory\<close> over the frames, from index \<open>i\<close>. The result of
  \<^verbatim>\<open>Page::containing_address(virt_addr + i * 4096)\<close> uses the crate's functions.
\<close>

fun map_frames ::
    "x86_crate \<Rightarrow> page_crate \<Rightarrow> ('e, 'fa) map_to \<Rightarrow> OffsetPageTable \<Rightarrow> u64 \<Rightarrow> u64 \<Rightarrow> nat \<Rightarrow> u64 list \<Rightarrow> mem \<times> 'fa
      \<Rightarrow> (unit KernelResult \<times> mem \<times> 'fa) option" where
  "map_frames X C map_to mapper virt_addr flags i [] s = Some (Inr (), s)"
| "map_frames X C map_to mapper virt_addr flags i (frame # fs) s =
     (case virt_add X virt_addr (of_nat (i * 4096)) of
        None \<Rightarrow> None
      | Some addr \<Rightarrow>
          (case map_to (page_containing C addr) frame flags mapper s of
             (Inl _, s') \<Rightarrow> Some (Inl (Memory AllocError.InvalidAddress), s')
           | (Inr _, s') \<Rightarrow> map_frames X C map_to mapper virt_addr flags (Suc i) fs s'))"

definition map_memory ::
    "x86_crate \<Rightarrow> page_crate \<Rightarrow> ('e, 'fa) map_to \<Rightarrow> u64 \<Rightarrow> ('fut, 'w) Scheduler \<Rightarrow> u64 \<Rightarrow> u64 \<Rightarrow> u64 list \<Rightarrow> u64
      \<Rightarrow> mem \<times> 'fa \<Rightarrow> (unit KernelResult \<times> mem \<times> 'fa) option" where
  "map_memory X C map_to cr3 sched target_pid virt_addr phys_frames flags s =
     (case get_process_page_table X cr3 target_pid sched of
        None \<Rightarrow> None
      | Some (Inl err) \<Rightarrow> Some (Inl err, s)
      | Some (Inr mapper) \<Rightarrow> map_frames X C map_to mapper virt_addr flags 0 phys_frames s)"

text \<open>
  \<^verbatim>\<open>unmap_memory\<close> only flushes entries of the TLB, which the model does not have; the
  addresses of the pages are still computed and may panic.
\<close>

definition unmap_memory ::
    "x86_crate \<Rightarrow> u64 \<Rightarrow> ('fut, 'w) Scheduler \<Rightarrow> u64 \<Rightarrow> u64 \<Rightarrow> nat \<Rightarrow> mem \<times> 'fa
      \<Rightarrow> (unit KernelResult \<times> mem \<times> 'fa) option" where
  "unmap_memory X cr3 sched target_pid virt_addr pages s =
     (case get_process_page_table X cr3 target_pid sched of
        None \<Rightarrow> None
      | Some (Inl err) \<Rightarrow> Some (Inl err, s)
      | Some (Inr _) \<Rightarrow>
          (if \<exists>i \<in> {..<pages}. virt_add X virt_addr (of_nat (i * 4096)) = None then None
           else Some (Inr (), s)))"

text \<open>\<^verbatim>\<open>Mapper::translate_page\<close> is a function of the mapper, the page and memory.\<close>

definition verify_ownership ::
    "x86_crate \<Rightarrow> page_crate \<Rightarrow> (OffsetPageTable \<Rightarrow> u64 \<Rightarrow> mem \<Rightarrow> 'e + u64) \<Rightarrow> u64 \<Rightarrow> ('fut, 'w) Scheduler
      \<Rightarrow> u64 \<Rightarrow> u64 \<Rightarrow> mem \<Rightarrow> u64 KernelResult option" where
  "verify_ownership X C translate_page cr3 sched pid virt_addr m =
     (case get_process_page_table X cr3 pid sched of
        None \<Rightarrow> None
      | Some (Inl err) \<Rightarrow> Some (Inl err)
      | Some (Inr mapper) \<Rightarrow>
          (case translate_page mapper (page_containing C virt_addr) m of
             Inr frame \<Rightarrow> Some (Inr frame)
           | Inl _ \<Rightarrow> Some (Inl (Memory AllocError.InvalidAddress))))"

section \<open>Lemmas\<close>

lemma scalable_allocate_eq: "scalable_allocate X H G sz flags s = GlobalMemoryManager_allocate X H sz flags s"
  by (simp add: scalable_allocate_def GlobalMemoryManager_allocate_def split: sum.split)

lemma scalable_free_eq: "scalable_free H G addr sz s = GlobalMemoryManager_free H addr sz s"
  by (simp add: scalable_free_def GlobalMemoryManager_free_def split: sum.split)

lemma remove_at_last: "remove_at (length xs) (xs @ [x]) = xs"
  by (simp add: remove_at_def)

lemma Layout_default_align:
  assumes "sz \<noteq> 0" and "unat sz \<le> 2 ^ 63 - 8"
  shows "Layout_from_size_align sz 8 = Some \<lparr>layout_size = sz, layout_align = 8\<rparr>"
    and "layout_ok \<lparr>layout_size = sz, layout_align = 8\<rparr>"
  using assms small_power_of_two(1) by (simp_all add: Layout_from_size_align_def layout_ok_def)

section \<open>Properties\<close>


definition no_manager :: "unit memory_statics" where
  "no_manager = \<lparr>GLOBAL_MEMORY_MANAGER = None, MEMORY_MANAGER_INIT = False\<rparr>"


text \<open>
  Overlapping regions. For regions in the lower half that are not empty, \<^verbatim>\<open>overlaps\<close>
  does not panic and says exactly whether they share a byte.
\<close>

theorem overlaps_exact:
  assumes "virt_add_spec X" and "unat (virt_start r) + unat (mr_size r) < 2 ^ 47"
    and "unat (virt_start q) + unat (mr_size q) < 2 ^ 47" and "mr_size r \<noteq> 0" and "mr_size q \<noteq> 0"
  shows "overlaps X r q = Some (region (virt_start r) (unat (mr_size r)) \<inter> region (virt_start q) (unat (mr_size q)) \<noteq> {})"
proof -
  let ?r = "virt_start r" and ?q = "virt_start q"
  have e: "unat (?r + mr_size r) = unat ?r + unat (mr_size r)" "unat (?q + mr_size q) = unat ?q + unat (mr_size q)"
    using assms(2,3) by (simp_all add: unat_word_ariths)
  have pos: "0 < unat (mr_size r)" "0 < unat (mr_size q)" using assms(4,5) by (simp_all add: unat_gt_0)
  have R: "region ?r (unat (mr_size r)) = {x. unat ?r \<le> unat x \<and> unat x < unat ?r + unat (mr_size r)}"
    "region ?q (unat (mr_size q)) = {x. unat ?q \<le> unat x \<and> unat x < unat ?q + unat (mr_size q)}"
    using assms(2,3) by (simp_all add: region_no_wrap)
  have "?r < ?q + mr_size q \<and> ?q < ?r + mr_size r
      \<longleftrightarrow> region ?r (unat (mr_size r)) \<inter> region ?q (unat (mr_size q)) \<noteq> {}" (is "?o \<longleftrightarrow> ?i")
  proof
    assume ?o
    then have "(if unat ?r \<le> unat ?q then ?q else ?r) \<in> region ?r (unat (mr_size r)) \<inter> region ?q (unat (mr_size q))"
      using pos by (auto simp: R word_less_nat_alt e)
    then show ?i by blast
  next
    assume ?i
    then show ?o by (auto simp: R word_less_nat_alt e)
  qed
  then show ?thesis
    using virt_add_low [OF assms(1,2)] virt_add_low [OF assms(1,3)] by (simp add: overlaps_def)
qed

theorem overlaps_exact_witness:
  "overlaps x86_ref (MemoryRegion_new 0x1000 0x100 Kernel) (MemoryRegion_new 0x10ff 1 User)
     = Some (region 0x1000 0x100 \<inter> region 0x10ff 1 \<noteq> {})"
  using overlaps_exact [OF x86_ref_spec(2), of "MemoryRegion_new 0x1000 0x100 Kernel" "MemoryRegion_new 0x10ff 1 User"]
  by (simp add: MemoryRegion_new_def)

text \<open>
  Blocks kept by one processor. A small block that was freed to an empty list is returned by the
  next request that fits into it, without the global heap, and is zeroed up to the requested size
  when this is asked for; a block is returned once only.
\<close>

theorem per_cpu_reuse:
  assumes "small_free_list A = []" and "sz \<le> SMALL_ALLOC_THRESHOLD" and "req \<le> sz"
  shows "\<exists>A1 A2. PerCpuAllocator_free H G addr sz (A, h, m) = Some (Inr (), A1, h, m)
    \<and> PerCpuAllocator_allocate X H G False req flags (A1, h, m) = Some (Inr addr, A2, h,
        if flag_zero flags then write_bytes addr (replicate (unat req) 0) m else m)
    \<and> small_free_list A2 = []"
proof -
  have "req \<le> SMALL_ALLOC_THRESHOLD" using assms(2,3) by simp
  then show ?thesis
    using assms by (simp add: PerCpuAllocator_free_def PerCpuAllocator_allocate_def try_local_allocate_def
        MemoryRegion_allocate_def MemoryRegion_new_def is_allocated_def swap_remove_def Let_def)
qed

theorem per_cpu_reuse_witness:
  "\<exists>A1 A2. PerCpuAllocator_free bump_heap no_manager 0x5000 64
        (PerCpuAllocator_new 0, FixedSizeBlockAllocator_new bump_heap, \<lambda>_. 1)
        = Some (Inr (), A1, FixedSizeBlockAllocator_new bump_heap, \<lambda>_. 1)
    \<and> PerCpuAllocator_allocate x86_ref bump_heap no_manager
        False 32 AllocFlags_default (A1, FixedSizeBlockAllocator_new bump_heap, \<lambda>_. 1)
        = Some (Inr 0x5000, A2, FixedSizeBlockAllocator_new bump_heap, \<lambda>_. 1)"
  using per_cpu_reuse [of "PerCpuAllocator_new 0" 64 32 bump_heap
      no_manager "0x5000"
      "FixedSizeBlockAllocator_new bump_heap" "\<lambda>_. 1" x86_ref AllocFlags_default]
  by (fastforce simp: PerCpuAllocator_new_def SMALL_ALLOC_THRESHOLD_def AllocFlags_default_def)

text \<open>
  A request that the global heap serves does not count as usage, but its release does: the usage
  counter of the processor wraps around.
\<close>

lemma per_cpu_usage_wraps:
  assumes "PerCpuAllocator_allocate X H G b sz flags (PerCpuAllocator_new i, h, m) = Some (Inr v, A1, s1)"
    and "PerCpuAllocator_free H G v sz (A1, s1) = Some (Inr (), A2, s2)" and "sz \<noteq> 0"
  shows "unat (current_usage (stats A2)) = 2 ^ 64 - unat sz"
proof -
  have "current_usage (stats A1) = 0"
    using assms(1)
    by (auto simp: PerCpuAllocator_allocate_def PerCpuAllocator_new_def try_local_allocate_def
        AllocatorStats_default_def Let_def split: if_splits)
  then have "current_usage (stats A2) = 0 - sz"
    using assms(2)
    by (auto simp: PerCpuAllocator_free_def Let_def split: if_splits sum.splits prod.splits)
  moreover have "0 < unat sz" using assms(3) by (simp add: unat_gt_0)
  ultimately show ?thesis by (simp only: unat_sub_if') simp
qed

text \<open>
  Releasing a block that was allocated with a larger alignment uses a different layout: the block of
  64 bytes ends up on the list of blocks of 16 bytes.
\<close>

lemma free_ignores_alignment:
  "list_index \<lparr>layout_size = 16, layout_align = 64\<rparr> = Some 3"
  "list_index \<lparr>layout_size = 16, layout_align = 8\<rparr> = Some 1"
  "\<exists>A' m'. scalable_free H G p 16 (A, m) = Some (Inr (), A', m')
     \<and> list_heads A' = (list_heads A)[1 := Some p]"
proof -
  show i: "list_index \<lparr>layout_size = 16, layout_align = 64\<rparr> = Some 3"
    "list_index \<lparr>layout_size = 16, layout_align = 8\<rparr> = Some 1"
    by (simp_all add: list_index_def BLOCK_SIZES_def)
  show "\<exists>A' m'. scalable_free H G p 16 (A, m) = Some (Inr (), A', m')
     \<and> list_heads A' = (list_heads A)[1 := Some p]"
    using Layout_default_align [of 16] i(2)
    by (simp add: scalable_free_eq GlobalMemoryManager_free_def dealloc_def Let_def ListNode_size_def BLOCK_SIZES_def)
qed

text \<open>
  Whose page table. The page table operations for IPC take a process identifier, but every
  existing process gets the page table that is active on the processor: mapping, unmapping and
  the check of ownership give the same results for all of them. Unmapping changes no memory at all.
\<close>

theorem ipc_page_table_ignores_pid:
  assumes "p \<in> set (processes sched)" and "q \<in> set (processes sched)"
  shows "map_memory X C map_to cr3 sched (proc_id p) va fs flags s = map_memory X C map_to cr3 sched (proc_id q) va fs flags s
    \<and> verify_ownership X C tp cr3 sched (proc_id p) va m = verify_ownership X C tp cr3 sched (proc_id q) va m
    \<and> (\<forall>r s'. unmap_memory X cr3 sched (proc_id p) va n s = Some (r, s') \<longrightarrow> s' = s)"
proof -
  have "get_process_page_table X cr3 (proc_id p) sched = get_process_page_table X cr3 (proc_id q) sched"
    using assms by (auto simp: get_process_page_table_def)
  then show ?thesis
    by (auto simp: map_memory_def verify_ownership_def unmap_memory_def split: option.splits sum.splits if_splits)
qed

definition example_page_crate :: page_crate where
  "example_page_crate = \<lparr>virt_sub = (\<lambda>a n. if n \<le> a then Some (a - n) else None),
     page_containing = (\<lambda>a. a - a mod 4096),
     page_range_inclusive = (\<lambda>a b. map (\<lambda>i. a + of_nat (4096 * i)) [0..<(unat b - unat a) div 4096 + 1])\<rparr>"

theorem ipc_page_table_ignores_pid_witness:
  "verify_ownership x86_ref example_page_crate (\<lambda>mp page m. Inr 0x9000 :: unit + u64) 0x1000
      (example_scheduler Ready Ready) 1 0x400000 (\<lambda>_. 0)
   = verify_ownership x86_ref example_page_crate (\<lambda>mp page m. Inr 0x9000 :: unit + u64) 0x1000
      (example_scheduler Ready Ready) 2 0x400000 (\<lambda>_. 0)"
proof -
  let ?s = "example_scheduler Ready Ready"
  have "example_process 1 0 Ready \<in> set (processes ?s)" "example_process 2 1 Ready \<in> set (processes ?s)"
    by (simp_all add: example_scheduler_eq)
  from ipc_page_table_ignores_pid [OF this, THEN conjunct2, THEN conjunct1]
  have "verify_ownership x86_ref example_page_crate (\<lambda>mp page m. Inr 0x9000 :: unit + u64) 0x1000 ?s
      (proc_id (example_process 1 0 Ready)) 0x400000 (\<lambda>_. 0)
    = verify_ownership x86_ref example_page_crate (\<lambda>mp page m. Inr 0x9000 :: unit + u64) 0x1000 ?s
      (proc_id (example_process 2 1 Ready)) 0x400000 (\<lambda>_. 0)" .
  then show ?thesis by (simp add: example_process_def)
qed

end
