(* ===== verification/Ruix_Suites.thy ===== *)
theory Ruix_Suites
  imports Ruix_Testing Ruix_Scalable Ruix_Channel Ruix_Handle
begin

text \<open>
  The tests that the kernel runs on itself at boot (\<^verbatim>\<open>src/tests/mod.rs\<close> and
  \<^verbatim>\<open>src/tests/ipc_tests.rs\<close>), over the state of the components they use. A call may panic
  (\<^verbatim>\<open>None\<close>), end the test with an error (\<^verbatim>\<open>?\<close>, the assertions, an early
  \<^verbatim>\<open>return\<close>) or go on. The text of an error in the format \<^verbatim>\<open>{:?}\<close> is a
  parameter, and locks are free when they are tried: the tests run alone.
\<close>

section \<open>Calls\<close>

type_synonym ('s, 'a) call = "'s \<Rightarrow> ((TestError + 'a) \<times> 's) option"

definition and_then :: "('s, 'a) call \<Rightarrow> ('a \<Rightarrow> ('s, 'b) call) \<Rightarrow> ('s, 'b) call" where
  "and_then f g s = (case f s of
     None \<Rightarrow> None
   | Some (Inl err, s) \<Rightarrow> Some (Inl err, s)
   | Some (Inr v, s) \<Rightarrow> g v s)"

definition check :: "TestError + 'a \<Rightarrow> ('s, 'a) call" where
  "check r s = Some (r, s)"

definition look :: "('s \<Rightarrow> 'a) \<Rightarrow> ('s, 'a) call" where
  "look f s = Some (Inr (f s), s)"

definition change :: "('s \<Rightarrow> 's) \<Rightarrow> ('s, unit) call" where
  "change f s = Some (Inr (), f s)"

text \<open>A loop over a range.\<close>

fun for_each :: "'i list \<Rightarrow> ('i \<Rightarrow> ('s, unit) call) \<Rightarrow> ('s, unit) call" where
  "for_each [] f = check (Inr ())"
| "for_each (i # is) f = and_then (f i) (\<lambda>_. for_each is f)"

section \<open>The state of the kernel that the tests reach\<close>

record ('fa, 'h) tested =
  t_heap :: "'h FixedSizeBlockAllocator \<times> mem"
  t_manager :: "'fa memory_statics"
  t_cpus :: CpuManager
  PERF_MONITOR :: PerfMonitor
  CHANNEL_REGISTRY :: ChannelRegistry
  HANDLE_REGISTRY :: HandleRegistry
  t_current_pid :: u64

type_synonym ('fa, 'h) env = "('fa, 'h) tested test_env"

text \<open>The parameters: the crates, and the two formats.\<close>

record 'h test_crates =
  c_x86 :: x86_crate
  c_page :: page_crate
  c_heap :: "'h heap_crate"
  debug_kernel :: "KernelError \<Rightarrow> string"
  debug_ipc :: "IpcError \<Rightarrow> string"

definition now :: "('fa, 'h) env \<Rightarrow> ((TestError + u64) \<times> ('fa, 'h) env) option" where
  "now e = (case testing_get_current_time e of (t, e) \<Rightarrow> Some (Inr t, e))"

definition virt_addr :: "'h test_crates \<Rightarrow> u64 \<Rightarrow> ('s, u64) call" where
  "virt_addr K a s = (case virt_new (c_x86 K) a of None \<Rightarrow> None | Some v \<Rightarrow> Some (Inr v, s))"

text \<open>Calls of the memory manager; the operator \<^verbatim>\<open>?\<close> converts their errors.\<close>

definition on_heap ::
    "'h test_crates \<Rightarrow> ('fa memory_statics \<Rightarrow> 'h FixedSizeBlockAllocator \<times> mem
        \<Rightarrow> ('a KernelResult \<times> 'h FixedSizeBlockAllocator \<times> mem) option) \<Rightarrow> (('fa, 'h) env, 'a) call" where
  "on_heap K f e =
     (case f (t_manager (kernel_state e)) (t_heap (kernel_state e)) of
        None \<Rightarrow> None
      | Some (r, h) \<Rightarrow>
          Some (case r of Inl err \<Rightarrow> Inl (TestError_from (debug_kernel K) err) | Inr v \<Rightarrow> Inr v,
                e\<lparr>kernel_state := (kernel_state e)\<lparr>t_heap := h\<rparr>\<rparr>))"

definition test_allocate :: "'h test_crates \<Rightarrow> usize \<Rightarrow> AllocFlags \<Rightarrow> (('fa, 'h) env, u64) call" where
  "test_allocate K sz flags = on_heap K (\<lambda>G. scalable_allocate (c_x86 K) (c_heap K) G sz flags)"

definition test_allocate_simple :: "'h test_crates \<Rightarrow> usize \<Rightarrow> (('fa, 'h) env, u64) call" where
  "test_allocate_simple K sz = on_heap K (\<lambda>G. allocate_simple (c_x86 K) (c_heap K) G sz)"

definition test_free :: "'h test_crates \<Rightarrow> u64 \<Rightarrow> usize \<Rightarrow> (('fa, 'h) env, unit) call" where
  "test_free K addr sz = on_heap K (\<lambda>G. scalable_free (c_heap K) G addr sz)"

text \<open>
  The reference that \<^verbatim>\<open>current_cpu\<close> returns: what is done through it changes the data of
  the current processor.
\<close>

definition current_cpu ::
    "'h test_crates \<Rightarrow> (PerCpu, 'a) call \<Rightarrow> (('fa, 'h) env, 'a) call" where
  "current_cpu K body e =
     (let M = t_cpus (kernel_state e)
      in case get_current_cpu M of
           Inl err \<Rightarrow> Some (Inl (TestError_from (debug_kernel K) err), e)
         | Inr c \<Rightarrow>
             map_option (\<lambda>(r, c'). (r, e\<lparr>kernel_state := (kernel_state e)\<lparr>t_cpus := snd (get_current_cpu_mut (\<lambda>_. c') M)\<rparr>\<rparr>))
               (body c))"

definition on_perf :: "(PerfMonitor, 'a) call \<Rightarrow> (('fa, 'h) env, 'a) call" where
  "on_perf body e = map_option (\<lambda>(r, p). (r, e\<lparr>kernel_state := (kernel_state e)\<lparr>PERF_MONITOR := p\<rparr>\<rparr>))
     (body (PERF_MONITOR (kernel_state e)))"

section \<open>Memory tests\<close>

definition test_simple_allocation :: "'h test_crates \<Rightarrow> ('fa, 'h) tested TestFunction" where
  "test_simple_allocation K =
     and_then now (\<lambda>t.
     and_then (check (assert_true ''crate::testing::get_current_time() > 0'' (t > 0))) (\<lambda>_.
     let size = 4096 in
     and_then (test_allocate_simple K size) (\<lambda>addr.
     and_then (check (assert_true ''!addr.is_null()'' (addr \<noteq> 0))) (\<lambda>_.
     test_free K addr size))))"

definition test_allocation_with_flags :: "'h test_crates \<Rightarrow> ('fa, 'h) tested TestFunction" where
  "test_allocation_with_flags K =
     (let flags = \<lparr>flag_zero = True, flag_contiguous = False, flag_align = Some 4096, flag_mem_type = Kernel\<rparr>;
          size = 8192
      in and_then (test_allocate K size flags) (\<lambda>addr.
         and_then (check (assert_true ''!addr.is_null()'' (addr \<noteq> 0))) (\<lambda>_.
         test_free K addr size)))"

definition test_memory_statistics :: "'h test_crates \<Rightarrow> ('fa, 'h) tested TestFunction" where
  "test_memory_statistics K =
     (let get_memory_stats = look (\<lambda>e. scalable_get_memory_stats (t_cpus (kernel_state e)) (t_manager (kernel_state e)))
      in and_then get_memory_stats (\<lambda>initial_stats.
         let initial_total = total_allocated initial_stats; size = 4096 in
         and_then (test_allocate_simple K size) (\<lambda>addr.
         and_then get_memory_stats (\<lambda>updated_stats.
         and_then (check (assert_true ''updated_stats.total_allocated >= initial_total''
           (total_allocated updated_stats \<ge> initial_total))) (\<lambda>_.
         test_free K addr size)))))"

definition test_page_mapping :: "'h test_crates \<Rightarrow> ('fa, 'h) tested TestFunction" where
  "test_page_mapping K =
     and_then (virt_addr K 0x10000000) (\<lambda>a.
     let page = page_containing (c_page K) a
     in check (assert_true ''page.start_address().as_u64() == 0x1000_0000'' (page = 0x10000000)))"

section \<open>Processor tests\<close>

definition test_cpu_data_access :: "'h test_crates \<Rightarrow> ('fa, 'h) tested TestFunction" where
  "test_cpu_data_access K = current_cpu K (
     and_then (look id) (\<lambda>cpu.
     and_then (check (assert_true ''cpu.cpu_id < cpu::MAX_CPUS'' (unat (cd_cpu_id cpu) < MAX_CPUS))) (\<lambda>_.
     and_then (check (assert_true ''cpu.kernel_stack_top > 0'' (cd_kernel_stack_top cpu > 0))) (\<lambda>_.
     and_then (look PerCpu_get_current_process_id) (\<lambda>old_pid.
     and_then (change (PerCpu_set_current_process_id 123)) (\<lambda>_.
     and_then (look PerCpu_get_current_process_id) (\<lambda>pid.
     and_then (check (assert_eq ''cpu.get_current_process_id()'' ''123'' pid 123)) (\<lambda>_.
     change (PerCpu_set_current_process_id old_pid)))))))))"

definition test_cpu_statistics :: "('fa, 'h) tested TestFunction" where
  "test_cpu_statistics = on_perf (
     and_then (look PerfMonitor_get_stats) (\<lambda>(cs0, in0, sy0).
     and_then (change increment_context_switches) (\<lambda>_.
     and_then (change increment_interrupts) (\<lambda>_.
     and_then (change increment_syscalls) (\<lambda>_.
     and_then (look PerfMonitor_get_stats) (\<lambda>(cs1, in1, sy1).
     and_then (check (assert_true ''new_stats.0 > initial_stats.0'' (cs1 > cs0))) (\<lambda>_.
     and_then (check (assert_true ''new_stats.1 > initial_stats.1'' (in1 > in0))) (\<lambda>_.
     check (assert_true ''new_stats.2 > initial_stats.2'' (sy1 > sy0))))))))))"

definition test_interrupt_handling :: "'h test_crates \<Rightarrow> ('fa, 'h) tested TestFunction" where
  "test_interrupt_handling K = current_cpu K (
     and_then (look in_interrupt) (\<lambda>i.
     and_then (check (assert_false ''cpu.in_interrupt()'' i)) (\<lambda>_.
     and_then (change enter_interrupt) (\<lambda>_.
     and_then (look in_interrupt) (\<lambda>i.
     and_then (check (assert_true ''cpu.in_interrupt()'' i)) (\<lambda>_.
     and_then (change exit_interrupt) (\<lambda>_.
     and_then (look in_interrupt) (\<lambda>i.
     check (assert_false ''cpu.in_interrupt()'' i)))))))))"

section \<open>Error tests\<close>

definition test_error_creation :: "('fa, 'h) tested TestFunction" where
  "test_error_creation =
     (let mem_error = KernelError.Memory OutOfMemory; proc_error = KernelError.Process InvalidPid
      in and_then (check (assert_eq ''mem_error.to_string()'' ''Memory error: Out of memory''
           (KernelError_fmt mem_error) ''Memory error: Out of memory'')) (\<lambda>_.
         check (assert_eq ''proc_error.to_string()'' ''Process error: Invalid process ID''
           (KernelError_fmt proc_error) ''Process error: Invalid process ID'')))"

definition test_error_conversion :: "('fa, 'h) tested TestFunction" where
  "test_error_conversion =
     (let alloc_error = OutOfMemory; kernel_error = from_AllocError alloc_error
      in check (if kernel_error = KernelError.Memory OutOfMemory then Inr ()
                else Inl (AssertionFailed ''Unexpected error type'')))"

definition test_recovery_strategies :: "('fa, 'h) tested TestFunction" where
  "test_recovery_strategies =
     (let oom_error = KernelError.Memory OutOfMemory; alignment_error = KernelError.Memory BadAlignment
      in and_then (check (assert_eq ''strategy'' ''RecoveryStrategy::Abort'' (get_recovery_strategy oom_error) Abort)) (\<lambda>_.
         check (assert_eq ''strategy'' ''RecoveryStrategy::Retry'' (get_recovery_strategy alignment_error) Retry)))"

section \<open>Integration tests\<close>

definition test_memory_cpu_integration :: "'h test_crates \<Rightarrow> ('fa, 'h) tested TestFunction" where
  "test_memory_cpu_integration K =
     and_then (current_cpu K (look cd_cpu_id)) (\<lambda>cpu_id.
     let size = 4096 in
     and_then (test_allocate_simple K size) (\<lambda>addr.
     and_then (check (assert_true ''!addr.is_null()'' (addr \<noteq> 0))) (\<lambda>_.
     and_then (current_cpu K (look cd_cpu_id)) (\<lambda>current_cpu_id.
     and_then (check (assert_eq ''current_cpu.cpu_id'' ''cpu_id'' current_cpu_id cpu_id)) (\<lambda>_.
     test_free K addr size)))))"

definition inner_function :: "unit KernelResult" where
  "inner_function = Inl (KernelError.Memory OutOfMemory)"

definition outer_function :: "unit KernelResult" where
  "outer_function = inner_function"

definition test_error_propagation :: "('fa, 'h) tested TestFunction" where
  "test_error_propagation =
     (let result = outer_function
      in and_then (check (assert_err (\<lambda>_. ''()'') result)) (\<lambda>_ e.
           case result of
             Inr _ \<Rightarrow> None
           | Inl err \<Rightarrow>
               check (if err = KernelError.Memory OutOfMemory then Inr ()
                      else Inl (AssertionFailed ''Wrong error type'')) e))"

section \<open>Performance and stress tests\<close>

definition test_memory_allocation_speed :: "'h test_crates \<Rightarrow> ('fa, 'h) tested TestFunction" where
  "test_memory_allocation_speed K =
     and_then now (\<lambda>start_time.
     and_then (for_each [0..<1000] (\<lambda>_.
       let size = 1024 in
       and_then (test_allocate_simple K size) (\<lambda>addr. test_free K addr size))) (\<lambda>_.
     and_then now (\<lambda>end_time.
     let duration = end_time - start_time
     in check (assert_true ''duration < 10000'' (duration < 10000)))))"

definition test_cpu_data_access_speed :: "'h test_crates \<Rightarrow> ('fa, 'h) tested TestFunction" where
  "test_cpu_data_access_speed K =
     and_then now (\<lambda>start_time.
     and_then (for_each [0..<10000] (\<lambda>i.
       current_cpu K (and_then (change (PerCpu_set_current_process_id (of_nat (i mod 100)))) (\<lambda>_.
         and_then (look PerCpu_get_current_process_id) (\<lambda>_. check (Inr ())))))) (\<lambda>_.
     and_then now (\<lambda>end_time.
     let duration = end_time - start_time
     in check (assert_true ''duration < 5000'' (duration < 5000)))))"

text \<open>The first failing allocation ends the loop, but not the test.\<close>

fun stress_loop :: "'h test_crates \<Rightarrow> nat list \<Rightarrow> (('fa, 'h) env, unit) call" where
  "stress_loop K [] = check (Inr ())"
| "stress_loop K (i # is) = (\<lambda>e.
     let size = 1024 * (of_nat i + 1)
     in case test_allocate_simple K size e of
          None \<Rightarrow> None
        | Some (Inl _, e) \<Rightarrow> Some (Inr (), e)
        | Some (Inr addr, e) \<Rightarrow> and_then (test_free K addr size) (\<lambda>_. stress_loop K is) e)"

definition test_memory_stress :: "'h test_crates \<Rightarrow> ('fa, 'h) tested TestFunction" where
  "test_memory_stress K = stress_loop K [0..<100]"

definition test_cpu_stress :: "'h test_crates \<Rightarrow> ('fa, 'h) tested TestFunction" where
  "test_cpu_stress K = current_cpu K (
     and_then (for_each [0..<1000] (\<lambda>i.
       and_then (change (PerCpu_set_current_process_id (of_nat i))) (\<lambda>_.
       and_then (look PerCpu_get_current_process_id) (\<lambda>_. check (Inr ()))))) (\<lambda>_.
     and_then (for_each [0..<10] (\<lambda>_. change enter_interrupt)) (\<lambda>_.
     and_then (for_each [0..<10] (\<lambda>_. change exit_interrupt)) (\<lambda>_.
     and_then (look in_interrupt) (\<lambda>i.
     check (assert_false ''cpu.in_interrupt()'' i))))))"

section \<open>IPC tests\<close>

text \<open>Calls of the module \<^verbatim>\<open>ipc::syscalls\<close> by the current process.\<close>

definition on_channels :: "(u64 \<Rightarrow> ChannelRegistry \<Rightarrow> 'a \<times> ChannelRegistry) \<Rightarrow> (('fa, 'h) env, 'a) call" where
  "on_channels f e =
     (case f (t_current_pid (kernel_state e)) (CHANNEL_REGISTRY (kernel_state e)) of
        (r, s) \<Rightarrow> Some (Inr r, e\<lparr>kernel_state := (kernel_state e)\<lparr>CHANNEL_REGISTRY := s\<rparr>\<rparr>))"

definition on_handles :: "(u64 \<Rightarrow> HandleRegistry \<Rightarrow> ('a \<times> HandleRegistry) option) \<Rightarrow> (('fa, 'h) env, 'a) call" where
  "on_handles f e =
     (case f (t_current_pid (kernel_state e)) (HANDLE_REGISTRY (kernel_state e)) of
        None \<Rightarrow> None
      | Some (r, s) \<Rightarrow> Some (Inr r, e\<lparr>kernel_state := (kernel_state e)\<lparr>HANDLE_REGISTRY := s\<rparr>\<rparr>))"

definition test_create_handle :: "'h test_crates \<Rightarrow> u64 \<Rightarrow> (('fa, 'h) env, IpcError + u64) call" where
  "test_create_handle K addr =
     and_then (virt_addr K addr) (\<lambda>test_addr.
     let test_size = 4096 in
     on_handles (\<lambda>pid s. Some (create_memory_handle pid test_addr test_size ReadWrite Ownership s)))"

definition test_message_ipc :: "('fa, 'h) tested TestFunction" where
  "test_message_ipc =
     and_then (on_channels (\<lambda>pid. ipc_create_channel pid 2)) (\<lambda>r.
     check (case r of Inr channel_id \<Rightarrow> Inr () | Inl e \<Rightarrow> Inl (AssertionFailed ''Channel creation failed'')))"

definition test_memory_handle_creation :: "'h test_crates \<Rightarrow> ('fa, 'h) tested TestFunction" where
  "test_memory_handle_creation K =
     and_then (test_create_handle K 0x400000) (\<lambda>r.
     case r of
       Inl e \<Rightarrow> check (Inl (AssertionFailed ''Memory handle creation failed''))
     | Inr handle_id \<Rightarrow>
         and_then (look (\<lambda>e. get_handle handle_id (HANDLE_REGISTRY (kernel_state e)))) (\<lambda>found.
         check (case found of
             Some handle \<Rightarrow> if validate handle then Inr () else Inl (AssertionFailed ''Handle validation failed'')
           | None \<Rightarrow> Inl (AssertionFailed ''Handle not found''))))"

definition test_basic_transfer :: "'h test_crates \<Rightarrow> ('fa, 'h) tested TestFunction" where
  "test_basic_transfer K =
     and_then (test_create_handle K 0x500000) (\<lambda>r.
     case r of
       Inl e \<Rightarrow> check (Inl (AssertionFailed ''Handle creation for transfer failed''))
     | Inr handle_id \<Rightarrow>
         and_then (on_handles (\<lambda>pid. transfer_memory (c_x86 K) pid handle_id 2)) (\<lambda>r.
         check (case r of Inr _ \<Rightarrow> Inr () | Inl e \<Rightarrow> Inl (AssertionFailed ''Memory transfer failed''))))"

definition test_ipc_boot_sequence :: "'h test_crates \<Rightarrow> ('fa, 'h) tested TestFunction" where
  "test_ipc_boot_sequence K =
     and_then test_message_ipc (\<lambda>_.
     and_then (test_memory_handle_creation K) (\<lambda>_.
     test_basic_transfer K))"

definition test_ipc_cleanup :: "'h test_crates \<Rightarrow> ('fa, 'h) tested TestFunction" where
  "test_ipc_cleanup K =
     and_then (on_channels (\<lambda>pid. ipc_create_channel pid 2)) (\<lambda>r.
     and_then (check (case r of
         Inr channel_id \<Rightarrow> Inr ()
       | Inl e \<Rightarrow> Inl (AssertionFailed (''Channel creation failed: '' @ debug_ipc K e)))) (\<lambda>_.
     on_channels (\<lambda>_ s. ((), cleanup_process_channels 1 s))))"

definition test_page_table_ops :: "('fa, 'h) tested TestFunction" where
  "test_page_table_ops = check (Inr ())"

definition run_all_ipc_tests :: "'h test_crates \<Rightarrow> ('fa, 'h) tested TestFunction" where
  "run_all_ipc_tests K =
     and_then (test_ipc_boot_sequence K) (\<lambda>_.
     and_then (test_ipc_cleanup K) (\<lambda>_.
     test_page_table_ops))"

section \<open>The suites\<close>

definition create_memory_tests :: "'h test_crates \<Rightarrow> ('fa, 'h) tested TestSuite" where
  "create_memory_tests K =
     add_test (TestCase_new ''page_mapping'' ''Test page mapping and unmapping'' Integration (test_page_mapping K))
    (add_test (TestCase_new ''memory_statistics'' ''Test memory statistics tracking'' Unit (test_memory_statistics K))
    (add_test (TestCase_new ''allocation_with_flags'' ''Test allocation with different flags'' Unit (test_allocation_with_flags K))
    (add_test (TestCase_new ''simple_allocation'' ''Test basic memory allocation'' Unit (test_simple_allocation K))
    (TestSuite_new ''Memory Management'' ''Tests for memory allocation and management'' MemoryTests))))"

definition create_cpu_tests :: "'h test_crates \<Rightarrow> ('fa, 'h) tested TestSuite" where
  "create_cpu_tests K =
     add_test (TestCase_new ''interrupt_handling'' ''Test interrupt context handling'' Integration (test_interrupt_handling K))
    (add_test (TestCase_new ''cpu_statistics'' ''Test CPU statistics tracking'' Unit test_cpu_statistics)
    (add_test (TestCase_new ''cpu_data_access'' ''Test per-CPU data access'' Unit (test_cpu_data_access K))
    (TestSuite_new ''CPU Management'' ''Tests for CPU management and per-CPU data'' Unit)))"

definition create_error_tests :: "('fa, 'h) tested TestSuite" where
  "create_error_tests =
     add_test (TestCase_new ''recovery_strategies'' ''Test error recovery strategies'' Unit test_recovery_strategies)
    (add_test (TestCase_new ''error_conversion'' ''Test error type conversions'' Unit test_error_conversion)
    (add_test (TestCase_new ''error_creation'' ''Test error creation and display'' Unit test_error_creation)
    (TestSuite_new ''Error Handling'' ''Tests for error handling and recovery'' Unit)))"

definition create_integration_tests :: "'h test_crates \<Rightarrow> ('fa, 'h) tested TestSuite" where
  "create_integration_tests K =
     add_test (TestCase_new ''error_propagation'' ''Test error propagation across subsystems'' Integration test_error_propagation)
    (add_test (TestCase_new ''memory_cpu_integration'' ''Test memory and CPU subsystem integration'' Integration (test_memory_cpu_integration K))
    (TestSuite_new ''Integration'' ''Integration tests across multiple subsystems'' Integration))"

definition create_performance_tests :: "'h test_crates \<Rightarrow> ('fa, 'h) tested TestSuite" where
  "create_performance_tests K =
     add_test (TestCase_new ''cpu_data_access_speed'' ''Benchmark per-CPU data access speed'' Performance (test_cpu_data_access_speed K))
    (add_test (TestCase_new ''memory_allocation_speed'' ''Benchmark memory allocation speed'' Performance (test_memory_allocation_speed K))
    (TestSuite_new ''Performance'' ''Performance benchmarks and stress tests'' Performance))"

definition create_stress_tests :: "'h test_crates \<Rightarrow> ('fa, 'h) tested TestSuite" where
  "create_stress_tests K =
     add_test (TestCase_new ''cpu_stress'' ''Stress test CPU operations'' Stress (test_cpu_stress K))
    (add_test (TestCase_new ''memory_stress'' ''Stress test memory allocation'' Stress (test_memory_stress K))
    (TestSuite_new ''Stress'' ''Stress tests for system limits'' Stress))"

definition create_ipc_tests :: "'h test_crates \<Rightarrow> ('fa, 'h) tested TestSuite" where
  "create_ipc_tests K =
     add_test (TestCase_new ''all_ipc_tests'' ''Run all IPC tests'' System (run_all_ipc_tests K))
    (add_test (TestCase_new ''page_table_ops'' ''Test page table operations'' Integration test_page_table_ops)
    (add_test (TestCase_new ''ipc_cleanup'' ''Test IPC cleanup functionality'' Integration (test_ipc_cleanup K))
    (add_test (TestCase_new ''ipc_boot_sequence'' ''Test IPC boot sequence'' Integration (test_ipc_boot_sequence K))
    (TestSuite_new ''IPC System'' ''Tests for Inter-Process Communication'' TestCategory.Ipc))))"

definition create_all_test_suites :: "'h test_crates \<Rightarrow> ('fa, 'h) tested TestSuite list" where
  "create_all_test_suites K =
     [create_memory_tests K, create_cpu_tests K, create_error_tests, create_integration_tests K, create_ipc_tests K]"

section \<open>What a test that passes does\<close>

lemma and_then_simps [simp]:
  "f s = None \<Longrightarrow> and_then f g s = None"
  "f s = Some (Inl err, s') \<Longrightarrow> and_then f g s = Some (Inl err, s')"
  "f s = Some (Inr v, s') \<Longrightarrow> and_then f g s = g v s'"
  by (simp_all add: and_then_def)

lemma call_simps [simp]:
  "check r s = Some (r, s)" "look f s = Some (Inr (f s), s)" "change h s = Some (Inr (), h s)"
  by (simp_all add: check_def look_def change_def)

lemma and_then_call [simp]:
  "and_then (check r) g s = (case r of Inl err \<Rightarrow> Some (Inl err, s) | Inr v \<Rightarrow> g v s)"
  "and_then (look f) g s = g (f s) s" "and_then (change h) g' s = g' () (h s)"
  by (simp_all add: and_then_def split: sum.split)

text \<open>
  The effect of a list of test functions that all pass: each runs one tick later than the one
  before has ended.
\<close>

fun all_pass :: "'s TestFunction list \<Rightarrow> 's test_env \<Rightarrow> 's test_env option" where
  "all_pass [] e = Some e"
| "all_pass (f # fs) e =
     (case f (e\<lparr>TIME_COUNTER := TIME_COUNTER e + 1\<rparr>) of
        Some (Inr _, e') \<Rightarrow> all_pass fs (e'\<lparr>TIME_COUNTER := TIME_COUNTER e' + 1\<rparr>)
      | _ \<Rightarrow> None)"

definition plain :: "'s TestCase \<Rightarrow> bool" where
  "plain t \<longleftrightarrow> setup_fn t = None \<and> teardown_fn t = None \<and> \<not> might_panic (tc_metadata t)"

lemma run_sequence_all_pass:
  assumes "list_all plain ts" and "all_pass (map test_fn ts) e = Some e'"
  shows "\<exists>rs. run_sequence ts e = Some (rs, e') \<and> list_all success rs"
  using assms
proof (induction ts arbitrary: e)
  case (Cons t ts)
  let ?e = "e\<lparr>TIME_COUNTER := TIME_COUNTER e + 1\<rparr>"
  obtain e1 where 1: "test_fn t ?e = Some (Inr (), e1)"
      "all_pass (map test_fn ts) (e1\<lparr>TIME_COUNTER := TIME_COUNTER e1 + 1\<rparr>) = Some e'"
  proof (cases "test_fn t ?e")
    case (Some x)
    with Cons.prems(2) that show ?thesis by (cases x; cases "fst x") simp_all
  qed (use Cons.prems(2) in simp)
  have "\<exists>r. TestCase_run t e = Some (r, e1\<lparr>TIME_COUNTER := TIME_COUNTER e1 + 1\<rparr>) \<and> success r"
    using Cons.prems(1)
    by (simp add: 1(1) plain_def TestCase_run_def run_optional_def run_normal_test_def test_result_def
        testing_get_current_time_def Let_def)
  then show ?case using Cons.IH [OF _ 1(2)] Cons.prems(1) by auto
qed simp

abbreviation at :: "u64 \<Rightarrow> ('fa, 'h) tested \<Rightarrow> ('fa, 'h) env" where
  "at t k \<equiv> \<lparr>TIME_COUNTER = t, kernel_state = k\<rparr>"

text \<open>The heap serves requests, each released before the next one.\<close>

fun heap_serves ::
    "'h test_crates \<Rightarrow> 'fa memory_statics \<Rightarrow> (usize \<times> AllocFlags) list \<Rightarrow> 'h FixedSizeBlockAllocator \<times> mem
      \<Rightarrow> ('h FixedSizeBlockAllocator \<times> mem) option" where
  "heap_serves K G [] h = Some h"
| "heap_serves K G ((sz, flags) # rs) h =
     (case scalable_allocate (c_x86 K) (c_heap K) G sz flags h of
        Some (Inr addr, h1) \<Rightarrow>
          if addr = 0 then None
          else (case scalable_free (c_heap K) G addr sz h1 of
                  Some (Inr _, h2) \<Rightarrow> heap_serves K G rs h2
                | _ \<Rightarrow> None)
      | _ \<Rightarrow> None)"

lemma heap_serves_Cons:
  assumes "heap_serves K G ((sz, flags) # rs) h = Some h'"
  obtains addr h1 h2 where "scalable_allocate (c_x86 K) (c_heap K) G sz flags h = Some (Inr addr, h1)" "addr \<noteq> 0"
    "scalable_free (c_heap K) G addr sz h1 = Some (Inr (), h2)" "heap_serves K G rs h2 = Some h'"
proof (cases "scalable_allocate (c_x86 K) (c_heap K) G sz flags h")
  case (Some x)
  obtain r h1 where x: "x = (r, h1)" by (cases x)
  show thesis
  proof (cases r)
    case (Inr addr)
    show thesis
    proof (cases "scalable_free (c_heap K) G addr sz h1")
      case (Some y)
      then show thesis
        using assms x Inr \<open>scalable_allocate (c_x86 K) (c_heap K) G sz flags h = Some x\<close> that
        by (cases y; cases "fst y") (auto split: if_splits)
    qed (use assms x Inr Some in \<open>simp split: if_splits\<close>)
  qed (use assms x Some in simp)
qed (use assms in simp)

lemma on_heap_at:
  "f (t_manager k) (t_heap k) = Some (Inr v, h) \<Longrightarrow> on_heap K f (at t k) = Some (Inr v, at t (k\<lparr>t_heap := h\<rparr>))"
  by (simp add: on_heap_def)

lemma memory_tests_pass:
  assumes "heap_serves K (t_manager k) [(4096, AllocFlags_default)] (t_heap k) = Some h"
  shows "t + 1 \<noteq> 0 \<Longrightarrow> test_simple_allocation K (at t k) = Some (Inr (), at (t + 1) (k\<lparr>t_heap := h\<rparr>))"
    and "test_memory_statistics K (at t k) = Some (Inr (), at t (k\<lparr>t_heap := h\<rparr>))"
    and "get_current_cpu (t_cpus k) = Inr c \<Longrightarrow> snd (get_current_cpu_mut (\<lambda>_. c) (t_cpus k)) = t_cpus k \<Longrightarrow>
      test_memory_cpu_integration K (at t k) = Some (Inr (), at t (k\<lparr>t_heap := h\<rparr>))"
proof -
  obtain addr h1 where a: "scalable_allocate (c_x86 K) (c_heap K) (t_manager k) 4096 AllocFlags_default (t_heap k) = Some (Inr addr, h1)"
      "addr \<noteq> 0" "scalable_free (c_heap K) (t_manager k) addr 4096 h1 = Some (Inr (), h)"
    using assms by (rule heap_serves_Cons) auto
  note s = test_allocate_simple_def test_free_def on_heap_def allocate_simple_def a assert_defs Let_def
  show "t + 1 \<noteq> 0 \<Longrightarrow> test_simple_allocation K (at t k) = Some (Inr (), at (t + 1) (k\<lparr>t_heap := h\<rparr>))"
    by (simp add: test_simple_allocation_def now_def testing_get_current_time_def s word_neq_0_conv [symmetric])
  show "test_memory_statistics K (at t k) = Some (Inr (), at t (k\<lparr>t_heap := h\<rparr>))"
    by (simp add: test_memory_statistics_def s)
  show "get_current_cpu (t_cpus k) = Inr c \<Longrightarrow> snd (get_current_cpu_mut (\<lambda>_. c) (t_cpus k)) = t_cpus k \<Longrightarrow>
      test_memory_cpu_integration K (at t k) = Some (Inr (), at t (k\<lparr>t_heap := h\<rparr>))"
    by (simp add: test_memory_cpu_integration_def current_cpu_def s)
qed

definition aligned_flags :: AllocFlags where
  "aligned_flags = \<lparr>flag_zero = True, flag_contiguous = False, flag_align = Some 4096, flag_mem_type = Kernel\<rparr>"

lemma allocation_with_flags_passes:
  assumes "heap_serves K (t_manager k) [(8192, aligned_flags)] (t_heap k) = Some h"
  shows "test_allocation_with_flags K (at t k) = Some (Inr (), at t (k\<lparr>t_heap := h\<rparr>))"
proof -
  obtain addr h1 where "scalable_allocate (c_x86 K) (c_heap K) (t_manager k) 8192 aligned_flags (t_heap k) = Some (Inr addr, h1)"
      "addr \<noteq> 0" "scalable_free (c_heap K) (t_manager k) addr 8192 h1 = Some (Inr (), h)"
    using assms by (rule heap_serves_Cons) auto
  then show ?thesis
    by (simp add: test_allocation_with_flags_def aligned_flags_def test_allocate_def test_free_def on_heap_def assert_defs Let_def)
qed

lemma page_mapping_passes:
  assumes "virt_new_spec (c_x86 K)" and "page_spec (c_page K)"
  shows "test_page_mapping K e = Some (Inr (), e)"
proof -
  have "virt_new (c_x86 K) 0x10000000 = Some 0x10000000" using assms(1) by (rule virt_new_low) simp
  moreover have "page_containing (c_page K) 0x10000000 = 0x10000000" using assms(2) by (simp add: page_spec_def)
  ultimately show ?thesis by (simp add: test_page_mapping_def virt_addr_def assert_defs Let_def)
qed

section \<open>The processor, error and IPC tests\<close>

lemma get_current_cpu_mut_same:
  assumes "get_current_cpu M = Inr c"
  shows "snd (get_current_cpu_mut (\<lambda>_. c) M) = M"
proof -
  have c: "cpus M ! unat (manager_current_cpu M) = Some c" "unat (manager_current_cpu M) < MAX_CPUS"
    using assms by (auto simp: get_current_cpu_def get_cpu_def split: if_splits option.splits)
  then have "(cpus M)[unat (manager_current_cpu M) := Some c] = cpus M" using list_update_id by metis
  with c show ?thesis by (simp add: get_current_cpu_mut_def get_cpu_mut_def)
qed

lemma current_cpu_at:
  assumes "get_current_cpu (t_cpus k) = Inr c" and "body c = Some (Inr v, c)"
  shows "current_cpu K body (at t k) = Some (Inr v, at t k)"
  using assms by (simp add: current_cpu_def Let_def get_current_cpu_mut_same)

lemma cpu_tests_pass:
  assumes "get_current_cpu (t_cpus k) = Inr c" and "unat (cd_cpu_id c) < MAX_CPUS" and "cd_kernel_stack_top c \<noteq> 0"
    and "interrupt_depth c = 0"
  shows "test_cpu_data_access K (at t k) = Some (Inr (), at t k)" and "test_interrupt_handling K (at t k) = Some (Inr (), at t k)"
proof -
  show "test_cpu_data_access K (at t k) = Some (Inr (), at t k)"
    unfolding test_cpu_data_access_def
    by (rule current_cpu_at [OF assms(1)])
      (use assms(2,3) in \<open>simp add: assert_defs word_neq_0_conv [symmetric] PerCpu_set_current_process_id_def PerCpu_get_current_process_id_def\<close>)
  show "test_interrupt_handling K (at t k) = Some (Inr (), at t k)"
    unfolding test_interrupt_handling_def
    by (rule current_cpu_at [OF assms(1)])
      (use assms(4) in \<open>simp add: assert_defs in_interrupt_def enter_interrupt_def exit_interrupt_def\<close>)
qed

lemma cpu_statistics_passes:
  assumes "PERF_MONITOR k = PerfMonitor_new"
  shows "test_cpu_statistics (at t k) =
    Some (Inr (), at t (k\<lparr>PERF_MONITOR := \<lparr>context_switches = 1, interrupts_handled = 1, syscalls_handled = 1\<rparr>\<rparr>))"
  using assms
  by (simp add: test_cpu_statistics_def on_perf_def assert_defs PerfMonitor_new_def PerfMonitor_get_stats_def
      increment_context_switches_def increment_interrupts_def increment_syscalls_def)

lemma error_tests_pass:
  "test_error_creation e = Some (Inr (), e)" "test_error_conversion e = Some (Inr (), e)"
  "test_recovery_strategies e = Some (Inr (), e)" "test_error_propagation e = Some (Inr (), e)"
  by (simp_all add: test_error_creation_def test_error_conversion_def test_recovery_strategies_def test_error_propagation_def
      outer_function_def inner_function_def from_AllocError_def assert_defs Let_def)

text \<open>The channels and handles that the tests have made after \<open>n\<close> runs.\<close>

definition test_channels :: "nat \<Rightarrow> ChannelRegistry" where
  "test_channels n = \<lparr>channels = map (\<lambda>i. Channel_new (of_nat i) 0 2) [1..<n + 1], next_id = of_nat n + 1\<rparr>"

definition test_handle :: "nat \<Rightarrow> MemoryHandle" where
  "test_handle i = (if odd i
     then MemoryHandle_new (of_nat i) 0 (PageRange_new 0x400000 4096) ReadWrite Ownership
     else (MemoryHandle_new (of_nat i) 0 (PageRange_new 0x500000 4096) ReadWrite Ownership)\<lparr>holder_pid := 2\<rparr>)"

definition test_handles :: "nat \<Rightarrow> HandleRegistry" where
  "test_handles n = \<lparr>handles = map test_handle [1..<n + 1], next_handle_id = of_nat n + 1\<rparr>"

lemma cleanup_no_channels:
  assumes "\<forall>c \<in> set (channels r). \<not> has_endpoint pid c"
  shows "cleanup_process_channels pid r = r"
proof -
  have "filter (has_endpoint pid) (channels r) = []" using assms by (simp add: filter_empty_conv)
  then show ?thesis by (simp add: cleanup_process_channels_def)
qed

lemma channel_tests_pass:
  assumes "CHANNEL_REGISTRY k = test_channels n" and "t_current_pid k = 0"
  shows "test_message_ipc (at t k) = Some (Inr (), at t (k\<lparr>CHANNEL_REGISTRY := test_channels (n + 1)\<rparr>))"
    and "test_ipc_cleanup K (at t k) = Some (Inr (), at t (k\<lparr>CHANNEL_REGISTRY := test_channels (n + 1)\<rparr>))"
proof -
  have c: "ipc_create_channel 0 2 (test_channels n) = (Inr (of_nat n + 1), test_channels (n + 1))"
    by (simp add: ipc_create_channel_def ChannelRegistry_create_channel_def test_channels_def Let_def add.commute)
  then show "test_message_ipc (at t k) = Some (Inr (), at t (k\<lparr>CHANNEL_REGISTRY := test_channels (n + 1)\<rparr>))"
    using assms by (simp add: test_message_ipc_def on_channels_def)
  have "cleanup_process_channels 1 (test_channels (n + 1)) = test_channels (n + 1)"
    by (rule cleanup_no_channels) (auto simp: test_channels_def has_endpoint_def Channel_new_def)
  then show "test_ipc_cleanup K (at t k) = Some (Inr (), at t (k\<lparr>CHANNEL_REGISTRY := test_channels (n + 1)\<rparr>))"
    using assms c by (simp add: test_ipc_cleanup_def on_channels_def)
qed

lemma find_last: "(\<And>x. x \<in> set xs \<Longrightarrow> \<not> P x) \<Longrightarrow> P y \<Longrightarrow> find P (xs @ [y]) = Some y"
  by (induction xs) auto

lemma test_handle_id: "mh_id (test_handle i) = of_nat i"
  by (simp add: test_handle_def MemoryHandle_new_def)

lemma upd_first_last: "(\<And>x. x \<in> set xs \<Longrightarrow> \<not> P x) \<Longrightarrow> P y \<Longrightarrow> upd_first P f (xs @ [y]) = xs @ [f y]"
  by (induction xs) auto

lemma no_earlier_handle:
  assumes "n < 2 ^ 32" and "h \<in> set (map test_handle [1..<n + 1])"
  shows "mh_id h \<noteq> of_nat n + 1"
proof -
  obtain i where "h = test_handle i" "i \<le> n" using assms(2) by auto
  then have "unat (mh_id h) = i" using assms(1) by (simp add: test_handle_id unat_of_nat)
  moreover have "unat (of_nat (n + 1) :: u64) = n + 1" using assms(1) by (intro unat_of_nat_small) simp
  ultimately show ?thesis using \<open>i \<le> n\<close> by (auto simp: add.commute)
qed

abbreviation new_handle :: "nat \<Rightarrow> u64 \<Rightarrow> MemoryHandle" where
  "new_handle n a \<equiv> MemoryHandle_new (of_nat n + 1) 0 (PageRange_new a 4096) ReadWrite Ownership"

lemma test_create_handle_at:
  assumes "virt_new_spec (c_x86 K)" and "HANDLE_REGISTRY k = test_handles n" and "t_current_pid k = 0" and "a = 0x400000 \<or> a = 0x500000"
  shows "test_create_handle K a (at t k) = Some (Inr (Inr (of_nat n + 1)),
    at t (k\<lparr>HANDLE_REGISTRY := \<lparr>handles = map test_handle [1..<n + 1] @ [new_handle n a], next_handle_id = of_nat n + 2\<rparr>\<rparr>))"
proof -
  have "virt_new (c_x86 K) a = Some a" using assms(1) by (rule virt_new_low) (use assms(4) in auto)
  moreover have "PageRange_is_valid (PageRange_new a 4096)" using assms(4) by (auto simp: PageRange_is_valid_def PageRange_new_def)
  ultimately show ?thesis
    using assms(2,3)
    by (simp add: test_create_handle_def virt_addr_def on_handles_def create_memory_handle_def create_handle_def
        allocate_handle_id_def test_handles_def Let_def)
qed

lemma handle_tests_pass:
  assumes "virt_new_spec (c_x86 K)" and "phys_new_spec (c_x86 K)" and "HANDLE_REGISTRY k = test_handles n"
    and "t_current_pid k = 0" and "n < 2 ^ 32"
  shows "even n \<Longrightarrow> test_memory_handle_creation K (at t k) = Some (Inr (), at t (k\<lparr>HANDLE_REGISTRY := test_handles (n + 1)\<rparr>))"
    and "odd n \<Longrightarrow> test_basic_transfer K (at t k) = Some (Inr (), at t (k\<lparr>HANDLE_REGISTRY := test_handles (n + 1)\<rparr>))"
proof -
  define hs where "hs = map test_handle [1..<n + 1]"
  note e = no_earlier_handle [OF assms(5), folded hs_def]
  note c = test_create_handle_at [OF assms(1,3,4), folded hs_def, where t = t]
  have S: "test_handles (n + 1) = \<lparr>handles = hs @ [test_handle (n + 1)], next_handle_id = of_nat n + 2\<rparr>"
    by (simp add: test_handles_def hs_def add.commute)
  have f: "get_handle (of_nat n + 1) \<lparr>handles = hs @ [new_handle n a], next_handle_id = j\<rparr> = Some (new_handle n a)" for a j
    unfolding get_handle_def HandleRegistry.select_convs by (rule find_last) (use e in \<open>auto simp: MemoryHandle_new_def\<close>)
  have v: "validate (new_handle n a)" if "a = 0x400000 \<or> a = 0x500000" for a
  proof -
    have "unat (of_nat (n + 1) :: u64) = n + 1" using assms(5) by (intro unat_of_nat_small) simp
    then have "(of_nat n + 1 :: u64) \<noteq> 0" by (auto simp: add.commute)
    then show ?thesis using that by (auto simp: validate_def MemoryHandle_new_def PageRange_is_valid_def PageRange_new_def)
  qed
  show "test_memory_handle_creation K (at t k) = Some (Inr (), at t (k\<lparr>HANDLE_REGISTRY := test_handles (n + 1)\<rparr>))" if "even n"
  proof -
    have h: "new_handle n 0x400000 = test_handle (n + 1)" using that by (simp add: test_handle_def add.commute)
    show ?thesis
      using v [of "0x400000"] by (simp add: test_memory_handle_creation_def c f) (simp only: Suc_eq_plus1 S h)
  qed
  obtain fs where fs: "transfer_frames (c_x86 K) 0x500000 1 = Some fs"
    using transfer_frames_Some [OF assms(1,2), of "0x500000" 1] by auto
  show "test_basic_transfer K (at t k) = Some (Inr (), at t (k\<lparr>HANDLE_REGISTRY := test_handles (n + 1)\<rparr>))" if "odd n"
  proof -
    have h: "(new_handle n 0x500000)\<lparr>holder_pid := 2\<rparr> = test_handle (n + 1)" using that by (simp add: test_handle_def add.commute)
    have u: "upd_first (\<lambda>x. mh_id x = of_nat n + 1) (\<lambda>x. x\<lparr>holder_pid := 2\<rparr>) (hs @ [new_handle n 0x500000]) = hs @ [test_handle (n + 1)]"
      unfolding h [symmetric] by (rule upd_first_last) (use e in \<open>auto simp: MemoryHandle_new_def\<close>)
    have g: "owner_pid (new_handle n 0x500000) = 0" "mh_range (new_handle n 0x500000) = PageRange_new 0x500000 4096"
        "start_addr (PageRange_new 0x500000 4096) = 0x500000" "page_count (PageRange_new 0x500000 4096) = Inr 1"
      by (simp_all add: MemoryHandle_new_def page_count_def PageRange_new_def checked_add_def)
    have "transfer_memory (c_x86 K) 0 (of_nat n + 1) 2 \<lparr>handles = hs @ [new_handle n 0x500000], next_handle_id = of_nat n + 2\<rparr>
        = Some (Inr (), test_handles (n + 1))"
      using v [of "0x500000"] fs by (simp add: transfer_memory_def get_handle_mut_def f g u) (simp only: Suc_eq_plus1 S)
    then show ?thesis using assms(4) by (simp add: test_basic_transfer_def on_handles_def c)
  qed
qed

section \<open>All tests of the boot\<close>

lemma ipc_tests_pass:
  assumes "virt_new_spec (c_x86 K)" and "phys_new_spec (c_x86 K)" and "CHANNEL_REGISTRY k = test_channels n"
    and "HANDLE_REGISTRY k = test_handles j" and "even j" and "j < 2 ^ 31" and "t_current_pid k = 0"
  shows "test_ipc_boot_sequence K (at t k) =
      Some (Inr (), at t (k\<lparr>CHANNEL_REGISTRY := test_channels (n + 1), HANDLE_REGISTRY := test_handles (j + 2)\<rparr>))"
    and "run_all_ipc_tests K (at t k) =
      Some (Inr (), at t (k\<lparr>CHANNEL_REGISTRY := test_channels (n + 2), HANDLE_REGISTRY := test_handles (j + 2)\<rparr>))"
proof -
  let ?k1 = "k\<lparr>CHANNEL_REGISTRY := test_channels (n + 1)\<rparr>"
  let ?k2 = "?k1\<lparr>HANDLE_REGISTRY := test_handles (j + 1)\<rparr>" and ?k3 = "?k1\<lparr>HANDLE_REGISTRY := test_handles (j + 2)\<rparr>"
  have 1: "test_message_ipc (at t k) = Some (Inr (), at t ?k1)" using assms(3,7) by (rule channel_tests_pass)
  have 2: "test_memory_handle_creation K (at t ?k1) = Some (Inr (), at t ?k2)"
    using handle_tests_pass(1) [OF assms(1,2), of ?k1 j t] assms(4-7) by simp
  have 3: "test_basic_transfer K (at t ?k2) = Some (Inr (), at t ?k3)"
    using handle_tests_pass(2) [OF assms(1,2), of ?k2 "j + 1" t] assms(5-7) by simp
  show b: "test_ipc_boot_sequence K (at t k) = Some (Inr (), at t ?k3)"
    by (simp only: test_ipc_boot_sequence_def and_then_def 1 2 3 option.case prod.case sum.case)
  have c: "test_ipc_cleanup K (at t ?k3) = Some (Inr (), at t (?k3\<lparr>CHANNEL_REGISTRY := test_channels (n + 1 + 1)\<rparr>))"
    by (rule channel_tests_pass) (simp_all add: assms(7))
  show "run_all_ipc_tests K (at t k) =
      Some (Inr (), at t (k\<lparr>CHANNEL_REGISTRY := test_channels (n + 2), HANDLE_REGISTRY := test_handles (j + 2)\<rparr>))"
    by (simp only: run_all_ipc_tests_def and_then_def b c option.case prod.case sum.case) (simp add: test_page_table_ops_def)
qed

text \<open>The requests of the four tests that use the heap.\<close>

definition boot_requests :: "(usize \<times> AllocFlags) list" where
  "boot_requests = [(4096, AllocFlags_default), (8192, aligned_flags), (4096, AllocFlags_default), (4096, AllocFlags_default)]"

lemma boot_requests_served:
  assumes "heap_serves K G boot_requests h0 = Some h"
  obtains h1 h2 h3 where "heap_serves K G [(4096, AllocFlags_default)] h0 = Some h1" "heap_serves K G [(8192, aligned_flags)] h1 = Some h2"
    "heap_serves K G [(4096, AllocFlags_default)] h2 = Some h3" "heap_serves K G [(4096, AllocFlags_default)] h3 = Some h"
proof -
  have step: "\<exists>h1. heap_serves K G [r] u = Some h1 \<and> heap_serves K G rs h1 = Some h" if "heap_serves K G (r # rs) u = Some h" for r rs u
  proof -
    obtain sz fl where r: "r = (sz, fl)" by (cases r)
    show ?thesis using that unfolding r by (rule heap_serves_Cons) auto
  qed
  from step [OF assms [unfolded boot_requests_def]] obtain h1 where 1: "heap_serves K G [(4096, AllocFlags_default)] h0 = Some h1"
      "heap_serves K G [(8192, aligned_flags), (4096, AllocFlags_default), (4096, AllocFlags_default)] h1 = Some h" by blast
  from step [OF 1(2)] obtain h2 where 2: "heap_serves K G [(8192, aligned_flags)] h1 = Some h2"
      "heap_serves K G [(4096, AllocFlags_default), (4096, AllocFlags_default)] h2 = Some h" by blast
  from step [OF 2(2)] obtain h3 where "heap_serves K G [(4096, AllocFlags_default)] h2 = Some h3"
      "heap_serves K G [(4096, AllocFlags_default)] h3 = Some h" by blast
  with 1(1) 2(1) show thesis by (rule that)
qed

lemma boot_test_functions:
  "map test_fn (concat (map tests (create_all_test_suites K))) =
     [test_simple_allocation K, test_allocation_with_flags K, test_memory_statistics K, test_page_mapping K,
      test_cpu_data_access K, test_cpu_statistics, test_interrupt_handling K,
      test_error_creation, test_error_conversion, test_recovery_strategies,
      test_memory_cpu_integration K, test_error_propagation,
      test_ipc_boot_sequence K, test_ipc_cleanup K, test_page_table_ops, run_all_ipc_tests K]"
  "list_all plain (concat (map tests (create_all_test_suites K)))"
  by (simp_all add: create_all_test_suites_def create_memory_tests_def create_cpu_tests_def create_error_tests_def
      create_integration_tests_def create_ipc_tests_def add_test_def TestSuite_new_def TestCase_new_def plain_def Let_def)

text \<open>The states between the tests differ from the first one only in what the tests change.\<close>

definition between :: "('fa, 'h) tested \<Rightarrow> 'h FixedSizeBlockAllocator \<times> mem \<Rightarrow> PerfMonitor \<Rightarrow> nat \<Rightarrow> nat \<Rightarrow> ('fa, 'h) tested" where
  "between k a p ch ha =
     k\<lparr>t_heap := a, PERF_MONITOR := p, CHANNEL_REGISTRY := test_channels ch, HANDLE_REGISTRY := test_handles ha\<rparr>"

lemma between_fields [simp]:
  "t_manager (between k a p ch ha) = t_manager k" "t_cpus (between k a p ch ha) = t_cpus k"
  "t_current_pid (between k a p ch ha) = t_current_pid k" "t_heap (between k a p ch ha) = a"
  "PERF_MONITOR (between k a p ch ha) = p" "CHANNEL_REGISTRY (between k a p ch ha) = test_channels ch"
  "HANDLE_REGISTRY (between k a p ch ha) = test_handles ha"
  by (simp_all add: between_def)

lemma between_update [simp]:
  "(between k a p ch ha)\<lparr>t_heap := b\<rparr> = between k b p ch ha" "(between k a p ch ha)\<lparr>PERF_MONITOR := q\<rparr> = between k a q ch ha"
  "(between k a p ch ha)\<lparr>CHANNEL_REGISTRY := test_channels ch'\<rparr> = between k a p ch' ha"
  "(between k a p ch ha)\<lparr>HANDLE_REGISTRY := test_handles ha'\<rparr> = between k a p ch ha'"
  by (simp_all add: between_def)

lemma all_pass_append:
  assumes "\<exists>t1. all_pass fs (at t k) = Some (at t1 k1)" and "\<And>t1. \<exists>t2. all_pass gs (at t1 k1) = Some (at t2 k2)"
  shows "\<exists>t2. all_pass (fs @ gs) (at t k) = Some (at t2 k2)"
proof -
  have "all_pass (fs @ gs) e = (case all_pass fs e of None \<Rightarrow> None | Some e \<Rightarrow> all_pass gs e)" for e :: "('a, 'b) env"
    by (induction fs arbitrary: e) (auto split: option.splits sum.splits)
  then show ?thesis using assms by auto
qed

lemma memory_suite_passes:
  assumes "virt_new_spec (c_x86 K)" and "page_spec (c_page K)" and "t + 1 + 1 \<noteq> 0"
    and "heap_serves K (t_manager k) [(4096, AllocFlags_default)] a = Some h1"
    and "heap_serves K (t_manager k) [(8192, aligned_flags)] h1 = Some h2"
    and "heap_serves K (t_manager k) [(4096, AllocFlags_default)] h2 = Some h3"
  shows "\<exists>t'. all_pass [test_simple_allocation K, test_allocation_with_flags K, test_memory_statistics K, test_page_mapping K]
    (at t (between k a p ch ha)) = Some (at t' (between k h3 p ch ha))"
proof -
  have 1: "test_simple_allocation K (at (t + 1) (between k a p ch ha)) = Some (Inr (), at (t + 1 + 1) (between k h1 p ch ha))"
    using memory_tests_pass(1) [where k = "between k a p ch ha" and h = h1 and t = "t + 1"] assms(3,4) by simp
  have 2: "test_allocation_with_flags K (at u (between k h1 p ch ha)) = Some (Inr (), at u (between k h2 p ch ha))" for u
    using allocation_with_flags_passes [where k = "between k h1 p ch ha" and h = h2] assms(5) by simp
  have 3: "test_memory_statistics K (at u (between k h2 p ch ha)) = Some (Inr (), at u (between k h3 p ch ha))" for u
    using memory_tests_pass(2) [where k = "between k h2 p ch ha" and h = h3] assms(6) by simp
  show ?thesis using 1 by (simp add: 2 3 page_mapping_passes [OF assms(1,2)])
qed

abbreviation counted_once :: PerfMonitor where
  "counted_once \<equiv> \<lparr>context_switches = 1, interrupts_handled = 1, syscalls_handled = 1\<rparr>"

lemma cpu_error_suites_pass:
  assumes "get_current_cpu (t_cpus k) = Inr c" and "unat (cd_cpu_id c) < MAX_CPUS" and "cd_kernel_stack_top c \<noteq> 0"
    and "interrupt_depth c = 0"
  shows "\<exists>t'. all_pass [test_cpu_data_access K, test_cpu_statistics, test_interrupt_handling K,
      test_error_creation, test_error_conversion, test_recovery_strategies]
    (at t (between k a PerfMonitor_new ch ha)) = Some (at t' (between k a counted_once ch ha))"
proof -
  note c = cpu_tests_pass [where k = "between k a p ch ha" for p, OF _ assms(2-4)]
  show ?thesis
    using assms(1) by (simp add: c cpu_statistics_passes error_tests_pass)
qed

lemma integration_suite_passes:
  assumes "get_current_cpu (t_cpus k) = Inr c" and "heap_serves K (t_manager k) [(4096, AllocFlags_default)] a = Some h"
  shows "\<exists>t'. all_pass [test_memory_cpu_integration K, test_error_propagation] (at t (between k a p ch ha)) =
    Some (at t' (between k h p ch ha))"
proof -
  have "test_memory_cpu_integration K (at u (between k a p ch ha)) = Some (Inr (), at u (between k h p ch ha))" for u
    using memory_tests_pass(3) [where k = "between k a p ch ha" and h = h and c = c and t = u] assms(2)
      get_current_cpu_mut_same [OF assms(1)] assms(1) by simp
  then show ?thesis by (simp add: error_tests_pass)
qed

lemma ipc_suite_passes:
  assumes "virt_new_spec (c_x86 K)" and "phys_new_spec (c_x86 K)" and "t_current_pid k = 0"
  shows "\<exists>t'. all_pass [test_ipc_boot_sequence K, test_ipc_cleanup K, test_page_table_ops, run_all_ipc_tests K]
    (at t (between k a p 0 0)) = Some (at t' (between k a p 4 4))"
proof -
  have 1: "test_ipc_boot_sequence K (at u (between k a p 0 0)) = Some (Inr (), at u (between k a p 1 2))" for u
    using ipc_tests_pass(1) [OF assms(1,2), where k = "between k a p 0 0" and n = 0 and j = 0 and t = u] assms(3)
    by (simp add: numeral_2_eq_2)
  have 2: "test_ipc_cleanup K (at u (between k a p 1 2)) = Some (Inr (), at u (between k a p 2 2))" for u
    using channel_tests_pass(2) [where k = "between k a p 1 2" and n = 1 and K = K and t = u] assms(3) by (simp add: numeral_2_eq_2)
  have 3: "run_all_ipc_tests K (at u (between k a p 2 2)) = Some (Inr (), at u (between k a p 4 4))" for u
    using ipc_tests_pass(2) [OF assms(1,2), where k = "between k a p 2 2" and n = 2 and j = 2 and t = u] assms(3) by simp
  show ?thesis by (simp add: 1 2 3 test_page_table_ops_def del: One_nat_def)
qed

lemma boot_tests_all_pass:
  assumes "virt_new_spec (c_x86 K)" and "phys_new_spec (c_x86 K)" and "page_spec (c_page K)"
    and "heap_serves K (t_manager k) boot_requests (t_heap k) = Some h"
    and "get_current_cpu (t_cpus k) = Inr c" and "unat (cd_cpu_id c) < MAX_CPUS" and "cd_kernel_stack_top c \<noteq> 0"
    and "interrupt_depth c = 0" and "PERF_MONITOR k = PerfMonitor_new" and "CHANNEL_REGISTRY k = ChannelRegistry_new"
    and "HANDLE_REGISTRY k = HandleRegistry_new" and "t_current_pid k = 0" and "t = 0"
  shows "\<exists>t'. all_pass (map test_fn (concat (map tests (create_all_test_suites K)))) (at t k) =
    Some (at t' (k\<lparr>t_heap := h, PERF_MONITOR := \<lparr>context_switches = 1, interrupts_handled = 1, syscalls_handled = 1\<rparr>,
      CHANNEL_REGISTRY := test_channels 4, HANDLE_REGISTRY := test_handles 4\<rparr>))"
proof -
  obtain h1 h2 h3 where h: "heap_serves K (t_manager k) [(4096, AllocFlags_default)] (t_heap k) = Some h1"
      "heap_serves K (t_manager k) [(8192, aligned_flags)] h1 = Some h2"
      "heap_serves K (t_manager k) [(4096, AllocFlags_default)] h2 = Some h3"
      "heap_serves K (t_manager k) [(4096, AllocFlags_default)] h3 = Some h"
    using assms(4) by (rule boot_requests_served)
  have k: "k = between k (t_heap k) PerfMonitor_new 0 0"
    using assms(9-11) by (simp add: between_def test_channels_def test_handles_def ChannelRegistry_new_def HandleRegistry_new_def)
  have "\<exists>t'. all_pass ([test_simple_allocation K, test_allocation_with_flags K, test_memory_statistics K, test_page_mapping K] @
      [test_cpu_data_access K, test_cpu_statistics, test_interrupt_handling K, test_error_creation, test_error_conversion, test_recovery_strategies] @
      [test_memory_cpu_integration K, test_error_propagation] @
      [test_ipc_boot_sequence K, test_ipc_cleanup K, test_page_table_ops, run_all_ipc_tests K])
      (at t (between k (t_heap k) PerfMonitor_new 0 0)) = Some (at t' (between k h counted_once 4 4))"
    by (rule all_pass_append [OF memory_suite_passes [OF assms(1,3) _ h(1-3)]
          all_pass_append [OF cpu_error_suites_pass [OF assms(5-8)]
            all_pass_append [OF integration_suite_passes [OF assms(5) h(4)] ipc_suite_passes [OF assms(1,2,12)]]]])
      (simp add: assms(13))
  then show ?thesis unfolding boot_test_functions(1) k [symmetric] by (simp only: append.simps between_def)
qed

lemma boot_tests_outcome:
  assumes "virt_new_spec (c_x86 K)" and "phys_new_spec (c_x86 K)" and "page_spec (c_page K)"
    and "heap_serves K (t_manager k) boot_requests (t_heap k) = Some h"
    and "get_current_cpu (t_cpus k) = Inr c" and "unat (cd_cpu_id c) < MAX_CPUS" and "cd_kernel_stack_top c \<noteq> 0"
    and "interrupt_depth c = 0" and "PERF_MONITOR k = PerfMonitor_new" and "CHANNEL_REGISTRY k = ChannelRegistry_new"
    and "HANDLE_REGISTRY k = HandleRegistry_new" and "t_current_pid k = 0"
  shows "\<exists>B t. run_boot_checks (create_all_test_suites K) 0 (at 0 k) = Some (Inr B,
      at t (k\<lparr>t_heap := h, PERF_MONITOR := \<lparr>context_switches = 1, interrupts_handled = 1, syscalls_handled = 1\<rparr>,
        CHANNEL_REGISTRY := test_channels 4, HANDLE_REGISTRY := test_handles 4\<rparr>))
    \<and> BootChecker_all_passed B \<and> length (test_results B) = 25"
proof -
  let ?ts = "concat (map tests (create_all_test_suites K))"
  obtain t where t: "all_pass (map test_fn ?ts) (at 0 k) =
      Some (at t (k\<lparr>t_heap := h, PERF_MONITOR := \<lparr>context_switches = 1, interrupts_handled = 1, syscalls_handled = 1\<rparr>,
        CHANNEL_REGISTRY := test_channels 4, HANDLE_REGISTRY := test_handles 4\<rparr>))"
    using boot_tests_all_pass [OF assms refl] by blast
  obtain rs where rs: "run_sequence ?ts (at 0 k) =
      Some (rs, at t (k\<lparr>t_heap := h, PERF_MONITOR := \<lparr>context_switches = 1, interrupts_handled = 1, syscalls_handled = 1\<rparr>,
        CHANNEL_REGISTRY := test_channels 4, HANDLE_REGISTRY := test_handles 4\<rparr>))" "list_all success rs"
    using run_sequence_all_pass [OF boot_test_functions(2) t] by blast
  have "length (map test_fn ?ts) = 16" unfolding boot_test_functions(1) by simp
  then have n: "length rs = 16" using run_sequence_length [OF rs(1)] by simp
  have "length (test_results B) = 25" if "map bt_passed (test_results B) = replicate 9 True @ map success rs" for B
    using arg_cong [OF that, of length] n by simp
  then show ?thesis
    using boot_checks_outcome [where Ss = "create_all_test_suites K" and current_pid = 0 and e = "at 0 k"] rs by auto
qed


text \<open>Crates and a state for which the tests run: the heap hands out addresses in ascending order.\<close>

definition example_crates :: "(nat \<times> nat) test_crates" where
  "example_crates = \<lparr>c_x86 = x86_ref, c_page = example_page_crate, c_heap = bump_heap, debug_kernel = KernelError_fmt,
     debug_ipc = IpcError_fmt\<rparr>"

lemma example_page_spec: "page_spec example_page_crate"
  by (simp add: page_spec_def example_page_crate_def)

definition example_heap :: "nat \<Rightarrow> (nat \<times> nat) FixedSizeBlockAllocator" where
  "example_heap nx = \<lparr>list_heads = replicate (length BLOCK_SIZES) None, fallback_allocator = (nx, 0x444444459000)\<rparr>"

lemma example_large: "sz = 4096 \<or> sz = 8192 \<Longrightarrow> list_index \<lparr>layout_size = sz, layout_align = al\<rparr> = None"
proof -
  assume sz: "sz = 4096 \<or> sz = 8192"
  have "\<not> max sz al \<le> s" if "s \<in> set BLOCK_SIZES" for s
  proof
    assume "max sz al \<le> s"
    then have "sz \<le> s" by simp
    moreover have "s \<le> 2048" using that by (auto simp: BLOCK_SIZES_def)
    ultimately have "sz \<le> 2048" by (rule order_trans)
    then show False using sz by auto
  qed
  then show ?thesis by (simp add: list_index_def Let_def position_None_iff)
qed

lemma example_alloc:
  assumes "sz = 4096 \<or> sz = 8192" and "al = 8 \<or> al = 4096" and "4096 dvd nx" and "nx + unat sz \<le> 0x444444459000"
  shows "alloc bump_heap \<lparr>layout_size = sz, layout_align = al\<rparr> (example_heap nx, m) =
      Some (of_nat nx, example_heap (nx + unat sz), m)"
proof -
  have "align_up (unat al) nx = nx" using assms(2,3) by (auto simp: align_up_def elim!: dvdE)
  then show ?thesis
    using assms(4) by (simp add: alloc_def example_large [OF assms(1)] fallback_alloc_def bump_heap_def example_heap_def Let_def)
qed

lemma example_layout:
  assumes "sz = 4096 \<or> sz = 8192" and "al = 8 \<or> al = 4096"
  shows "Layout_from_size_align sz al = Some \<lparr>layout_size = sz, layout_align = al\<rparr>"
proof -
  have "is_power_of_two 8" by (rule power_of_two_witness [of 3]) simp_all
  moreover have "is_power_of_two 4096" by (rule power_of_two_witness [of 12]) simp_all
  ultimately show ?thesis using assms by (auto simp: Layout_from_size_align_def)
qed

lemma example_request:
  assumes "sz = 4096 \<or> sz = 8192" and "flag_align flags = None \<or> flag_align flags = Some 4096"
    and "4096 dvd nx" and "0 < nx" and "nx + unat sz \<le> 0x444444459000"
  shows "heap_serves example_crates G ((sz, flags) # rs) (example_heap nx, m) =
    heap_serves example_crates G rs (example_heap (nx + unat sz), m)"
proof -
  define al :: usize where "al = (case flag_align flags of None \<Rightarrow> 8 | Some a \<Rightarrow> a)"
  have al: "al = 8 \<or> al = 4096" using assms(2) by (auto simp: al_def)
  have u: "unat (of_nat nx :: u64) = nx" using assms(5) by (intro unat_of_nat_small) simp
  have v: "virt_new x86_ref (of_nat nx) = Some (of_nat nx)"
    using x86_ref_spec(1) by (rule virt_new_low) (use assms(5) u in simp)
  have z: "(of_nat nx :: u64) \<noteq> 0" using u assms(4) by auto
  have a: "scalable_allocate x86_ref bump_heap G sz flags (example_heap nx, m) = Some (Inr (of_nat nx), example_heap (nx + unat sz), m)"
    unfolding scalable_allocate_def GlobalMemoryManager_allocate_def al_def [symmetric] example_layout [OF assms(1) al]
    using example_alloc [OF assms(1) al assms(3,5)] v z by (simp split: sum.split)
  have d: "dealloc bump_heap (of_nat nx) \<lparr>layout_size = sz, layout_align = 8\<rparr> s = Some s" for s
    using z by (cases s) (simp add: dealloc_def example_large [OF assms(1)] bump_heap_def)
  have f: "scalable_free bump_heap G (of_nat nx) sz s = Some (Inr (), s)" for s
    unfolding scalable_free_def GlobalMemoryManager_free_def example_layout [OF assms(1) disjI1 [OF refl]] option.case d
    by (simp split: sum.split)
  have c: "c_x86 example_crates = x86_ref" "c_heap example_crates = bump_heap" by (simp_all add: example_crates_def)
  show ?thesis unfolding heap_serves.simps c a using z f by simp
qed

lemma example_boot_requests:
  "heap_serves example_crates G boot_requests (example_heap 0x444444440000, m) = Some (example_heap 0x444444445000, m)"
  by (simp add: boot_requests_def example_request AllocFlags_default_def aligned_flags_def del: heap_serves.simps(2))

definition example_cpus :: CpuManager where
  "example_cpus = snd (cpu_init CpuManager_new)"

lemma example_current_cpu: "get_current_cpu example_cpus = Inr (PerCpu_new 0 0xFFFF800000004000)"
  by (simp add: example_cpus_def get_current_cpu_def get_cpu_def cpu_init_def get_kernel_stack_for_cpu_def KERNEL_STACK_BASE_def
      KERNEL_STACK_SIZE_def init_cpu_def CpuManager_new_def MAX_CPUS_def set_current_cpu_def)

definition example_tested :: "(unit, nat \<times> nat) tested" where
  "example_tested = \<lparr>t_heap = (example_heap 0x444444440000, \<lambda>_. 0), t_manager = \<lparr>GLOBAL_MEMORY_MANAGER = None, MEMORY_MANAGER_INIT = False\<rparr>,
     t_cpus = example_cpus, PERF_MONITOR = PerfMonitor_new, CHANNEL_REGISTRY = ChannelRegistry_new,
     HANDLE_REGISTRY = HandleRegistry_new, t_current_pid = 0\<rparr>"

lemma example_tested_ready:
  "virt_new_spec (c_x86 example_crates)" "phys_new_spec (c_x86 example_crates)" "page_spec (c_page example_crates)"
  "unat (cd_cpu_id (PerCpu_new 0 0xFFFF800000004000)) < MAX_CPUS" "cd_kernel_stack_top (PerCpu_new 0 0xFFFF800000004000) \<noteq> 0"
  "interrupt_depth (PerCpu_new 0 0xFFFF800000004000) = 0"
  using x86_ref_spec example_page_spec by (simp_all add: example_crates_def PerCpu_new_def MAX_CPUS_def)


section \<open>The performance and stress tests\<close>

lemma for_each_keeps:
  assumes "\<And>i s. i \<in> set is \<Longrightarrow> I s \<Longrightarrow> \<exists>s'. f i s = Some (Inr (), s') \<and> I s'" and "I s"
  shows "\<exists>s'. for_each is f s = Some (Inr (), s') \<and> I s'"
  using assms
proof (induction "is" arbitrary: s)
  case (Cons i "is")
  then obtain s' where s': "f i s = Some (Inr (), s')" "I s'" by (meson list.set_intros(1))
  then have "for_each (i # is) f s = for_each is f s'" by (simp add: and_then_def)
  then show ?case using Cons s'(2) by simp
qed simp

lemma for_each_change: "for_each is (\<lambda>_. change f) s = Some (Inr (), (f ^^ length is) s)"
  by (induction "is" arbitrary: s) (simp_all add: funpow_swap1)

lemma get_current_cpu_after:
  assumes "get_current_cpu M = Inr c" and "length (cpus M) = MAX_CPUS"
  shows "get_current_cpu (snd (get_current_cpu_mut (\<lambda>_. c') M)) = Inr c'"
    and "length (cpus (snd (get_current_cpu_mut (\<lambda>_. c') M))) = MAX_CPUS"
  using assms
  by (auto simp: get_current_cpu_def get_cpu_def get_current_cpu_mut_def get_cpu_mut_def split: if_splits option.splits)

text \<open>
  The clock of the framework counts its own readings. So the time that the access to the processor
  data takes is one unit for any number of iterations, and the test of its speed passes whenever
  there is a current processor.
\<close>

lemma speed_test_ignores_time:
  assumes "get_current_cpu (t_cpus (kernel_state e)) = Inr c" and "CpuManager_inv (t_cpus (kernel_state e))"
  shows "\<exists>e'. test_cpu_data_access_speed K e = Some (Inr (), e') \<and> TIME_COUNTER e' = TIME_COUNTER e + 2"
proof -
  let ?body = "\<lambda>i. current_cpu K (and_then (change (PerCpu_set_current_process_id (of_nat (i mod 100)))) (\<lambda>_.
         and_then (look PerCpu_get_current_process_id) (\<lambda>_. check (Inr ()))))"
  let ?I = "\<lambda>u. TIME_COUNTER u = TIME_COUNTER e + 1 \<and> length (cpus (t_cpus (kernel_state u))) = MAX_CPUS
    \<and> (\<exists>c. get_current_cpu (t_cpus (kernel_state u)) = Inr c)"
  have "\<exists>u'. ?body i u = Some (Inr (), u') \<and> ?I u'" if "?I u" for i and u :: "('a, 'b) env"
    using that by (auto simp: current_cpu_def Let_def get_current_cpu_after)
  then have "\<exists>u'. for_each [0..<10000] ?body (e\<lparr>TIME_COUNTER := TIME_COUNTER e + 1\<rparr>) = Some (Inr (), u') \<and> ?I u'"
    by (rule for_each_keeps) (use assms in \<open>auto simp: CpuManager_inv_def\<close>)
  then obtain u where u: "for_each [0..<10000] ?body (e\<lparr>TIME_COUNTER := TIME_COUNTER e + 1\<rparr>) = Some (Inr (), u)"
      "TIME_COUNTER u = TIME_COUNTER e + 1" by blast
  show ?thesis
    unfolding test_cpu_data_access_speed_def
    by (simp only: and_then_def now_def testing_get_current_time_def u option.case prod.case sum.case) (simp add: assert_defs)
qed

text \<open>Nested interrupts are counted back to the depth before.\<close>

lemma funpow_interrupts:
  "(enter_interrupt ^^ n) c = c\<lparr>interrupt_depth := interrupt_depth c + of_nat n\<rparr>"
  "(exit_interrupt ^^ n) c = c\<lparr>interrupt_depth := interrupt_depth c - of_nat n\<rparr>"
  by (induction n) (simp_all add: enter_interrupt_def exit_interrupt_def algebra_simps)

lemma cpu_stress_passes:
  assumes "get_current_cpu (t_cpus (kernel_state e)) = Inr c" and "interrupt_depth c = 0"
  shows "\<exists>e'. test_cpu_stress K e = Some (Inr (), e')"
proof -
  let ?set = "for_each [0..<1000] (\<lambda>i. and_then (change (PerCpu_set_current_process_id (of_nat i))) (\<lambda>_.
       and_then (look PerCpu_get_current_process_id) (\<lambda>_. check (Inr ()))))"
  have "\<exists>c'. ?set c = Some (Inr (), c') \<and> interrupt_depth c' = 0"
    by (rule for_each_keeps) (simp_all add: assms(2) PerCpu_set_current_process_id_def)
  then obtain c' where c': "?set c = Some (Inr (), c')" "interrupt_depth c' = 0" by blast
  then have "\<exists>c2. and_then ?set (\<lambda>_. and_then (for_each [0..<10] (\<lambda>_. change enter_interrupt)) (\<lambda>_.
     and_then (for_each [0..<10] (\<lambda>_. change exit_interrupt)) (\<lambda>_.
     and_then (look in_interrupt) (\<lambda>i. check (assert_false ''cpu.in_interrupt()'' i))))) c = Some (Inr (), c2)"
    by (simp only: and_then_def c'(1) for_each_change option.case prod.case sum.case)
      (simp add: funpow_interrupts in_interrupt_def assert_defs)
  then show ?thesis using assms(1) unfolding test_cpu_stress_def by (auto simp only: current_cpu_def Let_def) simp
qed

section \<open>What no test changes\<close>

text \<open>The memory manager and the current process are the same after every test, whatever its result.\<close>

definition keeps :: "(('fa, 'h) env, 'a) call \<Rightarrow> bool" where
  "keeps f \<longleftrightarrow> (\<forall>e r e'. f e = Some (r, e') \<longrightarrow>
     t_manager (kernel_state e') = t_manager (kernel_state e) \<and> t_current_pid (kernel_state e') = t_current_pid (kernel_state e))"

named_theorems keeps_intros

lemma keeps_and_then [keeps_intros]:
  assumes "keeps f" and "\<And>v. keeps (g v)"
  shows "keeps (and_then f g)"
  using assms unfolding keeps_def and_then_def by (fastforce split: option.splits sum.splits prod.splits)

lemma keeps_calls [keeps_intros]:
  "keeps (check r)" "keeps (look f)" "keeps now" "keeps (virt_addr K a)" "keeps (on_heap K h)" "keeps (current_cpu K body)"
  "keeps (on_perf p)" "keeps (on_channels c)" "keeps (on_handles s)"
  by (auto simp: keeps_def now_def testing_get_current_time_def virt_addr_def on_heap_def current_cpu_def on_perf_def
      on_channels_def on_handles_def Let_def split: option.splits sum.splits prod.splits)

lemma keeps_case [keeps_intros]:
  "(\<And>a. keeps (f a)) \<Longrightarrow> (\<And>b. keeps (g b)) \<Longrightarrow> keeps (case x of Inl a \<Rightarrow> f a | Inr b \<Rightarrow> g b)"
  by (simp split: sum.split)

lemma keeps_error_propagation [keeps_intros]: "keeps test_error_propagation"
  by (simp add: keeps_def error_tests_pass(4))

lemma boot_tests_keep:
  "f \<in> set (map test_fn (concat (map tests (create_all_test_suites K)))) \<Longrightarrow> keeps f"
  unfolding boot_test_functions(1)
  by (auto simp: test_simple_allocation_def test_allocation_with_flags_def test_memory_statistics_def test_page_mapping_def
      test_cpu_data_access_def test_cpu_statistics_def test_interrupt_handling_def test_error_creation_def
      test_error_conversion_def test_recovery_strategies_def test_memory_cpu_integration_def
      test_ipc_boot_sequence_def test_ipc_cleanup_def test_page_table_ops_def run_all_ipc_tests_def
      test_message_ipc_def test_memory_handle_creation_def test_basic_transfer_def test_create_handle_def
      test_allocate_def test_allocate_simple_def test_free_def Let_def intro!: keeps_intros)

lemma TestCase_run_keeps:
  assumes "plain t" and "keeps (test_fn t)" and "TestCase_run t e = Some (r, e')"
  shows "t_manager (kernel_state e') = t_manager (kernel_state e) \<and> t_current_pid (kernel_state e') = t_current_pid (kernel_state e)"
proof -
  let ?e = "e\<lparr>TIME_COUNTER := TIME_COUNTER e + 1\<rparr>"
  obtain res e1 where 1: "test_fn t ?e = Some (res, e1)" "kernel_state e' = kernel_state e1"
    using assms(1,3)
    by (auto simp: plain_def TestCase_run_def run_optional_def run_normal_test_def test_result_def
        testing_get_current_time_def Let_def bind_eq_Some_conv)
  then show ?thesis using assms(2) unfolding keeps_def by fastforce
qed

lemma run_sequence_keeps:
  assumes "list_all plain ts" and "\<And>f. f \<in> set (map test_fn ts) \<Longrightarrow> keeps f" and "run_sequence ts e = Some (rs, e')"
  shows "t_manager (kernel_state e') = t_manager (kernel_state e) \<and> t_current_pid (kernel_state e') = t_current_pid (kernel_state e)"
  using assms
proof (induction ts arbitrary: e rs)
  case (Cons t ts)
  then obtain r e1 rs' where 1: "TestCase_run t e = Some (r, e1)" "run_sequence ts e1 = Some (rs', e')"
    by (auto simp: bind_eq_Some_conv)
  have "t_manager (kernel_state e1) = t_manager (kernel_state e) \<and> t_current_pid (kernel_state e1) = t_current_pid (kernel_state e)"
    by (rule TestCase_run_keeps [OF _ _ 1(1)]) (use Cons.prems in auto)
  moreover have "t_manager (kernel_state e') = t_manager (kernel_state e1) \<and> t_current_pid (kernel_state e') = t_current_pid (kernel_state e1)"
    by (rule Cons.IH [OF _ _ 1(2)]) (use Cons.prems in auto)
  ultimately show ?case by simp
qed simp

lemma boot_checks_keep:
  assumes "run_boot_checks (create_all_test_suites K) pid e = Some (r, e')"
  shows "t_manager (kernel_state e') = t_manager (kernel_state e)" and "t_current_pid (kernel_state e') = t_current_pid (kernel_state e)"
proof -
  let ?ts = "concat (map tests (create_all_test_suites K))"
  obtain rs where "run_sequence ?ts e = Some (rs, e')"
    using boot_checks_outcome [where Ss = "create_all_test_suites K" and current_pid = pid and e = e] assms
    by (cases "run_sequence ?ts e") auto
  then have "t_manager (kernel_state e') = t_manager (kernel_state e) \<and> t_current_pid (kernel_state e') = t_current_pid (kernel_state e)"
    by (rule run_sequence_keeps [OF boot_test_functions(2), rotated]) (rule boot_tests_keep)
  then show "t_manager (kernel_state e') = t_manager (kernel_state e)" "t_current_pid (kernel_state e') = t_current_pid (kernel_state e)"
    by blast+
qed

end
