(* ===== verification/Ruix_Boot.thy ===== *)
theory Ruix_Boot
  imports Ruix_Gdt Ruix_Suites
begin

text \<open>
  The boot sequence (\<^verbatim>\<open>src/main.rs\<close>): from the initialisation of the processor and of memory
  over the tests of \<^verbatim>\<open>src/tests\<close> to the user programs, the first two processes and the start of the timer. The
  loading of the descriptor tables and the printing in between have no effect on the state here.
  The frame allocator and \<^verbatim>\<open>map_to\<close> are parameters.
\<close>

section \<open>State\<close>

datatype 'a boot = Reached 'a | Halted | Panicked

definition boot_then :: "'a boot \<Rightarrow> ('a \<Rightarrow> 'b boot) \<Rightarrow> 'b boot" where
  "boot_then r f = (case r of Reached a \<Rightarrow> f a | Halted \<Rightarrow> Halted | Panicked \<Rightarrow> Panicked)"

text \<open>\<^verbatim>\<open>unwrap\<close>, \<^verbatim>\<open>expect\<close> and checked arithmetic panic.\<close>

definition expect :: "'a option \<Rightarrow> 'a boot" where
  "expect x = (case x of Some a \<Rightarrow> Reached a | None \<Rightarrow> Panicked)"

record ('fa, 'h, 'fut, 'w) boot_state =
  b_machine :: "'fa machine"
  b_heap :: "'h FixedSizeBlockAllocator"
  b_manager :: "'fa memory_statics"
  b_cpus :: CpuManager
  b_sched :: "('fut, 'w) Scheduler"
  b_timeouts :: TimeoutManager
  b_perf :: PerfMonitor
  b_chans :: ChannelRegistry
  b_hands :: HandleRegistry
  b_pid :: u64
  b_time :: u64
  b_ports :: "(u16 \<times> u8) list"

text \<open>The part of the state that the tests at boot reach, and its return to the whole.\<close>

definition tested_part :: "('fa, 'h, 'fut, 'w) boot_state \<Rightarrow> ('fa, 'h) env" where
  "tested_part s = \<lparr>TIME_COUNTER = b_time s,
     kernel_state = \<lparr>t_heap = (b_heap s, memory (b_machine s)), t_manager = b_manager s, t_cpus = b_cpus s,
       PERF_MONITOR = b_perf s, CHANNEL_REGISTRY = b_chans s, HANDLE_REGISTRY = b_hands s, t_current_pid = b_pid s\<rparr>\<rparr>"

definition with_tested :: "('fa, 'h) env \<Rightarrow> ('fa, 'h, 'fut, 'w) boot_state \<Rightarrow> ('fa, 'h, 'fut, 'w) boot_state" where
  "with_tested e s =
     (let k = kernel_state e
      in s\<lparr>b_time := TIME_COUNTER e, b_heap := fst (t_heap k), b_machine := (b_machine s)\<lparr>memory := snd (t_heap k)\<rparr>,
           b_manager := t_manager k, b_cpus := t_cpus k, b_perf := PERF_MONITOR k, b_chans := CHANNEL_REGISTRY k,
           b_hands := HANDLE_REGISTRY k, b_pid := t_current_pid k\<rparr>)"

text \<open>The counters of \<^verbatim>\<open>process/mod.rs\<close> before anything ran.\<close>

definition first_ids :: "('fa, 'z) machine_scheme \<Rightarrow> bool" where
  "first_ids s \<longleftrightarrow> NEXT_PID s = 1 \<and> NEXT_PGID s = 1 \<and> NEXT_SID s = 1 \<and> TIMESTAMP_COUNTER s = 0"

section \<open>The first two processes\<close>

definition init_tasks ::
    "x86_crate \<Rightarrow> ('fa \<Rightarrow> u64 option \<times> 'fa) \<Rightarrow> OffsetPageTable \<Rightarrow> u64 \<Rightarrow> u64
      \<Rightarrow> ('fut, 'w) Scheduler \<times> ('fa, 'z) machine_scheme \<Rightarrow> (('fut, 'w) Scheduler \<times> ('fa, 'z) machine_scheme) option" where
  "init_tasks X get_frame mapper STACK1 STACK2 =
     (\<lambda>(sched, s).
        case Process_new X get_frame mapper 1 0x400000 (STACK1 + 4096) s of
          None \<Rightarrow> None
        | Some (proc1, s) \<Rightarrow>
            (case Process_new X get_frame mapper 2 0x500000 (STACK2 + 4096) s of
               None \<Rightarrow> None
             | Some (proc2, s) \<Rightarrow> Some (add_process proc2 (add_process proc1 sched), s)))"

section \<open>The user programs\<close>

definition loop_code :: "u8 list" where
  "loop_code = [0xEB, 0xFE]"

definition syscall_test_code :: "u8 list" where
  "syscall_test_code =
     [0x48, 0xC7, 0x27, 0x00, 0x00, 0x00, 0x00, 0x00,
      0x0F, 0x05,
      0x48, 0xC7, 0x27, 0x00, 0x00, 0x00, 0x00, 0x00, 0x00, 0x00,
      0xEB, 0xFE]"

text \<open>A frame is taken and mapped at a user address; the state is memory and allocator.\<close>

definition map_new_page ::
    "x86_crate \<Rightarrow> page_crate \<Rightarrow> paging_crate \<Rightarrow> (MapToError, 'fa) map_to \<Rightarrow> ('fa \<Rightarrow> u64 option \<times> 'fa) \<Rightarrow> OffsetPageTable
      \<Rightarrow> u64 \<Rightarrow> mem \<times> 'fa \<Rightarrow> (u64 \<times> mem \<times> 'fa) option" where
  "map_new_page X C P map_to get_frame mapper addr =
     (\<lambda>(m, fa). case virt_new X addr of
        None \<Rightarrow> None
      | Some a \<Rightarrow>
          (case get_frame fa of
             (None, _) \<Rightarrow> None
           | (Some frame, fa) \<Rightarrow>
               map_option (\<lambda>s. (frame, s)) (map_user_page X P map_to (page_containing C a) frame mapper (m, fa))))"

definition write_code :: "x86_crate \<Rightarrow> u64 \<Rightarrow> u64 \<Rightarrow> u8 list \<Rightarrow> mem \<Rightarrow> mem option" where
  "write_code X phys_mem_offset frame code m = map_option (\<lambda>virt. write_bytes virt code m) (virt_add X phys_mem_offset frame)"

text \<open>
  Both programs and the stack of the first; the result is the frame of the first program and the
  top of the stack.
\<close>

definition load_user_programs ::
    "x86_crate \<Rightarrow> page_crate \<Rightarrow> paging_crate \<Rightarrow> (MapToError, 'fa) map_to \<Rightarrow> ('fa \<Rightarrow> u64 option \<times> 'fa) \<Rightarrow> OffsetPageTable
      \<Rightarrow> mem \<times> 'fa \<Rightarrow> (u64 \<times> u64 \<times> mem \<times> 'fa) option" where
  "load_user_programs X C P map_to get_frame mapper s =
     (case map_new_page X C P map_to get_frame mapper 0x400000 s of
        None \<Rightarrow> None
      | Some (code_frame, s) \<Rightarrow>
          (case map_new_page X C P map_to get_frame mapper 0x600000 s of
             None \<Rightarrow> None
           | Some (_, m, fa) \<Rightarrow>
               (case virt_add X 0x600000 4096 of
                  None \<Rightarrow> None
                | Some user_stack_top \<Rightarrow>
                    (case write_code X (phys_offset mapper) code_frame loop_code m of
                       None \<Rightarrow> None
                     | Some m \<Rightarrow>
                         (case map_new_page X C P map_to get_frame mapper 0x500000 (m, fa) of
                            None \<Rightarrow> None
                          | Some (code_frame2, m, fa) \<Rightarrow>
                              map_option (\<lambda>m. (code_frame, user_stack_top, m, fa))
                                (write_code X (phys_offset mapper) code_frame2 syscall_test_code m))))))"

section \<open>The sequence\<close>

definition boot_memory ::
    "x86_crate \<Rightarrow> page_crate \<Rightarrow> 'h heap_crate \<Rightarrow> (MapToError, 'fa) map_to \<Rightarrow> ('fa \<Rightarrow> u64 option \<times> 'fa) \<Rightarrow> 'fa \<Rightarrow> 'fa
      \<Rightarrow> u64 \<Rightarrow> u64 \<Rightarrow> ('fa, 'h, 'fut, 'w) boot_state \<Rightarrow> (OffsetPageTable \<times> ('fa, 'h, 'fut, 'w) boot_state) boot" where
  "boot_memory X C H map_to get_frame empty_fa fa0 cr3 physical_memory_offset s =
     boot_then (expect (virt_new X physical_memory_offset)) (\<lambda>phys_mem_offset.
     boot_then (expect (memory_init X cr3 phys_mem_offset)) (\<lambda>mapper.
     boot_then (expect (init_heap X C H map_to get_frame mapper (b_heap s) (memory (b_machine s), fa0))) (\<lambda>(r, A, m, fa).
       case r of
         Inl _ \<Rightarrow> Panicked
       | Inr _ \<Rightarrow>
           (case scalable_init empty_fa fa0 (b_manager s) of
              (Inl _, _) \<Rightarrow> Panicked
            | (Inr _, G) \<Rightarrow>
                Reached (mapper, s\<lparr>b_heap := A, b_manager := G,
                  b_machine := (b_machine s)\<lparr>memory := m, frames := fa\<rparr>\<rparr>)))))"

definition boot_check :: "'h test_crates \<Rightarrow> ('fa, 'h, 'fut, 'w) boot_state \<Rightarrow> ('fa, 'h, 'fut, 'w) boot_state boot" where
  "boot_check K s =
     (case run_boot_checks (create_all_test_suites K) (b_pid s) (tested_part s) of
        None \<Rightarrow> Panicked
      | Some (Inl _, _) \<Rightarrow> Halted
      | Some (Inr checker, e) \<Rightarrow>
          if \<not> BootChecker_all_passed checker then Halted else Reached (with_tested e s))"

text \<open>
  \<^verbatim>\<open>kernel_main\<close> up to the call of the user code in kernel mode; the result has the address
  called, and what the jump to user mode after it would be given.
\<close>

definition kernel_main ::
    "'h test_crates \<Rightarrow> paging_crate \<Rightarrow> (MapToError, 'fa) map_to \<Rightarrow> ('fa \<Rightarrow> u64 option \<times> 'fa) \<Rightarrow> 'fa \<Rightarrow> 'fa \<Rightarrow> u64 \<Rightarrow> u64 \<Rightarrow> u64 \<Rightarrow> u64
      \<Rightarrow> ('fa, 'h, 'fut, 'w) boot_state \<Rightarrow> (u64 \<times> u64 \<times> u64 \<times> ('fa, 'h, 'fut, 'w) boot_state) boot" where
  "kernel_main K P map_to get_frame empty_fa fa0 cr3 physical_memory_offset STACK1 STACK2 s =
     (let X = c_x86 K; C = c_page K in
      case cpu_init (b_cpus s) of
        (Inl _, _) \<Rightarrow> Halted
      | (Inr _, manager) \<Rightarrow>
          boot_then (boot_memory X C (c_heap K) map_to get_frame empty_fa fa0 cr3 physical_memory_offset (s\<lparr>b_cpus := manager\<rparr>)) (\<lambda>(mapper, s).
          boot_then (boot_check K s) (\<lambda>s.
          boot_then (expect (load_user_programs X C P map_to get_frame mapper (memory (b_machine s), frames (b_machine s))))
            (\<lambda>(code_frame, user_stack_top, m, fa).
          boot_then (expect (init_tasks X get_frame mapper STACK1 STACK2 (b_sched s, (b_machine s)\<lparr>memory := m, frames := fa\<rparr>)))
            (\<lambda>(sched, machine).
          boot_then (expect (virt_add X (phys_offset mapper) code_frame)) (\<lambda>virt.
            let test_pid = 1;
                watched = start_user_mode test_pid (register_process test_pid (Some 30) (b_timeouts s))
            in Reached (virt, 0x400000, user_stack_top,
                 s\<lparr>b_machine := machine, b_sched := sched, b_ports := b_ports s @ timer_init, b_timeouts := watched\<rparr>)))))))"

section \<open>What the boot sequence leaves behind\<close>

lemma boot_then_Reached: "boot_then r f = Reached x \<longleftrightarrow> (\<exists>a. r = Reached a \<and> f a = Reached x)"
  by (cases r) (simp_all add: boot_then_def)

lemma expect_Reached: "expect x = Reached a \<longleftrightarrow> x = Some a"
  by (cases x) (simp_all add: expect_def)

lemmas reached_simps = boot_then_Reached expect_Reached

lemma Process_new_ids:
  assumes "Process_new X gf mp i e st s = Some (p, s')"
  shows "proc_id p = i" and "parent_id p = 0" and "state p = Ready" and "Process_wf p" and "NEXT_PID s' = NEXT_PID s"
    and "context_ptr p = st - context_size"
  using assms
  by (auto simp: Process_new_def Let_def get_current_time_def create_process_page_table_with_user_mappings_def Process_wf_def
      ProcessStats_default_def DEFAULT_PRIORITY_def split: option.splits prod.splits)

lemma init_tasks_ids:
  assumes "init_tasks X gf mp STACK1 STACK2 (sc, s) = Some (sc', s')"
  shows "map proc_id (processes sc') = map proc_id (processes sc) @ [1, 2]" and "NEXT_PID s' = NEXT_PID s"
proof -
  obtain p1 s1 p2 where p: "Process_new X gf mp 1 0x400000 (STACK1 + 4096) s = Some (p1, s1)"
      "Process_new X gf mp 2 0x500000 (STACK2 + 4096) s1 = Some (p2, s')" "sc' = add_process p2 (add_process p1 sc)"
    using assms by (auto simp: init_tasks_def split: option.splits)
  show "map proc_id (processes sc') = map proc_id (processes sc) @ [1, 2]" "NEXT_PID s' = NEXT_PID s"
    using Process_new_ids [OF p(1)] Process_new_ids [OF p(2)] p(3) by (simp_all add: add_process_def Let_def)
qed

lemma load_user_programs_stack:
  assumes "virt_add_spec X" and "load_user_programs X C P map_to gf mp s = Some (code_frame, user_stack_top, s')"
  shows "user_stack_top = 0x601000"
proof -
  have "virt_add X 0x600000 4096 = Some (0x600000 + 4096)" using assms(1) by (intro virt_add_low) simp_all
  then show ?thesis using assms(2) by (auto simp: load_user_programs_def split: option.splits)
qed

lemma boot_memory_manager:
  assumes "boot_memory X C H map_to gf empty_fa fa0 cr3 offset s = Reached (mp, s')" and "\<not> MEMORY_MANAGER_INIT (b_manager s)"
  shows "\<exists>G. GLOBAL_MEMORY_MANAGER (b_manager s') = Some G \<and> frame_allocator G = fa0"
    and "b_pid s' = b_pid s" and "b_sched s' = b_sched s" and "b_timeouts s' = b_timeouts s"
    and "NEXT_PID (b_machine s') = NEXT_PID (b_machine s)"
proof -
  obtain G A m fa where s': "scalable_init empty_fa fa0 (b_manager s) = (Inr (), G)"
      "s' = s\<lparr>b_heap := A, b_manager := G, b_machine := (b_machine s)\<lparr>memory := m, frames := fa\<rparr>\<rparr>"
  proof -
    obtain r :: "MapToError + unit" and A m fa mp' where "(case r of Inl _ \<Rightarrow> Panicked
       | Inr _ \<Rightarrow> (case scalable_init empty_fa fa0 (b_manager s) of (Inl _, _) \<Rightarrow> Panicked
            | (Inr _, G) \<Rightarrow> Reached (mp', s\<lparr>b_heap := A, b_manager := G,
                b_machine := (b_machine s)\<lparr>memory := m, frames := fa\<rparr>\<rparr>))) = Reached (mp, s')"
      using assms(1) by (clarsimp simp: boot_memory_def reached_simps)
    then show ?thesis
      by (cases r; cases "scalable_init empty_fa fa0 (b_manager s)"; cases "fst (scalable_init empty_fa fa0 (b_manager s))")
        (auto intro: that)
  qed
  have "\<exists>M. GLOBAL_MEMORY_MANAGER G = Some M \<and> frame_allocator M = fa0"
    using s'(1) assms(2) by (auto simp: scalable_init_def GlobalMemoryManager_init_def Let_def)
  then show "\<exists>G. GLOBAL_MEMORY_MANAGER (b_manager s') = Some G \<and> frame_allocator G = fa0"
    and "b_pid s' = b_pid s" and "b_sched s' = b_sched s" and "b_timeouts s' = b_timeouts s"
    and "NEXT_PID (b_machine s') = NEXT_PID (b_machine s)"
    using s'(2) by simp_all
qed

lemma boot_check_passed:
  assumes "boot_check K s = Reached s'"
  obtains B e where "run_boot_checks (create_all_test_suites K) (b_pid s) (tested_part s) = Some (Inr B, e)" "BootChecker_all_passed B"
    "s' = with_tested e s" "b_manager s' = b_manager s"
proof -
  obtain B e where b: "run_boot_checks (create_all_test_suites K) (b_pid s) (tested_part s) = Some (Inr B, e)"
      "BootChecker_all_passed B" "s' = with_tested e s"
    using assms by (auto simp: boot_check_def split: option.splits sum.splits if_splits)
  moreover have "b_manager s' = b_manager s"
    using boot_checks_keep(1) [OF b(1)] by (simp add: b(3) with_tested_def tested_part_def Let_def)
  ultimately show thesis by (rule that)
qed

text \<open>
  C27 (After the boot sequence). If the kernel reaches the point where it runs user code, all
  boot tests have passed on the state that the initialisation of memory left, and their channels and
  handles are still there; the two processes with the identifiers one and two have been added, the
  addresses prepared for user mode will be accepted, the timer watches process one, and the memory
  manager owns a frame allocator that starts over from the beginning of the memory map, like
  the one that the boot sequence has used itself.
\<close>

theorem boot_ready:
  assumes "kernel_main K P map_to gf empty_fa fa0 cr3 offset STACK1 STACK2 s = Reached (virt, code_addr, stack_addr, s')"
    and "virt_add_spec (c_x86 K)" and "\<not> MEMORY_MANAGER_INIT (b_manager s)"
  shows "(\<exists>mapper s1 B e. boot_memory (c_x86 K) (c_page K) (c_heap K) map_to gf empty_fa fa0 cr3 offset
        (s\<lparr>b_cpus := snd (cpu_init (b_cpus s))\<rparr>) = Reached (mapper, s1)
      \<and> run_boot_checks (create_all_test_suites K) (b_pid s) (tested_part s1) = Some (Inr B, e) \<and> BootChecker_all_passed B
      \<and> b_chans s' = CHANNEL_REGISTRY (kernel_state e) \<and> b_hands s' = HANDLE_REGISTRY (kernel_state e))
    \<and> map proc_id (processes (b_sched s')) = map proc_id (processes (b_sched s)) @ [1, 2]
    \<and> NEXT_PID (b_machine s') = NEXT_PID (b_machine s)
    \<and> validate_user_mode_transition code_addr stack_addr
    \<and> user_mode_active (b_timeouts s') \<and> current_user_pid (b_timeouts s') = 1
    \<and> (\<exists>G. GLOBAL_MEMORY_MANAGER (b_manager s') = Some G \<and> frame_allocator G = fa0)"
proof -
  obtain manager mp s1 s2 code_frame m fa sc machine where
      0: "cpu_init (b_cpus s) = (Inr (), manager)"
    and 1: "boot_memory (c_x86 K) (c_page K) (c_heap K) map_to gf empty_fa fa0 cr3 offset (s\<lparr>b_cpus := manager\<rparr>) = Reached (mp, s1)"
    and 2: "boot_check K s1 = Reached s2"
    and 3: "load_user_programs (c_x86 K) (c_page K) P map_to gf mp (memory (b_machine s2), frames (b_machine s2)) = Some (code_frame, stack_addr, m, fa)"
    and 4: "init_tasks (c_x86 K) gf mp STACK1 STACK2 (b_sched s2, (b_machine s2)\<lparr>memory := m, frames := fa\<rparr>) = Some (sc, machine)"
    and 5: "code_addr = 0x400000" "s' = s2\<lparr>b_machine := machine, b_sched := sc, b_ports := b_ports s2 @ timer_init,
        b_timeouts := start_user_mode 1 (register_process 1 (Some 30) (b_timeouts s2))\<rparr>"
    using assms(1) by (auto simp: kernel_main_def reached_simps Let_def split: prod.splits sum.splits)
  note m = boot_memory_manager [OF 1]
  obtain B e where c: "run_boot_checks (create_all_test_suites K) (b_pid s1) (tested_part s1) = Some (Inr B, e)"
      "BootChecker_all_passed B" "s2 = with_tested e s1" "b_manager s2 = b_manager s1"
    using 2 by (rule boot_check_passed)
  have "validate_user_mode_transition code_addr stack_addr"
    unfolding load_user_programs_stack [OF assms(2) 3] 5(1) by (simp add: validate_user_mode_transition_def)
  moreover have "b_sched s2 = b_sched s1" "NEXT_PID (b_machine s2) = NEXT_PID (b_machine s1)"
      "b_chans s2 = CHANNEL_REGISTRY (kernel_state e)" "b_hands s2 = HANDLE_REGISTRY (kernel_state e)"
    by (simp_all add: c(3) with_tested_def Let_def)
  moreover have "snd (cpu_init (b_cpus s)) = manager" by (simp add: 0)
  ultimately show ?thesis
    using 1 m c(1,2,4) init_tasks_ids [OF 4] assms(3) by (simp add: 5 start_user_mode_active)
qed

text \<open>A small machine on which the whole sequence runs: frames are numbered and mapping always succeeds.\<close>

definition count_frames :: "nat \<Rightarrow> u64 option \<times> nat" where
  "count_frames n = (Some (of_nat (0x100000 + 4096 * n)), n + 1)"

definition flat_paging :: paging_crate where
  "flat_paging = \<lparr>table_index = (\<lambda>_ _. 0), page_offset = (\<lambda>a. a mod 4096), phys_add = (\<lambda>a b. Some (a + b)),
     entry_frame = (\<lambda>_. Inr 0x1000), entry_flags = (\<lambda>e. e), entry_set_flags = (\<lambda>e f. f)\<rparr>"

definition accept_map :: "(MapToError, nat) map_to" where
  "accept_map page frame flags mapper s = (Inr (), s)"

definition boot_example :: "(nat, nat \<times> nat, unit, unit) boot_state" where
  "boot_example = \<lparr>b_machine = \<lparr>memory = (\<lambda>_. 0), frames = 0, NEXT_PID = 1, NEXT_PGID = 1, NEXT_SID = 1, TIMESTAMP_COUNTER = 0\<rparr>,
     b_heap = FixedSizeBlockAllocator_new bump_heap, b_manager = \<lparr>GLOBAL_MEMORY_MANAGER = None, MEMORY_MANAGER_INIT = False\<rparr>,
     b_cpus = CpuManager_new, b_sched = SCHEDULER_init, b_timeouts = TimeoutManager_new,
     b_perf = PerfMonitor_new,
     b_chans = ChannelRegistry_new, b_hands = HandleRegistry_new, b_pid = 0, b_time = 0, b_ports = []\<rparr>"

lemma x86_ref_low:
  "unat a < 2 ^ 47 \<Longrightarrow> virt_new x86_ref a = Some a"
  "unat a + unat n < 2 ^ 47 \<Longrightarrow> virt_add x86_ref a n = Some (a + n)"
  using virt_new_low [OF x86_ref_spec(1)] virt_add_low [OF x86_ref_spec(2)] by blast+

lemma accept_heap_pages: "map_heap_pages accept_map count_frames mp ps (m, n) = (Inr (), m, n + length ps)"
  by (induction ps arbitrary: n) (simp_all add: count_frames_def accept_map_def)

lemma boot_example_memory:
  "\<exists>s. boot_memory x86_ref example_page_crate bump_heap accept_map count_frames 0 0 0x1000 0 (boot_example\<lparr>b_cpus := M\<rparr>) =
     Reached (\<lparr>phys_offset = 0, level_4_table = 0x1000\<rparr>, s) \<and> frames (b_machine s) = 25
     \<and> tested_part s = at 0 \<lparr>t_heap = (example_heap 0x444444440000, \<lambda>_. 0), t_manager = b_manager s, t_cpus = M, PERF_MONITOR = PerfMonitor_new,
         CHANNEL_REGISTRY = ChannelRegistry_new, HANDLE_REGISTRY = HandleRegistry_new, t_current_pid = 0\<rparr> \<and> b_pid s = 0"
  using heap_page_range_eq [OF x86_ref_spec(1,2) example_page_spec]
  by (simp add: boot_memory_def boot_then_def expect_def x86_ref_low memory_init_def active_level_4_table_def init_heap_def
      accept_heap_pages heap_pages_def FixedSizeBlockAllocator_init_def FixedSizeBlockAllocator_new_def bump_heap_def HEAP_START_def HEAP_SIZE_def
      scalable_init_def GlobalMemoryManager_init_def boot_example_def tested_part_def example_heap_def split_beta Let_def)

abbreviation flat_mapper :: OffsetPageTable where
  "flat_mapper \<equiv> \<lparr>phys_offset = 0, level_4_table = 0x1000\<rparr>"

lemma example_map_new_page:
  assumes "unat addr < 2 ^ 47" and "f = of_nat (0x100000 + 4096 * n)" and "k = n + 1"
  shows "\<exists>m'. map_new_page x86_ref example_page_crate flat_paging accept_map count_frames flat_mapper addr (m, n) = Some (f, m', k)"
  using assms
  by (simp add: map_new_page_def x86_ref_low count_frames_def map_user_page_def accept_map_def
      set_user_bit_for_parents_def flat_paging_def Let_def)

lemma example_load:
  "\<exists>st m'. load_user_programs x86_ref example_page_crate flat_paging accept_map count_frames flat_mapper (m, 25) = Some (0x119000, st, m', 28)"
proof -
  obtain m1 where 1: "map_new_page x86_ref example_page_crate flat_paging accept_map count_frames flat_mapper 0x400000 (m, 25) = Some (0x119000, m1, 26)"
    by (rule exE [OF example_map_new_page [of "0x400000" "0x119000" 25 26 m]]) simp_all
  obtain m2 where 2: "map_new_page x86_ref example_page_crate flat_paging accept_map count_frames flat_mapper 0x600000 (m1, 26) = Some (0x11A000, m2, 27)"
    by (rule exE [OF example_map_new_page [of "0x600000" "0x11A000" 26 27 m1]]) simp_all
  obtain m3 where 3: "write_code x86_ref 0 0x119000 loop_code m2 = Some m3" by (simp add: write_code_def x86_ref_low)
  obtain m4 where 4: "map_new_page x86_ref example_page_crate flat_paging accept_map count_frames flat_mapper 0x500000 (m3, 27) = Some (0x11B000, m4, 28)"
    by (rule exE [OF example_map_new_page [of "0x500000" "0x11B000" 27 28 m3]]) simp_all
  show ?thesis
    by (simp add: load_user_programs_def 1 2 3 4 x86_ref_low del: One_nat_def) (simp add: write_code_def x86_ref_low)
qed

lemma example_tasks:
  "\<exists>r. init_tasks x86_ref count_frames flat_mapper st1 st2 (sc, (s :: nat machine)\<lparr>memory := m, frames := 28\<rparr>) = Some r"
  by (simp add: init_tasks_def Process_new_def create_process_page_table_with_user_mappings_def count_frames_def x86_ref_low
      get_current_time_def Let_def split_beta)

lemma example_boot_check:
  assumes "tested_part s = at 0 \<lparr>t_heap = (example_heap 0x444444440000, \<lambda>_. 0), t_manager = G, t_cpus = example_cpus,
         PERF_MONITOR = PerfMonitor_new, CHANNEL_REGISTRY = ChannelRegistry_new, HANDLE_REGISTRY = HandleRegistry_new, t_current_pid = 0\<rparr>"
    and "b_pid s = 0"
  shows "\<exists>e. boot_check example_crates s = Reached (with_tested e s)"
proof -
  have "\<exists>B e. run_boot_checks (create_all_test_suites example_crates) 0 (tested_part s) = Some (Inr B, e) \<and> BootChecker_all_passed B"
    unfolding assms(1)
    using boot_tests_outcome [OF example_tested_ready(1-3), where k = "kernel_state (tested_part s)"
        and h = "(example_heap 0x444444445000, \<lambda>_. 0)" and c = "PerCpu_new 0 0xFFFF800000004000"] example_tested_ready(4-6)
    by (auto simp: assms(1) example_boot_requests example_current_cpu)
  then show ?thesis using assms(2) by (auto simp: boot_check_def)
qed

theorem boot_ready_witness:
  "\<exists>virt code_addr stack_addr s'. kernel_main example_crates flat_paging accept_map count_frames 0 0 0x1000 0
      0x10000 0x20000 boot_example = Reached (virt, code_addr, stack_addr, s')
    \<and> map proc_id (processes (b_sched s')) = [1, 2]"
proof -
  have K: "c_x86 example_crates = x86_ref" "c_page example_crates = example_page_crate" "c_heap example_crates = bump_heap"
    by (simp_all add: example_crates_def)
  have M: "cpu_init (b_cpus boot_example) = (Inr (), example_cpus)"
    using cpu_init_once(1) by (simp add: boot_example_def example_cpus_def)
  obtain s1 where s1: "boot_memory x86_ref example_page_crate bump_heap accept_map count_frames 0 0 0x1000 0 (boot_example\<lparr>b_cpus := example_cpus\<rparr>) =
      Reached (flat_mapper, s1)" "frames (b_machine s1) = 25" "b_pid s1 = 0"
      "tested_part s1 = at 0 \<lparr>t_heap = (example_heap 0x444444440000, \<lambda>_. 0), t_manager = b_manager s1, t_cpus = example_cpus,
         PERF_MONITOR = PerfMonitor_new, CHANNEL_REGISTRY = ChannelRegistry_new, HANDLE_REGISTRY = HandleRegistry_new, t_current_pid = 0\<rparr>"
    using boot_example_memory [of example_cpus] by blast
  obtain s2 where s2: "boot_check example_crates s1 = Reached s2" "frames (b_machine s2) = 25"
    using example_boot_check [OF s1(4,3)] s1(2) by (auto simp: with_tested_def Let_def)
  obtain st m where l: "load_user_programs x86_ref example_page_crate flat_paging accept_map count_frames flat_mapper
      (memory (b_machine s2), 25) = Some (0x119000, st, m, 28)"
    using example_load by blast
  obtain sc ma where t: "init_tasks x86_ref count_frames flat_mapper 0x10000 0x20000
      (b_sched s2, (b_machine s2)\<lparr>memory := m, frames := 28\<rparr>) = Some (sc, ma)"
    using example_tasks by fastforce
  obtain virt code_addr stack_addr s' where r: "kernel_main example_crates flat_paging accept_map count_frames 0 0 0x1000 0
      0x10000 0x20000 boot_example = Reached (virt, code_addr, stack_addr, s')"
    by (simp add: kernel_main_def boot_then_def expect_def K M s1(1) s2 l t x86_ref_low Let_def)
  have "\<not> MEMORY_MANAGER_INIT (b_manager boot_example)" "virt_add_spec (c_x86 example_crates)"
    using x86_ref_spec by (simp_all add: boot_example_def K)
  from boot_ready [OF r this(2,1)] r show ?thesis by (auto simp: boot_example_def SCHEDULER_init_def)
qed

section \<open>Consequences\<close>

text \<open>
  The processes made at boot have the identifiers one and two without taking them from the
  counter, which starts at one: the first process that is forked gets the identifier one again.
\<close>

lemma first_fork_reuses_pid:
  assumes "init_tasks X gf mp STACK1 STACK2 (sc, s) = Some (sc', s')" and "first_ids s"
    and "fresh_table X gf mp (frames s') f t"
  shows "\<exists>child s''. Process_fork X gf mp self s' = Some (Inr child, s'') \<and> proc_id child \<in> proc_id ` set (processes sc')"
proof -
  obtain child s'' where "Process_fork X gf mp self s' = Some (Inr child, s'')" "proc_id child = NEXT_PID s'"
    using Process_fork_eq [OF assms(3), of self] by blast
  moreover have "1 \<in> set (map proc_id (processes sc'))" using init_tasks_ids(1) [OF assms(1)] by simp
  ultimately show ?thesis using init_tasks_ids(2) [OF assms(1)] assms(2) by (auto simp: first_ids_def)
qed

text \<open>
  The code that is called in kernel mode before the jump to user mode is a jump to itself: the
  call never returns, and user mode is not entered.
\<close>

definition jmp_rel8_target :: "u64 \<Rightarrow> u8 list \<Rightarrow> u64 option" where
  "jmp_rel8_target addr code = (case code of
     [op, d] \<Rightarrow> if op = 0xEB then Some (addr + 2 + scast d) else None
   | _ \<Rightarrow> None)"

lemma loop_code_loops: "jmp_rel8_target addr loop_code = Some addr"
  by (simp add: jmp_rel8_target_def loop_code_def)

end
