(* ===== verification/Ruix_Vga.thy ===== *)
theory Ruix_Vga
  imports Ruix_Interfaces Ruix_Utf8
begin

text \<open>
  The text console (\<^verbatim>\<open>src/vga_buffer.rs\<close>) and the serial output it is copied to
  (\<^verbatim>\<open>src/serial.rs\<close>): colours, the 25 by 80 character buffer with scrolling, the writer,
  and the fixed buffer through which printed text reaches the serial port. The screen is refined
  against an abstract terminal that keeps all lines.
\<close>

unbundle bit_operations_syntax

section \<open>Characters and colours\<close>

datatype Color = Black | Blue | Green | Cyan | Red | Magenta | Brown | LightGray
  | DarkGray | LightBlue | LightGreen | LightCyan | LightRed | LightMagenta | Yellow | White

fun color_u8 :: "Color \<Rightarrow> u8" where
  "color_u8 Black = 0"
| "color_u8 Blue = 1"
| "color_u8 Green = 2"
| "color_u8 Cyan = 3"
| "color_u8 Red = 4"
| "color_u8 Magenta = 5"
| "color_u8 Brown = 6"
| "color_u8 LightGray = 7"
| "color_u8 DarkGray = 8"
| "color_u8 LightBlue = 9"
| "color_u8 LightGreen = 10"
| "color_u8 LightCyan = 11"
| "color_u8 LightRed = 12"
| "color_u8 LightMagenta = 13"
| "color_u8 Yellow = 14"
| "color_u8 White = 15"

type_synonym ColorCode = u8

definition ColorCode_new :: "Color \<Rightarrow> Color \<Rightarrow> ColorCode" where
  "ColorCode_new foreground background = push_bit 4 (color_u8 background) OR color_u8 foreground"

record ScreenChar =
  ascii_character :: u8
  sc_color_code :: ColorCode

definition BUFFER_HEIGHT :: nat where "BUFFER_HEIGHT = 25"
definition BUFFER_WIDTH :: nat where "BUFFER_WIDTH = 80"

section \<open>The writer\<close>

text \<open>
  The buffer is an array of 25 rows of 80 characters; \<open>put\<close> is a volatile write to one cell.
\<close>

type_synonym Buffer = "ScreenChar list list"

definition put :: "nat \<Rightarrow> nat \<Rightarrow> ScreenChar \<Rightarrow> Buffer \<Rightarrow> Buffer" where
  "put row col c b = b[row := (b ! row)[col := c]]"

record Writer =
  column_position :: nat
  color_code :: ColorCode
  chars :: Buffer

definition clear_row :: "nat \<Rightarrow> Writer \<Rightarrow> Writer" where
  "clear_row row w =
     (let blank = \<lparr>ascii_character = 0x20, sc_color_code = color_code w\<rparr>
      in w\<lparr>chars := fold (\<lambda>col b. put row col blank b) [0..<BUFFER_WIDTH] (chars w)\<rparr>)"

definition new_line :: "Writer \<Rightarrow> Writer" where
  "new_line w =
     (let w1 = w\<lparr>chars :=
            fold (\<lambda>row b. fold (\<lambda>col b. put (row - 1) col (b ! row ! col) b) [0..<BUFFER_WIDTH] b)
              [1..<BUFFER_HEIGHT] (chars w)\<rparr>
      in (clear_row (BUFFER_HEIGHT - 1) w1)\<lparr>column_position := 0\<rparr>)"

definition write_byte :: "u8 \<Rightarrow> Writer \<Rightarrow> Writer" where
  "write_byte byte w =
     (if byte = 0x0A then new_line w
      else let w1 = (if BUFFER_WIDTH \<le> column_position w then new_line w else w);
               row = BUFFER_HEIGHT - 1;
               col = column_position w1
           in w1\<lparr>chars := put row col \<lparr>ascii_character = byte, sc_color_code = color_code w1\<rparr> (chars w1),
                 column_position := column_position w1 + 1\<rparr>)"

definition printable :: "u8 \<Rightarrow> u8" where
  "printable byte = (if 0x20 \<le> byte \<and> byte \<le> 0x7e \<or> byte = 0x0A then byte else 0xfe)"

definition write_string :: "u8 list \<Rightarrow> Writer \<Rightarrow> Writer" where
  "write_string s w = fold (\<lambda>byte. write_byte (printable byte)) s w"

text \<open>The static writer, over whatever the screen shows at boot.\<close>

definition WRITER_init :: "Buffer \<Rightarrow> Writer" where
  "WRITER_init screen = \<lparr>column_position = 0, color_code = ColorCode_new Yellow Black, chars = screen\<rparr>"

section \<open>Output to the serial port\<close>

record BufferWriter =
  bw_buffer :: "u8 list"
  bw_pos :: nat

definition BufferWriter_new :: "u8 list \<Rightarrow> BufferWriter" where
  "BufferWriter_new buffer = \<lparr>bw_buffer = buffer, bw_pos = 0\<rparr>"

definition BufferWriter_len :: "BufferWriter \<Rightarrow> nat" where
  "BufferWriter_len w = bw_pos w"

text \<open>\<^verbatim>\<open>buffer.get_mut(pos..end)\<close> is \<^verbatim>\<open>None\<close> when the range is not in the
  buffer.\<close>

definition BufferWriter_write_str :: "u8 list \<Rightarrow> BufferWriter \<Rightarrow> BufferWriter" where
  "BufferWriter_write_str s w =
     (let e = min (bw_pos w + length s) (length (bw_buffer w))
      in if bw_pos w \<le> e \<and> e \<le> length (bw_buffer w)
         then w\<lparr>bw_buffer := take (bw_pos w) (bw_buffer w) @ take (e - bw_pos w) s @ drop e (bw_buffer w),
                bw_pos := e\<rparr>
         else w)"

text \<open>
  The serial port as the list of the bytes sent. \<open>args\<close> are the pieces of text that formatting
  passes to \<^verbatim>\<open>write_str\<close>, one after the other.
\<close>

definition serial_write_str :: "u8 list \<Rightarrow> u8 list \<Rightarrow> u8 list" where
  "serial_write_str s port = port @ s"

definition serial_write_byte :: "u8 \<Rightarrow> u8 list \<Rightarrow> u8 list" where
  "serial_write_byte b port = serial_write_str (if valid_utf8 [b] then [b] else [0x3F]) port"

definition invalid_text :: "u8 list" where
  "invalid_text = map of_char ''Invalid UTF-8''"

definition vga_print :: "u8 list list \<Rightarrow> Writer \<times> u8 list \<Rightarrow> Writer \<times> u8 list" where
  "vga_print args =
     (\<lambda>(w, port).
       let w' = fold write_string args w;
           buf = fold BufferWriter_write_str args (BufferWriter_new (replicate 1024 0));
           bytes = take (BufferWriter_len buf) (bw_buffer buf);
           txt = (if valid_utf8 bytes then bytes else invalid_text)
       in (w', serial_write_str txt port))"

section \<open>Scrolling\<close>

definition screen_ok :: "Buffer \<Rightarrow> bool" where
  "screen_ok b \<longleftrightarrow> length b = BUFFER_HEIGHT \<and> (\<forall>row \<in> set b. length row = BUFFER_WIDTH)"

definition Writer_inv :: "Writer \<Rightarrow> bool" where
  "Writer_inv w \<longleftrightarrow> screen_ok (chars w) \<and> column_position w \<le> BUFFER_WIDTH"

lemma fold_put_row:
  assumes "row < length b" and "n \<le> length (b ! row)"
  shows "fold (\<lambda>col b. put row col (f col) b) [0..<n] b = b[row := map f [0..<n] @ drop n (b ! row)]"
  using assms(2)
proof (induction n)
  case 0
  then show ?case by simp
next
  case (Suc n)
  then have "fold (\<lambda>col b. put row col (f col) b) [0..<Suc n] b
      = put row n (f n) (b[row := map f [0..<n] @ drop n (b ! row)])" by simp
  also have "\<dots> = b[row := (map f [0..<n] @ drop n (b ! row))[n := f n]]"
    using assms(1) by (simp add: put_def)
  also have "(map f [0..<n] @ drop n (b ! row))[n := f n] = map f [0..<Suc n] @ drop (Suc n) (b ! row)"
    using Suc.prems by (simp add: list_update_append Cons_nth_drop_Suc [symmetric])
  finally show ?case .
qed

lemma put_other_row: "r \<noteq> row \<Longrightarrow> put row col c b ! r = b ! r"
  and length_put [simp]: "length (put row col c b) = length b"
  by (simp_all add: put_def)

lemma fold_copy_row:
  assumes "Suc r < length b" and "n \<le> length (b ! r)" and "n \<le> length (b ! Suc r)"
  shows "fold (\<lambda>col b. put r col (b ! Suc r ! col) b) [0..<n] b = b[r := take n (b ! Suc r) @ drop n (b ! r)]"
proof -
  have "fold (\<lambda>col b. put r col (b ! Suc r ! col) b) [0..<k] b
      = fold (\<lambda>col b'. put r col (b ! Suc r ! col) b') [0..<k] b
    \<and> fold (\<lambda>col b'. put r col (b ! Suc r ! col) b') [0..<k] b ! Suc r = b ! Suc r" for k
    by (induction k) (simp_all add: put_other_row)
  moreover have "map (\<lambda>col. b ! Suc r ! col) [0..<n] = take n (b ! Suc r)"
    by (rule nth_equalityI) (use assms(3) in simp_all)
  ultimately show ?thesis using fold_put_row [of r b n] assms by simp
qed

lemma fold_scroll:
  assumes "\<forall>row \<in> set b. length row = n" and "k < length b"
  shows "fold (\<lambda>row b. fold (\<lambda>col b. put (row - 1) col (b ! row ! col) b) [0..<n] b) [1..<Suc k] b
    = take k (tl b) @ drop k b"
  using assms(2)
proof (induction k)
  case 0
  then show ?case by simp
next
  case (Suc k)
  let ?b = "take k (tl b) @ drop k b"
  have k: "k < length (tl b)" "Suc k < length b" using Suc.prems by simp_all
  have nth: "?b ! k = b ! k" "?b ! Suc k = b ! Suc k" "length ?b = length b"
    using k by (simp_all add: nth_append)
  have len: "length (b ! k) = n" "length (b ! Suc k) = n" using assms(1) k nth_mem by auto
  have "fold (\<lambda>col b. put (Suc k - 1) col (b ! Suc k ! col) b) [0..<n] ?b = ?b[k := b ! Suc k]"
    using fold_copy_row [of k ?b n] k(2) nth len by simp
  also have "\<dots> = take (Suc k) (tl b) @ drop (Suc k) b"
    using k by (simp add: list_update_append take_Suc_conv_app_nth nth_tl Cons_nth_drop_Suc [symmetric])
  finally show ?case using Suc.IH k by simp
qed

definition blank_row :: "ColorCode \<Rightarrow> ScreenChar list" where
  "blank_row code = replicate BUFFER_WIDTH \<lparr>ascii_character = 0x20, sc_color_code = code\<rparr>"

text \<open>The two nested loops of \<^verbatim>\<open>new_line\<close> drop the first row and add a blank one.\<close>

lemma new_line_eq:
  assumes "screen_ok (chars w)"
  shows "new_line w = w\<lparr>chars := tl (chars w) @ [blank_row (color_code w)], column_position := 0\<rparr>"
proof -
  let ?b = "chars w"
  have ok: "length ?b = 25" "\<forall>row \<in> set ?b. length row = BUFFER_WIDTH"
    using assms by (simp_all add: screen_ok_def BUFFER_HEIGHT_def)
  have "fold (\<lambda>row b. fold (\<lambda>col b. put (row - 1) col (b ! row ! col) b) [0..<BUFFER_WIDTH] b) [1..<Suc 24] ?b
      = take 24 (tl ?b) @ drop 24 ?b"
    using ok by (intro fold_scroll) simp_all
  also have "take 24 (tl ?b) @ drop 24 ?b = tl ?b @ [?b ! 24]"
    using ok(1) by (simp add: Cons_nth_drop_Suc [symmetric])
  finally have scroll: "fold (\<lambda>row b. fold (\<lambda>col b. put (row - 1) col (b ! row ! col) b) [0..<BUFFER_WIDTH] b)
      [1..<BUFFER_HEIGHT] ?b = tl ?b @ [?b ! 24]" by (simp add: BUFFER_HEIGHT_def)
  have "length (?b ! 24) = BUFFER_WIDTH" using ok by simp
  then have "fold (\<lambda>col b. put 24 col c b) [0..<BUFFER_WIDTH] (tl ?b @ [?b ! 24]) = tl ?b @ [replicate BUFFER_WIDTH c]" for c
    using ok(1) fold_put_row [of 24 "tl ?b @ [?b ! 24]" BUFFER_WIDTH "\<lambda>_. c"]
    by (simp add: nth_append list_update_append map_replicate_const)
  with scroll show ?thesis
    by (simp add: new_line_def clear_row_def Let_def blank_row_def) (simp add: BUFFER_HEIGHT_def)
qed

section \<open>The screen as a window on a terminal\<close>

text \<open>
  An abstract terminal keeps every finished line, the row under the current line and the characters
  written to it. The screen shows the last 24 finished lines and the current line.
\<close>

record terminal =
  history :: "ScreenChar list list"
  base_row :: "ScreenChar list"
  cells :: "ScreenChar list"

definition current_row :: "terminal \<Rightarrow> ScreenChar list" where
  "current_row t = cells t @ drop (length (cells t)) (base_row t)"

definition end_line :: "ColorCode \<Rightarrow> terminal \<Rightarrow> terminal" where
  "end_line code t = \<lparr>history = history t @ [current_row t], base_row = blank_row code, cells = []\<rparr>"

definition type_byte :: "ColorCode \<Rightarrow> u8 \<Rightarrow> terminal \<Rightarrow> terminal" where
  "type_byte code byte t =
     (if byte = 0x0A then end_line code t
      else let t' = (if length (cells t) < BUFFER_WIDTH then t else end_line code t)
           in t'\<lparr>cells := cells t' @ [\<lparr>ascii_character = byte, sc_color_code = code\<rparr>]\<rparr>)"

definition displays :: "Writer \<Rightarrow> terminal \<Rightarrow> bool" where
  "displays w t \<longleftrightarrow>
     chars w = drop (length (history t) - (BUFFER_HEIGHT - 1)) (history t) @ [current_row t]
   \<and> BUFFER_HEIGHT - 1 \<le> length (history t)
   \<and> (\<forall>row \<in> set (history t). length row = BUFFER_WIDTH) \<and> length (base_row t) = BUFFER_WIDTH
   \<and> column_position w = length (cells t) \<and> length (cells t) \<le> BUFFER_WIDTH"

lemma displays_ok: "displays w t \<Longrightarrow> Writer_inv w"
  by (auto simp: displays_def Writer_inv_def screen_ok_def current_row_def BUFFER_HEIGHT_def dest: in_set_dropD)

lemma new_line_displays:
  assumes "displays w t"
  shows "displays (new_line w) (end_line (color_code w) t)"
proof -
  let ?h = "history t"
  have h: "24 \<le> length ?h" using assms by (simp add: displays_def BUFFER_HEIGHT_def)
  have "drop (length ?h - 24) ?h \<noteq> []" using h by simp
  then have "tl (chars w) = drop (Suc (length ?h - 24)) ?h @ [current_row t]"
    using assms by (simp add: displays_def BUFFER_HEIGHT_def drop_Suc tl_drop)
  moreover have "drop (Suc (length ?h) - 24) (?h @ [current_row t]) = drop (Suc (length ?h - 24)) ?h @ [current_row t]"
  proof -
    have "Suc (length ?h) - 24 = Suc (length ?h - 24)" using h by simp
    then show ?thesis using h by (simp only: drop_append) simp
  qed
  moreover have "length (current_row t) = BUFFER_WIDTH" using assms by (simp add: displays_def current_row_def)
  ultimately show ?thesis
    using assms new_line_eq [of w] displays_ok [OF assms] h
    by (auto simp: displays_def end_line_def current_row_def Writer_inv_def blank_row_def BUFFER_HEIGHT_def)
qed

lemma put_cell_displays:
  assumes "displays w t" and "length (cells t) < BUFFER_WIDTH"
  shows "displays (w\<lparr>chars := put (BUFFER_HEIGHT - 1) (column_position w) c (chars w),
      column_position := column_position w + 1\<rparr>) (t\<lparr>cells := cells t @ [c]\<rparr>)"
proof -
  let ?h = "drop (length (history t) - 24) (history t)"
  have h: "length ?h = 24" using assms by (simp add: displays_def BUFFER_HEIGHT_def)
  have "(current_row t)[length (cells t) := c] = current_row (t\<lparr>cells := cells t @ [c]\<rparr>)"
    using assms by (simp add: displays_def current_row_def list_update_append Cons_nth_drop_Suc [symmetric])
  moreover have "put 24 (column_position w) c (?h @ [current_row t]) = ?h @ [(current_row t)[column_position w := c]]"
    using h by (simp add: put_def nth_append list_update_append)
  ultimately show ?thesis using assms by (simp add: displays_def BUFFER_HEIGHT_def)
qed

lemma write_byte_displays:
  assumes "displays w t"
  shows "displays (write_byte byte w) (type_byte (color_code w) byte t)" and "color_code (write_byte byte w) = color_code w"
proof -
  have col: "color_code (new_line w) = color_code w" by (simp add: new_line_def clear_row_def Let_def)
  then show "color_code (write_byte byte w) = color_code w" by (simp add: write_byte_def Let_def)
  have col': "column_position w = length (cells t)" using assms by (simp add: displays_def)
  let ?c = "\<lparr>ascii_character = byte, sc_color_code = color_code w\<rparr>"
  have nl: "displays (new_line w) (end_line (color_code w) t)" using assms by (rule new_line_displays)
  have empty: "length (cells (end_line (color_code w) t)) < BUFFER_WIDTH"
    by (simp add: end_line_def BUFFER_WIDTH_def)
  consider "byte = 0x0A" | "byte \<noteq> 0x0A" "length (cells t) < BUFFER_WIDTH"
    | "byte \<noteq> 0x0A" "BUFFER_WIDTH \<le> length (cells t)" by linarith
  then show "displays (write_byte byte w) (type_byte (color_code w) byte t)"
  proof cases
    case 1
    then show ?thesis using nl by (simp add: write_byte_def type_byte_def)
  next
    case 2
    then show ?thesis
      using put_cell_displays [OF assms 2(2), of ?c] col' by (simp add: write_byte_def type_byte_def Let_def)
  next
    case 3
    then show ?thesis
      using put_cell_displays [OF nl empty, of ?c] col' col by (simp add: write_byte_def type_byte_def Let_def)
  qed
qed

section \<open>Properties\<close>

text \<open>
  C12 (the screen is a window on the text). Start with a screen that shows a terminal and print any
  bytes: afterwards the screen shows the terminal on which the same bytes were typed, with
  unprintable bytes replaced. So the screen always consists of the last 24 finished lines and the
  current line, text wraps after 80 columns, and no character is lost at the wrap or while scrolling.
\<close>

theorem screen_shows_text:
  assumes "displays w t"
  shows "displays (write_string s w) (fold (\<lambda>byte. type_byte (color_code w) (printable byte)) s t)"
  using assms
proof (induction s arbitrary: w t)
  case Nil
  then show ?case by (simp add: write_string_def)
next
  case (Cons b s)
  note wb = write_byte_displays [OF Cons.prems, of "printable b"]
  from Cons.IH [OF wb(1)] wb(2) show ?case by (simp add: write_string_def)
qed

text \<open>Every screen of the right shape shows some terminal: its upper rows are the finished lines.\<close>

lemma initial_screen:
  assumes "screen_ok screen"
  shows "displays (WRITER_init screen) \<lparr>history = butlast screen, base_row = last screen, cells = []\<rparr>"
proof -
  have "screen \<noteq> []" using assms by (auto simp: screen_ok_def BUFFER_HEIGHT_def)
  then show ?thesis
    using assms by (auto simp: displays_def WRITER_init_def screen_ok_def current_row_def BUFFER_HEIGHT_def
        dest: in_set_butlastD)
qed

theorem screen_shows_text_witness:
  "displays (write_string [0x48, 0x69, 0x0A, 0x21] (WRITER_init (replicate 25 (blank_row 0))))
     (fold (\<lambda>byte. type_byte (ColorCode_new Yellow Black) (printable byte)) [0x48, 0x69, 0x0A, 0x21]
        \<lparr>history = replicate 24 (blank_row 0), base_row = blank_row 0, cells = []\<rparr>)"
proof -
  have "screen_ok (replicate 25 (blank_row 0))" by (simp add: screen_ok_def BUFFER_HEIGHT_def blank_row_def)
  from initial_screen [OF this]
  have "displays (WRITER_init (replicate 25 (blank_row 0)))
      \<lparr>history = replicate 24 (blank_row 0), base_row = blank_row 0, cells = []\<rparr>"
    by (simp add: butlast_conv_take)
  from screen_shows_text [OF this, of "[0x48, 0x69, 0x0A, 0x21]"] show ?thesis
    by (simp only: WRITER_init_def Writer.simps)
qed

text \<open>
  Colours. The code of a foreground and a background colour determines both.
\<close>

theorem color_code_round_trip:
  "ColorCode_new fg bg AND 0x0F = color_u8 fg \<and> drop_bit 4 (ColorCode_new fg bg) = color_u8 bg
    \<and> (ColorCode_new fg bg = ColorCode_new fg' bg' \<longleftrightarrow> fg = fg' \<and> bg = bg')"
proof -
  have dec: "ColorCode_new f b AND 0x0F = color_u8 f \<and> drop_bit 4 (ColorCode_new f b) = color_u8 b" for f b
    by (cases f; cases b) (simp_all add: ColorCode_new_def)
  have "color_u8 c = color_u8 d \<longleftrightarrow> c = d" for c d by (cases c; cases d) simp_all
  with dec show ?thesis by metis
qed

lemma BufferWriter_collects:
  assumes "length (bw_buffer w) = n" and "bw_pos w = min n (length acc)"
    and "take (bw_pos w) (bw_buffer w) = take n acc"
  shows "let w' = fold BufferWriter_write_str ss w in
    length (bw_buffer w') = n \<and> bw_pos w' = min n (length (acc @ concat ss))
    \<and> take (bw_pos w') (bw_buffer w') = take n (acc @ concat ss)"
  using assms
proof (induction ss arbitrary: w acc)
  case Nil
  then show ?case by simp
next
  case (Cons s ss)
  let ?e = "min (bw_pos w + length s) n"
  let ?w = "BufferWriter_write_str s w"
  have w: "bw_pos ?w = ?e"
    "bw_buffer ?w = take (bw_pos w) (bw_buffer w) @ take (?e - bw_pos w) s @ drop ?e (bw_buffer w)"
    using Cons.prems(1,2) by (simp_all add: BufferWriter_write_str_def Let_def)
  have e: "?e = min n (length (acc @ s))" using Cons.prems(2) by (simp add: min_def)
  have "take ?e (bw_buffer ?w) = take n acc @ take (?e - bw_pos w) s"
    unfolding w using Cons.prems by (simp add: min_def)
  also have "\<dots> = take n (acc @ s)" using Cons.prems(2) by (auto simp: min_def)
  finally have "take (bw_pos ?w) (bw_buffer ?w) = take n (acc @ s)" by (simp add: w(1))
  moreover have "length (bw_buffer ?w) = n" unfolding w using Cons.prems(1,2) by (auto simp: min_def)
  ultimately show ?case using Cons.IH [of ?w "acc @ s"] w(1) e by simp
qed

lemma serial_text:
  "snd (vga_print args (w, port)) = port @
     (if valid_utf8 (take 1024 (concat args)) then take 1024 (concat args) else invalid_text)"
proof -
  let ?w = "fold BufferWriter_write_str args (BufferWriter_new (replicate 1024 0))"
  have "length (bw_buffer (BufferWriter_new (replicate 1024 0))) = 1024"
    "bw_pos (BufferWriter_new (replicate 1024 0)) = min 1024 (length [])"
    "take (bw_pos (BufferWriter_new (replicate 1024 0))) (bw_buffer (BufferWriter_new (replicate 1024 0))) = take 1024 []"
    by (simp_all add: BufferWriter_new_def)
  from BufferWriter_collects [OF this, of args]
  have "take (BufferWriter_len ?w) (bw_buffer ?w) = take 1024 ([] @ concat args)"
    unfolding Let_def BufferWriter_len_def by blast
  then show ?thesis by (simp add: vga_print_def serial_write_str_def Let_def)
qed

text \<open>
  The serial copy. Text of at most 1024 bytes is sent to the serial port exactly as it is
  printed, however formatting splits it into pieces.
\<close>

theorem serial_copy_exact:
  assumes "valid_utf8 (concat args)" and "length (concat args) \<le> 1024"
  shows "vga_print args (w, port) = (fold write_string args w, port @ concat args)"
proof -
  have "fst (vga_print args (w, port)) = fold write_string args w" by (simp add: vga_print_def Let_def)
  moreover have "snd (vga_print args (w, port)) = port @ concat args"
    using assms by (simp add: serial_text)
  ultimately show ?thesis by (metis prod.collapse)
qed

theorem serial_copy_exact_witness:
  "vga_print [[0x6F], [0x6B, 0x0A]] (WRITER_init (replicate 25 (blank_row 0)), [0x3E])
     = (fold write_string [[0x6F], [0x6B, 0x0A]] (WRITER_init (replicate 25 (blank_row 0))), [0x3E, 0x6F, 0x6B, 0x0A])"
  using serial_copy_exact [of "[[0x6F], [0x6B, 0x0A]]" _ "[0x3E]"] by simp

text \<open>
  Longer text is cut after 1024 bytes; when the cut falls inside a character, the whole text is
  replaced on the serial port.
\<close>

lemma long_text_replaced:
  "valid_utf8 (replicate 1023 0x61 @ [0xC3, 0xA9])"
  "snd (vga_print [replicate 1023 0x61 @ [0xC3, 0xA9]] (w, port)) = port @ invalid_text"
proof -
  have "\<forall>b \<in> set (replicate 1023 (0x61 :: u8)). b < 0x80" by simp
  note a = valid_utf8_ascii_append [OF this]
  show "valid_utf8 (replicate 1023 0x61 @ [0xC3, 0xA9])" unfolding a by (simp add: cont_def)
  have "\<not> valid_utf8 (replicate 1023 0x61 @ [0xC3])" unfolding a by simp
  then show "snd (vga_print [replicate 1023 0x61 @ [0xC3, 0xA9]] (w, port)) = port @ invalid_text"
    by (simp add: serial_text)
qed

end
