(* ===== verification/Spec2Isabelle.thy ===== *)
theory Spec2Isabelle
  imports Ruix_Kernel Ruix_Boot Ruix_Vga
begin

text \<open>
  This library verifies ruix, an x86-64 kernel in Rust. It is a shallow embedding: the structs and
  enums of the source are records and datatypes with the fields and constructors of the source, each
  function is a HOL function with the same branches, and the theorems are about these functions. The
  operations are executable. The names are those of the source; methods that would clash are named
  \<^verbatim>\<open>Struct_method\<close>.

  \<^bold>\<open>The program.\<close> \<^verbatim>\<open>main.rs\<close> initialises the processor tables, memory and the heap,
  runs the checks and tests of \<^verbatim>\<open>testing.rs\<close>, \<^verbatim>\<open>testing/boot_check.rs\<close> and
  \<^verbatim>\<open>tests\<close>, loads two user programs, creates two processes and starts the timer.
  From then on the kernel is driven by interrupts (\<^verbatim>\<open>interrupts.rs\<close>) and by system calls
  (\<^verbatim>\<open>syscall.rs\<close>): the timer interrupt calls the scheduler
  (\<^verbatim>\<open>process/scheduler.rs\<close>) and the timeouts (\<^verbatim>\<open>timer.rs\<close>); system calls work on
  processes (\<^verbatim>\<open>process/mod.rs\<close>), channels and memory handles (\<^verbatim>\<open>ipc.rs\<close>).

  \<^bold>\<open>The theories.\<close>
  \<^item> \<open>Ruix_Prelude\<close>, \<open>Ruix_Interfaces\<close>, \<open>Ruix_Mem\<close>, \<open>Ruix_X86\<close> and \<open>Ruix_Utf8\<close> are the shared
    ground: machine words, operations of Rust's standard library, memory as a byte for every address,
    the contract of the \<^verbatim>\<open>x86_64\<close> crate, and the locales for what several components have in
    common: invariants over runs (\<open>invariant_system\<close>), first-in-first-out conservation (\<open>fifo\<close>), fresh
    identifiers (\<open>id_source\<close>), records found by identifier (\<open>registry\<close>) and ordered maps
    (\<open>ordered_map\<close>). Each is interpreted by the components that satisfy it.
  \<^item> \<open>Ruix_Error\<close> (\<^verbatim>\<open>error.rs\<close>): the error enums, their texts, conversions, recovery.
  \<^item> \<open>Ruix_Channel\<close>, \<open>Ruix_Handle\<close> (\<^verbatim>\<open>ipc.rs\<close>): message channels and memory handles.
    Messages are delivered in order, completely and only to the other endpoint; access to a handle
    can be gained only by a transfer from its owner, and revocation is final.
  \<^item> \<open>Ruix_Process\<close>, \<open>Ruix_Scheduler\<close>, \<open>Ruix_Timer\<close> (\<^verbatim>\<open>process\<close>, \<^verbatim>\<open>timer.rs\<close>):
    creation, fork, exit and waiting, with the saved register contexts in memory; the process queue
    and tree; the limits on time in user mode. Scheduling loses no process; exit, clean-up and
    timeouts have exactly their intended effects.
  \<^item> \<open>Ruix_Syscall\<close> (\<^verbatim>\<open>syscall.rs\<close>): argument parsing, pointer checks and all system calls. They
    write only to user memory, with one exception; messages and exit codes arrive unchanged.
  \<^item> \<open>Ruix_Memory\<close>, \<open>Ruix_Allocator\<close>, \<open>Ruix_Scalable\<close> (\<^verbatim>\<open>memory.rs\<close>, \<^verbatim>\<open>allocator\<close>,
    \<^verbatim>\<open>memory/scalable.rs\<close>): frames are handed out once, a mapped page translates to its
    frame, blocks of the heap in use are disjoint and keep their contents.
  \<^item> \<open>Ruix_Cpu\<close> (\<^verbatim>\<open>cpu.rs\<close>): the data of 64 processors, their counters and kernel stacks.
  \<^item> \<open>Ruix_Vga\<close> (\<^verbatim>\<open>vga_buffer.rs\<close>, \<^verbatim>\<open>serial.rs\<close>): the screen refines an abstract
    terminal, and the serial port gets the same text.
  \<^item> \<open>Ruix_Task\<close> (\<^verbatim>\<open>task\<close> and the keyboard part of \<^verbatim>\<open>process/mod.rs\<close>): the executor
    returns when the wake-ups are bounded, and no key press is lost.
  \<^item> \<open>Ruix_Interrupts\<close>, \<open>Ruix_Gdt\<close> (\<^verbatim>\<open>interrupts.rs\<close>, \<^verbatim>\<open>gdt.rs\<close>): the naked
    assembly of the entry points as lists of instructions with their semantics on registers and
    memory; what is saved, passed, restored and, for \<^verbatim>\<open>int 0x80\<close>, confused; segments and the
    jump to user mode.
  \<^item> \<open>Ruix_Testing\<close>, \<open>Ruix_Suites\<close>, \<open>Ruix_Boot\<close>: the test framework, the tests themselves run on
    the models of the components, and the boot sequence with every early stop and panic.
  \<^item> \<open>Ruix_Kernel\<close>: the events that change the state of the running kernel as a step relation. The
    theorem of this theory follows from its invariant.

  \<^bold>\<open>State and effects.\<close> A function with a mutable receiver returns its result with the new state.
  \<^verbatim>\<open>Result\<close> is a sum with the error on the left, and a panic is \<^verbatim>\<open>None\<close>. Statics behind
  locks, cells and atomics are fields of the state records, as each operation holds its lock for the
  whole time. Integers have the width of the source and wrap; where the source checks, the check is
  there. Interleavings matter in three places and are explicit there: the order of calls by different
  processes is an arbitrary list of operations, the events of the kernel are an arbitrary sequence of
  steps, and key presses arrive at any point of a poll.

  \<^bold>\<open>Code outside the repository\<close> is an argument: the \<^verbatim>\<open>x86_64\<close> crate
  (\<open>x86_crate\<close>, \<open>page_crate\<close>, \<open>paging_crate\<close>, \<^verbatim>\<open>map_to\<close>, the descriptor table), the
  \<^verbatim>\<open>linked_list_allocator\<close> (\<open>heap_crate\<close>), the lock-free queue (\<open>queue_crate\<close>), the
  keyboard decoder, the boot loader's memory map, the futures of tasks, and the functions called from
  assembly. Theorems that rely on their documented behaviour name it as a hypothesis
  (\<open>virt_new_spec\<close>, \<open>heap_spec\<close>, \<open>queue_spec\<close>, \<open>c_abi\<close> and others), and the witnesses instantiate
  them with concrete functions.

  \<^bold>\<open>Loops and bounds.\<close> Loops over data are structural recursion; the index loop of the handle clean-up has a
  termination proof. The executor's loop may run forever and is a \<^verbatim>\<open>partial_function\<close>; that it
  returns is a theorem. No fuel is used. Theorems about fresh identifiers assume that the 64 bit
  counters have not been used up.

  \<^bold>\<open>Not modelled.\<close> The text that \<^verbatim>\<open>println!\<close> produces during the operations, apart from
  \<^verbatim>\<open>log_error\<close> and the system call \<^verbatim>\<open>write\<close>; the registers of the serial port
  (\<^verbatim>\<open>serial::init\<close>, waiting for the transmitter) and TLB flushes, which are hardware effects
  with no visible state here; the handlers of exceptions, which print and stop; \<^verbatim>\<open>lib.rs\<close>, which
  declares modules and repeats a part of the initialisation that nothing calls; and
  \<^verbatim>\<open>tests/syscall_test.rs\<close>, a user program that is not built. Real concurrency between
  processors is not modelled: the source runs on one.
\<close>

section \<open>The kernel under every sequence of events\<close>

text \<open>
  C1 (the kernel state stays consistent). In every state that the kernel reaches by system calls
  of any process, timer interrupts, new processes, clean-up, timeout bookkeeping and stores of
  user programs, in any order: process identifiers are distinct, at most the front process is
  marked as running, priorities are at most 31 and the children counters are right; channel and
  handle identifiers are distinct and not zero, every channel joins two different processes, no
  queue holds more than its 1000 messages and every message in a queue carries the identifier of
  the endpoint that sent it; and a handle that is not active grants no access.
\<close>

theorem kernel_reachable_inv:
  assumes "reachable X (k, m)"
  shows "distinct (map proc_id (processes (sched k)))
    \<and> (\<forall>p \<in> set (tl (processes (sched k))). state p \<noteq> Running)
    \<and> (\<forall>p \<in> set (processes (sched k)). priority p \<le> 31 \<and> unat (children_count (Process.stats p)) = length (children p))
    \<and> distinct (map ch_id (channels (chans k)))
    \<and> (\<forall>c \<in> set (channels (chans k)). ch_id c \<noteq> 0 \<and> endpoint1 c \<noteq> endpoint2 c
          \<and> length (queue1_to_2 c) \<le> MAX_QUEUE_SIZE \<and> length (queue2_to_1 c) \<le> MAX_QUEUE_SIZE
          \<and> (\<forall>msg \<in> set (queue1_to_2 c). sender_pid msg = endpoint1 c)
          \<and> (\<forall>msg \<in> set (queue2_to_1 c). sender_pid msg = endpoint2 c))
    \<and> distinct (map mh_id (handles (hands k)))
    \<and> (\<forall>h \<in> set (handles (hands k)). mh_id h \<noteq> 0 \<and> PageRange_is_valid (mh_range h)
          \<and> (active h \<or> rights h = NoAccess))"
  using reachable_kernel_inv [OF assms]
  by (simp add: kernel_inv_def Scheduler_inv_def Process_wf_def ChannelRegistry_inv_def Channel_ok_def
      Channel_inv_def HandleRegistry_inv_def MemoryHandle_ok_def)

text \<open>Two processes are added, the timer interrupt arrives, and the first one opens a channel to the second.\<close>

definition example_spawned :: "(unit, unit) kernel" where
  "example_spawned = (fst (kernel_start example_cpu (\<lambda>_. 0)))\<lparr>sched := example_scheduler Ready Ready\<rparr>"

definition example_running :: "(unit, unit) kernel \<times> TimeoutManager" where
  "example_running = timer_interrupt 0x7000 (example_spawned, TimeoutManager_new)"

definition example_connected :: "(unit, unit) kernel" where
  "example_connected =
     snd (the (syscall_dispatch x86_ref (example_args 2 2 0 0 0) (current_process_id (cpu_data (fst example_running)))
       (fst example_running)))"

lemma example_spawned_reachable: "reachable x86_ref (example_spawned, TimeoutManager_new)"
proof -
  let ?k0 = "fst (kernel_start example_cpu (\<lambda>_. 0)) :: (unit, unit) kernel"
  let ?p = "example_process 1 0 Ready" and ?q = "example_process 2 1 Ready"
  let ?k1 = "?k0\<lparr>sched := add_process ?p (sched ?k0)\<rparr>"
  have wf: "Process_wf ?p" "Process_wf ?q" using example_scheduler_inv [of Ready Ready]
    by (auto simp: Scheduler_inv_def example_scheduler_eq)
  have "kernel_step x86_ref (?k0, TimeoutManager_new) (?k1, TimeoutManager_new)"
    by (rule kernel_step.spawn) (use wf in \<open>simp_all add: kernel_start_def SCHEDULER_init_def lookup_process_def keyed_lookup_def example_process_def Let_def\<close>)
  moreover have "kernel_step x86_ref (?k1, TimeoutManager_new) (?k1\<lparr>sched := add_process ?q (sched ?k1)\<rparr>, TimeoutManager_new)"
    by (rule kernel_step.spawn)
      (use wf in \<open>simp_all add: kernel_start_def SCHEDULER_init_def add_process_def lookup_process_def keyed_lookup_def example_process_def Let_def\<close>)
  moreover have "?k1\<lparr>sched := add_process ?q (sched ?k1)\<rparr> = example_spawned"
    by (simp add: example_spawned_def kernel_start_def example_scheduler_def)
  moreover have "reachable x86_ref (?k0, TimeoutManager_new)"
    using reachable.start [of x86_ref example_cpu "\<lambda>_. 0"] by (simp add: kernel_start_def)
  ultimately show ?thesis by (metis reachable.step)
qed

lemma example_running_eq:
  "current_process_id (cpu_data (fst example_running)) = 1" "chans (fst example_running) = ChannelRegistry_new"
  by (simp_all add: example_running_def timer_interrupt_def handle_switch_def split_beta example_spawned_def kernel_start_def
      schedule_def get_next_process_by_priority_def example_scheduler_eq example_process_def runnable_def switch_to_def Let_def)

lemma example_connected_step:
  "syscall_dispatch x86_ref (example_args 2 2 0 0 0) (current_process_id (cpu_data (fst example_running)))
     (fst example_running) = Some (1, example_connected)"
  "length (channels (chans example_connected)) = 1"
  by (simp_all add: example_connected_def example_running_eq syscall_dispatch_def example_args_def sys_create_channel_def
      ipc_create_channel_def ChannelRegistry_create_channel_def ChannelRegistry_new_def Let_def split_beta)

theorem kernel_reachable_inv_witness:
  "length (channels (chans example_connected)) = 1 \<and> distinct (map proc_id (processes (sched example_connected)))
   \<and> list_all (\<lambda>c. length (queue1_to_2 c) \<le> MAX_QUEUE_SIZE) (channels (chans example_connected))"
proof -
  have "kernel_step x86_ref (example_spawned, TimeoutManager_new) example_running"
    unfolding example_running_def by (rule kernel_step.timer)
  moreover have "ids_left (fst example_running)"
    by (simp add: ids_left_def example_running_def timer_interrupt_def split_beta example_spawned_def kernel_start_def
        ChannelRegistry_new_def HandleRegistry_new_def)
  moreover from this have "kernel_step x86_ref example_running (example_connected, snd example_running)"
    using kernel_step.syscall [OF example_connected_step(1), of "snd example_running"] by simp
  ultimately have "reachable x86_ref (example_connected, snd example_running)"
    using example_spawned_reachable by (blast intro: reachable.step)
  from kernel_reachable_inv [OF this] example_connected_step(2) show ?thesis by (simp add: list_all_iff)
qed

end
